(* ===== verification/Prelude.thy ===== *)
theory Prelude
  imports Main "HOL-Library.Word" "HOL-Library.Multiset"
begin

text \<open>
  Shared vocabulary of the development: the Go run-time effects the code of \<open>src/\<close> uses
  (state, panics, slices, \<open>copy\<close>), written as a state monad with panics as values; its
  weakest preconditions, which carry the component proofs; and the generic list lemmas.
  \<open>util.Assert\<close> and \<open>pkg/errors\<close> are modelled here as well.
\<close>

section \<open>Types\<close>

type_synonym byte = "8 word"
type_synonym uint32 = "32 word"
type_synonym uint64 = "64 word"

text \<open>
  The errno values the code compares with; every other value of \<open>unix.Errno\<close> is
  \<open>EOTHER\<close>. On Linux \<open>EWOULDBLOCK\<close> and \<open>EAGAIN\<close> are the same number.
\<close>

datatype errno = EAGAIN | EINTR | EINVAL | ENOENT | EEXIST | EINPROGRESS | EISCONN
  | EADDRINUSE | EADDRNOTAVAIL | ECONNREFUSED | ENETUNREACH | EACCES | EPERM
  | EAFNOSUPPORT | EALREADY | EBADF | EFAULT | ENOTSOCK | ECONNABORTED | EOTHER nat

abbreviation EWOULDBLOCK :: errno where
  "EWOULDBLOCK \<equiv> EAGAIN"

text \<open>
  Go \<open>error\<close> values: the four of \<open>pkg/errors/errors.go\<close>, a boxed errno, and those of
  package \<open>net\<close>: \<open>net.AddrError\<close> with its text and the address it is about (kept as bytes
  instead of printed), and the errors of the resolver, by number.
\<close>

datatype goerror =
    ErrUnsupportedProtocol
  | ErrUnsupportedTCPProtocol
  | ErrAcceptSocket
  | ErrConnNotOpened
  | Errno errno
  | AddrError string "byte list"
  | ResolveError nat

text \<open>
  Socket addresses (\<open>unix.Sockaddr\<close>) and the addresses of package \<open>net\<close>. A \<open>net.IP\<close> is a
  byte slice. A \<open>net.Addr\<close> is an interface: \<open>None\<close> of type \<open>net_addr option\<close> is the nil
  interface, \<open>Some (TCPAddr None)\<close> an interface that holds a nil \<open>*net.TCPAddr\<close>.
\<close>

datatype sockaddr =
    SockaddrInet4 int "byte list"         \<comment> \<open>port, address\<close>
  | SockaddrInet6 int uint32 "byte list"  \<comment> \<open>port, zone, address\<close>
  | SockaddrUnix string
  | SockaddrOther

record tcpAddr =
  ta_IP :: "byte list"
  ta_Port :: int
  ta_Zone :: string

datatype net_addr = TCPAddr "tcpAddr option" | UnixAddr string string

text \<open>The ways a goroutine panics in this code.\<close>

datatype panic =
    AssertFailed string
  | SliceBounds
  | IndexOutOfRange
  | NilDereference
  | DivideByZero
  | MakeSliceLen
  | PanicErr goerror

text \<open>
  The outcome of a system call of \<open>golang.org/x/sys/unix\<close>: the count, descriptor or clock
  value it returns, its error, the bytes a read delivered, the events an \<open>epoll_wait\<close> stored
  (each with the pointer that was registered for it), and the address of \<open>accept\<close> and
  \<open>getsockname\<close>.
\<close>

record sysret =
  ret_n :: int
  ret_err :: "errno option"
  ret_data :: "byte list"
  ret_events :: "(uint32 \<times> nat) list"
  ret_addr :: "sockaddr option"

type_synonym ('s, 'a) go = "'s \<Rightarrow> panic + ('a \<times> 's)"

section \<open>State with panics\<close>

definition go_ret :: "'a \<Rightarrow> ('s, 'a) go" where
  "go_ret a s = Inr (a, s)"

definition go_panic :: "panic \<Rightarrow> ('s, 'a) go" where
  "go_panic e s = Inl e"

definition go_bind :: "('s, 'a) go \<Rightarrow> ('a \<Rightarrow> ('s, 'b) go) \<Rightarrow> ('s, 'b) go" where
  "go_bind m f s = (case m s of Inl e \<Rightarrow> Inl e | Inr (a, t) \<Rightarrow> f a t)"

definition go_seq :: "('s, 'a) go \<Rightarrow> ('s, 'b) go \<Rightarrow> ('s, 'b) go" where
  "go_seq m n = go_bind m (\<lambda>_. n)"

definition go_gets :: "('s \<Rightarrow> 'a) \<Rightarrow> ('s, 'a) go" where
  "go_gets g s = Inr (g s, s)"

definition go_modify :: "('s \<Rightarrow> 's) \<Rightarrow> ('s, unit) go" where
  "go_modify f s = Inr ((), f s)"

definition go_when :: "bool \<Rightarrow> ('s, unit) go \<Rightarrow> ('s, unit) go" where
  "go_when b m = (if b then m else go_ret ())"

text \<open>A \<open>for\<close> loop over a slice or list whose elements do not change during the loop.\<close>

primrec go_for :: "'x list \<Rightarrow> ('x \<Rightarrow> ('s, unit) go) \<Rightarrow> ('s, unit) go" where
  "go_for [] f = go_ret ()"
| "go_for (x # xs) f = go_seq (f x) (go_for xs f)"

text \<open>Running an operation of a part of the state: a method of an object held in a field.\<close>

definition go_zoom :: "('s \<Rightarrow> 't) \<Rightarrow> ('t \<Rightarrow> 's \<Rightarrow> 's) \<Rightarrow> ('t, 'a) go \<Rightarrow> ('s, 'a) go" where
  "go_zoom g p m s = (case m (g s) of Inl e \<Rightarrow> Inl e | Inr (a, t) \<Rightarrow> Inr (a, p t s))"

text \<open>\<open>util.Assert\<close> panics with the formatted message when its condition is false.\<close>

definition Assert :: "bool \<Rightarrow> string \<Rightarrow> ('s, unit) go" where
  "Assert cond msg = (if \<not> cond then go_panic (AssertFailed msg) else go_ret ())"

text \<open>
  Slice expressions \<open>xs[lo:hi]\<close>. Go checks \<open>0 \<le> lo \<le> hi \<le> cap xs\<close>; the
  model checks against \<open>len xs\<close>. The two differ only for \<open>hi\<close> between \<open>len\<close> and
  \<open>cap\<close>, where Go shows whatever bytes the allocator left in the spare capacity. The
  well-formedness invariants of the components exclude that range.
\<close>

definition go_slice :: "'a list \<Rightarrow> int \<Rightarrow> int \<Rightarrow> ('s, 'a list) go" where
  "go_slice xs lo hi =
     (if 0 \<le> lo \<and> lo \<le> hi \<and> hi \<le> int (length xs)
      then go_ret (take (nat (hi - lo)) (drop (nat lo) xs)) else go_panic SliceBounds)"

definition go_index :: "'a list \<Rightarrow> int \<Rightarrow> ('s, 'a) go" where
  "go_index xs i =
     (if 0 \<le> i \<and> i < int (length xs) then go_ret (xs ! nat i) else go_panic IndexOutOfRange)"

definition go_make :: "'a \<Rightarrow> int \<Rightarrow> ('s, 'a list) go" where
  "go_make z n = (if 0 \<le> n then go_ret (replicate (nat n) z) else go_panic MakeSliceLen)"

text \<open>\<open>copy(dst[at:], src)\<close>: overwrites as much of \<open>dst\<close> as both slices allow.\<close>

definition copy_at :: "nat \<Rightarrow> 'a list \<Rightarrow> 'a list \<Rightarrow> 'a list" where
  "copy_at i src dst =
     take i dst @ take (length dst - i) src @ drop (i + length src) dst"

text \<open>\<open>strconv.Itoa\<close>: the decimal digits, with a sign.\<close>

definition digit :: "nat \<Rightarrow> char" where
  "digit d = char_of (48 + d)"

fun decimal :: "nat \<Rightarrow> string" where
  "decimal n = (if n < 10 then [digit n] else decimal (n div 10) @ [digit (n mod 10)])"

definition Itoa :: "int \<Rightarrow> string" where
  "Itoa i = (if i < 0 then ''-'' @ decimal (nat (- i)) else decimal (nat i))"

declare decimal.simps [simp del]

section \<open>Weakest preconditions\<close>

text \<open>
  \<open>wp E m Q s\<close>: running \<open>m\<close> from \<open>s\<close> returns with \<open>Q\<close>, or panics with \<open>E\<close>.
  The equations below are simp rules, so that unfolding an operation and simplifying computes
  the precondition of its whole body.
\<close>

definition wp :: "(panic \<Rightarrow> bool) \<Rightarrow> ('s, 'a) go \<Rightarrow> ('a \<Rightarrow> 's \<Rightarrow> bool) \<Rightarrow> 's \<Rightarrow> bool" where
  "wp E m Q s = (case m s of Inl e \<Rightarrow> E e | Inr (a, t) \<Rightarrow> Q a t)"

abbreviation no_panic :: "panic \<Rightarrow> bool" where
  "no_panic \<equiv> (\<lambda>_. False)"

abbreviation any_panic :: "panic \<Rightarrow> bool" where
  "any_panic \<equiv> (\<lambda>_. True)"

lemma wp_ret [simp]: "wp E (go_ret a) Q s = Q a s"
  by (simp add: wp_def go_ret_def)

lemma wp_panic [simp]: "wp E (go_panic e) Q s = E e"
  by (simp add: wp_def go_panic_def)

lemma wp_bind [simp]: "wp E (go_bind m f) Q s = wp E m (\<lambda>a. wp E (f a) Q) s"
  by (simp add: wp_def go_bind_def split: sum.splits prod.splits)

lemma wp_seq [simp]: "wp E (go_seq m n) Q s = wp E m (\<lambda>_. wp E n Q) s"
  by (simp add: go_seq_def)

lemma wp_gets [simp]: "wp E (go_gets g) Q s = Q (g s) s"
  by (simp add: wp_def go_gets_def)

lemma wp_modify [simp]: "wp E (go_modify f) Q s = Q () (f s)"
  by (simp add: wp_def go_modify_def)

lemma wp_when [simp]: "wp E (go_when b m) Q s = (if b then wp E m Q s else Q () s)"
  by (simp add: go_when_def)

lemma wp_for_Nil [simp]: "wp E (go_for [] f) Q s = Q () s"
  by simp

lemma wp_zoom [simp]: "wp E (go_zoom g p m) Q s = wp E m (\<lambda>a t. Q a (p t s)) (g s)"
  by (simp add: wp_def go_zoom_def split: sum.splits prod.splits)

lemma wp_Assert [simp]: "wp E (Assert c msg) Q s = (if c then Q () s else E (AssertFailed msg))"
  by (simp add: Assert_def)

lemma wp_slice [simp]:
  "wp E (go_slice xs lo hi) Q s =
     (if 0 \<le> lo \<and> lo \<le> hi \<and> hi \<le> int (length xs)
      then Q (take (nat (hi - lo)) (drop (nat lo) xs)) s else E SliceBounds)"
  by (simp add: go_slice_def)

lemma wp_index [simp]:
  "wp E (go_index xs i) Q s =
     (if 0 \<le> i \<and> i < int (length xs) then Q (xs ! nat i) s else E IndexOutOfRange)"
  by (simp add: go_index_def)

lemma wp_make [simp]:
  "wp E (go_make z n) Q s = (if 0 \<le> n then Q (replicate (nat n) z) s else E MakeSliceLen)"
  by (simp add: go_make_def)

lemma wp_if [simp]: "wp E (if b then m else n) Q s = (if b then wp E m Q s else wp E n Q s)"
  by simp

lemma wp_ifI: "(b \<Longrightarrow> wp E m Q s) \<Longrightarrow> (\<not> b \<Longrightarrow> wp E n Q s) \<Longrightarrow> wp E (if b then m else n) Q s"
  by simp

lemma wp_case_option [simp]:
  "wp E (case x of None \<Rightarrow> m | Some a \<Rightarrow> f a) Q s =
     (case x of None \<Rightarrow> wp E m Q s | Some a \<Rightarrow> wp E (f a) Q s)"
  by (cases x) auto

lemma wp_case_prod [simp]:
  "wp E (case x of (a, b) \<Rightarrow> f a b) Q s = (case x of (a, b) \<Rightarrow> wp E (f a b) Q s)"
  by (cases x) auto

lemma wp_mono:
  assumes "wp E m Q s" and "\<And>a t. Q a t \<Longrightarrow> R a t" and "\<And>e. E e \<Longrightarrow> F e"
  shows "wp F m R s"
  using assms by (auto simp: wp_def split: sum.splits)

lemma wp_conj: "wp E m Q s \<Longrightarrow> wp E m R s \<Longrightarrow> wp E m (\<lambda>a t. Q a t \<and> R a t) s"
  by (auto simp: wp_def split: sum.splits)

lemma wp_returns: "wp no_panic m Q s \<longleftrightarrow> (\<exists>a t. m s = Inr (a, t) \<and> Q a t)"
  by (auto simp: wp_def split: sum.splits)

lemma wp_result: "m s = Inr (a, t) \<Longrightarrow> wp E m Q s \<Longrightarrow> Q a t"
  by (simp add: wp_def)

lemma wp_panics: "wp (\<lambda>e. e = x) m (\<lambda>_ _. False) s \<longleftrightarrow> m s = Inl x"
  by (auto simp: wp_def split: sum.splits)

lemma wp_eq: "m s = Inr (a, t) \<Longrightarrow> wp E m Q s = Q a t"
  by (simp add: wp_def)

lemma wp_same: "m s = m' t \<Longrightarrow> wp E m Q s = wp E m' Q t"
  by (simp add: wp_def)

text \<open>The loop rule: an invariant that every iteration keeps holds after the loop.\<close>

lemma wp_for:
  assumes "I s" and "\<And>x t. x \<in> set xs \<Longrightarrow> I t \<Longrightarrow> wp E (f x) (\<lambda>_. I) t"
  shows "wp E (go_for xs f) (\<lambda>_. I) s"
  using assms
proof (induction xs arbitrary: s)
  case Nil
  then show ?case by simp
next
  case (Cons x xs)
  have "wp E (f x) (\<lambda>_. I) s"
    using Cons.prems by simp
  moreover have "wp E (go_for xs f) (\<lambda>_. I) t" if "I t" for t
    using that Cons.prems(2) by (intro Cons.IH) auto
  ultimately show ?case
    by (auto elim: wp_mono)
qed

lemma go_for_append: "go_for (xs @ ys) f = go_seq (go_for xs f) (go_for ys f)"
  by (induction xs)
    (auto simp: go_seq_def go_bind_def go_ret_def fun_eq_iff split: sum.splits)

lemma go_seq_cong:
  "(\<And>a t. m s = Inr (a, t) \<Longrightarrow> n t = n' t) \<Longrightarrow> go_seq m n s = go_seq m n' s"
  by (auto simp: go_seq_def go_bind_def split: sum.splits)

lemma go_seq_replace:
  "m s = m' s \<Longrightarrow> (\<And>a t. m' s = Inr (a, t) \<Longrightarrow> n t = n' t) \<Longrightarrow> go_seq m n s = go_seq m' n' s"
  by (auto simp: go_seq_def go_bind_def split: sum.splits)

lemma go_seq_assoc: "go_seq (go_seq l m) n = go_seq l (go_seq m n)"
  by (auto simp: go_seq_def go_bind_def fun_eq_iff split: sum.splits)

lemma go_seq_ret [simp]: "go_seq (go_ret a) m = m" "go_seq m (go_ret ()) = m"
  for m :: "('s, unit) go"
  by (auto simp: go_seq_def go_bind_def go_ret_def fun_eq_iff split: sum.splits)

lemma go_bind_ret [simp]: "go_bind (go_ret a) f = f a"
  by (simp add: go_bind_def go_ret_def fun_eq_iff)

section \<open>Relations that operations keep\<close>

text \<open>
  A preorder between the states before and after an operation that may panic with \<open>E\<close>. It is
  kept by composed operations if it is kept by their parts.
\<close>

locale kept =
  fixes E :: "panic \<Rightarrow> bool" and R :: "'s \<Rightarrow> 's \<Rightarrow> bool"
  assumes refl: "R s s" and trans: "R s t \<Longrightarrow> R t u \<Longrightarrow> R s u"
begin

definition keeps :: "('s, 'a) go \<Rightarrow> bool" where
  "keeps m \<longleftrightarrow> (\<forall>s. wp E m (\<lambda>_. R s) s)"

lemma keepsI: "(\<And>s. wp E m (\<lambda>_. R s) s) \<Longrightarrow> keeps m"
  by (simp add: keeps_def)

lemma keepsD: "keeps m \<Longrightarrow> (\<And>a t. R s t \<Longrightarrow> Q a t) \<Longrightarrow> wp E m Q s"
  unfolding keeps_def by (blast intro: wp_mono)

lemma keeps_after: "R s t \<Longrightarrow> keeps m \<Longrightarrow> wp E m (\<lambda>_. R s) t"
  by (erule keepsD) (rule trans)

lemma keeps_ret: "keeps (go_ret a)" and keeps_gets: "keeps (go_gets g)"
  by (simp_all add: keeps_def refl)

lemma keeps_bind:
  assumes "keeps m" and "\<And>a. keeps (f a)"
  shows "keeps (go_bind m f)"
proof (rule keepsI)
  fix s
  show "wp E (go_bind m f) (\<lambda>_. R s) s"
    unfolding wp_bind by (rule keepsD [OF assms(1)]) (rule keeps_after [OF _ assms(2)])
qed

lemma keeps_seq: "keeps m \<Longrightarrow> keeps n \<Longrightarrow> keeps (go_seq m n)"
  unfolding go_seq_def by (rule keeps_bind)

lemma keeps_when: "(b \<Longrightarrow> keeps m) \<Longrightarrow> keeps (go_when b m)"
  by (simp add: go_when_def keeps_ret)

lemma keeps_if: "(b \<Longrightarrow> keeps m) \<Longrightarrow> (\<not> b \<Longrightarrow> keeps n) \<Longrightarrow> keeps (if b then m else n)"
  by simp

lemma keeps_option: "keeps m \<Longrightarrow> (\<And>a. keeps (f a)) \<Longrightarrow> keeps (case x of None \<Rightarrow> m | Some a \<Rightarrow> f a)"
  by (cases x) auto

lemma keeps_sum: "(\<And>a. keeps (f a)) \<Longrightarrow> (\<And>b. keeps (g b)) \<Longrightarrow> keeps (case x of Inl a \<Rightarrow> f a | Inr b \<Rightarrow> g b)"
  by (cases x) auto

lemma keeps_prod: "(\<And>a b. keeps (f a b)) \<Longrightarrow> keeps (case x of (a, b) \<Rightarrow> f a b)"
  by (cases x) auto

lemma keeps_for: "(\<And>x. keeps (f x)) \<Longrightarrow> keeps (go_for xs f)"
  by (induction xs) (auto intro: keeps_ret keeps_seq)

lemma keeps_pure: "(\<And>s. wp E m (\<lambda>_ t. t = s) s) \<Longrightarrow> keeps m"
  unfolding keeps_def by (auto intro: wp_mono refl)

lemmas keeps_compose = keeps_ret keeps_gets keeps_bind keeps_seq keeps_when keeps_if keeps_option keeps_sum
  keeps_prod keeps_for

end

section \<open>Executing the monad\<close>

text \<open>The defining equations, collected for evaluation at concrete states.\<close>

lemmas go_defs = go_ret_def go_panic_def go_bind_def go_seq_def go_gets_def go_modify_def
  go_when_def go_zoom_def Assert_def go_slice_def go_index_def go_make_def

section \<open>Lists\<close>

lemma length_copy_at [simp]: "i \<le> length dst \<Longrightarrow> length (copy_at i src dst) = length dst"
  by (auto simp: copy_at_def)

lemma take_copy_at [simp]: "k \<le> i \<Longrightarrow> i \<le> length dst \<Longrightarrow> take k (copy_at i src dst) = take k dst"
  by (simp add: copy_at_def min_def)

lemma take_length_add_append: "length xs = a \<Longrightarrow> take (a + k) (xs @ ys) = xs @ take k ys"
  by simp

lemma slice_copy_at:
  assumes "r \<le> i" and "i \<le> length dst" and "k = min (length src) (length dst - i)"
  shows "take (i - r + k) (drop r (copy_at i src dst)) = take (i - r) (drop r dst) @ take k src"
proof -
  have "drop r (copy_at i src dst) =
      take (i - r) (drop r dst) @ take (length dst - i) src @ drop (i + length src) dst"
    using assms by (simp add: copy_at_def drop_take)
  then have "take (i - r + k) (drop r (copy_at i src dst)) =
      take (i - r) (drop r dst) @ take k (take (length dst - i) src @ drop (i + length src) dst)"
    using assms by (simp only: take_length_add_append length_take length_drop min_def) simp
  then show ?thesis
    using assms by (simp add: min_def)
qed

lemma copy_all: "length src = length dst \<Longrightarrow> copy_at 0 src dst = src"
  by (simp add: copy_at_def)

lemma copy_tail: "length src + i = length dst \<Longrightarrow> copy_at i src dst = take i dst @ src"
  by (simp add: copy_at_def)

section \<open>Decimal numerals\<close>

lemma decimal_nonempty [simp]: "decimal n \<noteq> []" "0 < length (decimal n)"
  by (simp_all add: decimal.simps [of n])

lemma decimal_0: "decimal 0 = ''0''"
  by (simp add: decimal.simps [of 0] digit_def) code_simp

lemma length_decimal: "n < 10 ^ k \<Longrightarrow> 0 < k \<Longrightarrow> length (decimal n) \<le> k"
proof (induction n arbitrary: k rule: decimal.induct)
  case (1 n)
  show ?case
  proof (cases "n < 10")
    case True
    then show ?thesis
      using 1 by (simp add: decimal.simps [of n])
  next
    case False
    then obtain j where k: "k = Suc j" "0 < j"
      using 1(2,3) by (cases k; cases "k - 1") auto
    have "length (decimal (n div 10)) \<le> j"
      using 1 False k by (auto intro!: 1(1))
    then show ?thesis
      using False k by (simp add: decimal.simps [of n])
  qed
qed

text \<open>Reading a numeral back.\<close>

definition decimal_value :: "string \<Rightarrow> nat" where
  "decimal_value s = foldl (\<lambda>a c. 10 * a + (of_char c - 48)) 0 s"

lemma digit_value: "d < 10 \<Longrightarrow> of_char (digit d) - 48 = d"
  by (simp add: digit_def)

lemma decimal_value [simp]: "decimal_value (decimal n) = n"
proof (induction n rule: decimal.induct)
  case (1 n)
  then show ?case
    by (auto simp: decimal.simps [of n] decimal_value_def digit_value)
qed

lemma decimal_inj: "decimal n = decimal m \<longleftrightarrow> n = m"
  by (metis decimal_value)

lemma digit_not_minus: "d < 10 \<Longrightarrow> digit d \<noteq> CHR ''-''"
proof
  assume d: "d < 10" "digit d = CHR ''-''"
  have "of_char (digit d) = 48 + d"
    using d(1) by (simp add: digit_def)
  then show False
    unfolding d(2) by simp
qed

lemma hd_decimal: "hd (decimal n) \<noteq> CHR ''-''"
  by (induction n rule: decimal.induct) (auto simp: decimal.simps digit_not_minus hd_append)

lemma Itoa_inj: "Itoa i = Itoa j \<longleftrightarrow> i = j"
proof -
  have "''-'' @ xs \<noteq> decimal n" for xs n
    using hd_decimal [of n] by (metis append_Cons list.sel(1))
  then show ?thesis
    by (auto simp: Itoa_def decimal_inj split: if_splits) (metis append_Cons append_Nil)+
qed

end
