(* ===== verification/Buffer.thy ===== *)
theory Buffer
  imports Prelude
begin

text \<open>
  \<open>buffer.go\<close>: the growable byte buffer between the sockets and the users of a connection.
  Its abstract value is the byte sequence between the two indices (\<open>contents\<close>). The
  operations are methods that mutate the buffer, so they are written in the \<open>go\<close> monad with
  the buffer as state; indices are Go \<open>int\<close>s, which \<open>Advance\<close> and \<open>Reset\<close> may set to
  any value, and every slice expression is checked. Returned slices are modelled by their
  bytes at the time of the call.
\<close>

section \<open>State and operations\<close>

record buffer =
  buf :: "byte list"
  readIndex :: int
  writeIndex :: int

definition NewBuffer :: buffer where
  "NewBuffer = \<lparr>buf = replicate 1024 0, readIndex = 0, writeIndex = 0\<rparr>"

definition ReadableBytes :: "buffer \<Rightarrow> int" where
  "ReadableBytes b = writeIndex b - readIndex b"

definition WritableBytes :: "buffer \<Rightarrow> int" where
  "WritableBytes b = int (length (buf b)) - writeIndex b"

definition Capacity :: "buffer \<Rightarrow> int" where
  "Capacity b = int (length (buf b))"

definition Peek :: "(buffer, byte list) go" where
  "Peek b = go_slice (buf b) (readIndex b) (writeIndex b) b"

definition Advance :: "int \<Rightarrow> (buffer, unit) go" where
  "Advance n = go_modify (\<lambda>b. b\<lparr>readIndex := readIndex b + n\<rparr>)"

definition Reset :: "int \<Rightarrow> (buffer, unit) go" where
  "Reset n = go_modify (\<lambda>b. b\<lparr>readIndex := 0, writeIndex := n\<rparr>)"

definition Next :: "int \<Rightarrow> (buffer, byte list) go" where
  "Next n b =
     (if n < 0 \<or> n \<ge> ReadableBytes b
      then go_bind (go_slice (buf b) (readIndex b) (writeIndex b)) (\<lambda>ret.
           go_seq (Reset 0) (go_ret ret))
      else go_bind (go_slice (buf b) (readIndex b) (readIndex b + n)) (\<lambda>ret.
           go_seq (Advance n) (go_ret ret))) b"

text \<open>
  \<open>Read(buf)\<close> copies into the caller's slice: the model takes that slice and returns its
  new bytes with the count.
\<close>

definition Read :: "byte list \<Rightarrow> (buffer, byte list \<times> int) go" where
  "Read p b =
     go_bind (go_slice (buf b) (readIndex b) (writeIndex b)) (\<lambda>data.
     let n = int (min (length p) (length data)) in
     go_seq (Advance n) (go_ret (copy_at 0 data p, n))) b"

text \<open>\<open>bytes.Index\<close> of the standard library: the first position of \<open>s\<close>, or -1.\<close>

fun bytes_Index :: "'a list \<Rightarrow> 'a list \<Rightarrow> int" where
  "bytes_Index [] s = (if s = [] then 0 else -1)"
| "bytes_Index (x # xs) s =
     (if take (length s) (x # xs) = s then 0
      else (let k = bytes_Index xs s in if k < 0 then -1 else k + 1))"

definition Search :: "byte list \<Rightarrow> (buffer, int) go" where
  "Search s b =
     (if length s = 0 \<or> int (length s) > ReadableBytes b then go_ret (-1)
      else go_bind (go_slice (buf b) (readIndex b) (writeIndex b)) (\<lambda>data.
           go_ret (bytes_Index data s))) b"

definition makeSpace :: "int \<Rightarrow> (buffer, unit) go" where
  "makeSpace n b =
     (if WritableBytes b + ReadableBytes b < n
      then go_bind (go_make 0 n) (\<lambda>zs.
           go_modify (\<lambda>b. b\<lparr>buf := buf b @ zs\<rparr>))
      else go_bind (go_slice (buf b) (readIndex b) (writeIndex b)) (\<lambda>data.
           go_modify (\<lambda>b. b\<lparr>buf := copy_at 0 data (buf b),
                                 writeIndex := writeIndex b - readIndex b,
                                 readIndex := 0\<rparr>))) b"

definition ensureWritableBytes :: "int \<Rightarrow> (buffer, unit) go" where
  "ensureWritableBytes n b = go_when (WritableBytes b < n) (makeSpace n) b"

definition Write :: "byte list \<Rightarrow> (buffer, int) go" where
  "Write p =
     go_seq (ensureWritableBytes (int (length p))) (
     go_bind (\<lambda>b. go_slice (buf b) (writeIndex b) (int (length (buf b))) b) (\<lambda>dst.
     let n = int (min (length dst) (length p)) in
     go_seq (go_modify (\<lambda>b. b\<lparr>buf := copy_at (nat (writeIndex b)) p (buf b),
                              writeIndex := writeIndex b + n\<rparr>))
       (go_ret n)))"

definition Shrink :: "int \<Rightarrow> (buffer, unit) go" where
  "Shrink reserve b =
     go_bind (go_make 0 (ReadableBytes b + reserve)) (\<lambda>nb.
     go_bind Peek (\<lambda>data.
     go_modify (\<lambda>b. b\<lparr>buf := copy_at 0 data nb, readIndex := 0,
                      writeIndex := int (length data)\<rparr>))) b"

text \<open>
  \<open>ReadFd\<close> makes one \<open>unix.Readv\<close> into the free part of the buffer and a 64K array on the
  stack; its outcome is the parameter. The kernel scatters the data over the two slices in
  order. The slice expression \<open>b.buf[b.writeIndex:]\<close> is evaluated before the call.
\<close>

definition ReadFd :: "sysret \<Rightarrow> (buffer, int \<times> errno option) go" where
  "ReadFd r b =
     (let writable = WritableBytes b; n = ret_n r;
          extraBuf = copy_at 0 (drop (nat writable) (ret_data r)) (replicate 65536 0) in
      go_bind (go_slice (buf b) (writeIndex b) (int (length (buf b)))) (\<lambda>_.
      go_seq (go_modify (\<lambda>b. b\<lparr>buf := copy_at (nat (writeIndex b))
                                        (take (nat writable) (ret_data r)) (buf b)\<rparr>)) (
      case ret_err r of
        Some e \<Rightarrow> go_ret (n, Some e)
      | None \<Rightarrow>
          go_seq (if n \<le> writable
                  then go_modify (\<lambda>b. b\<lparr>writeIndex := writeIndex b + n\<rparr>)
                  else go_seq (go_modify (\<lambda>b. b\<lparr>writeIndex := int (length (buf b))\<rparr>))
                       (go_bind (go_slice extraBuf 0 (n - writable)) (\<lambda>p.
                        go_bind (Write p) (\<lambda>_. go_ret ()))))
            (go_ret (n, None))))) b"

section \<open>Invariant and abstraction\<close>

definition buffer_inv :: "buffer \<Rightarrow> bool" where
  "buffer_inv b \<longleftrightarrow>
     0 \<le> readIndex b \<and> readIndex b \<le> writeIndex b \<and> writeIndex b \<le> int (length (buf b))"

definition contents :: "buffer \<Rightarrow> byte list" where
  "contents b = take (nat (writeIndex b - readIndex b)) (drop (nat (readIndex b)) (buf b))"

text \<open>
  How many of \<open>n\<close> bytes \<open>Write\<close> has room for once \<open>ensureWritableBytes\<close> has run: the free
  tail; the tail grown by \<open>n\<close>; or everything but the unread bytes, after moving these to
  the front.
\<close>

definition write_room :: "buffer \<Rightarrow> nat \<Rightarrow> nat" where
  "write_room b n =
     (if int n \<le> WritableBytes b then nat (WritableBytes b)
      else if WritableBytes b + ReadableBytes b < int n then nat (WritableBytes b) + n
      else length (buf b) - nat (ReadableBytes b))"

definition accepted :: "buffer \<Rightarrow> nat \<Rightarrow> nat" where
  "accepted b n = min n (write_room b n)"

lemmas buffer_defs = buffer_inv_def contents_def ReadableBytes_def WritableBytes_def

lemma buffer_inv_NewBuffer [simp]: "buffer_inv NewBuffer"
  by (simp add: buffer_inv_def NewBuffer_def)

lemma contents_NewBuffer [simp]: "contents NewBuffer = []"
  by (simp add: contents_def NewBuffer_def)

lemma length_contents: "buffer_inv b \<Longrightarrow> int (length (contents b)) = ReadableBytes b"
  by (auto simp: buffer_defs)

lemma WritableBytes_nonneg: "buffer_inv b \<Longrightarrow> 0 \<le> WritableBytes b"
  by (simp add: buffer_defs)

text \<open>The states with the invariant, written with \<open>nat\<close> indices.\<close>

lemma buffer_invE:
  assumes "buffer_inv b"
  obtains xs r w where "b = \<lparr>buf = xs, readIndex = int r, writeIndex = int w\<rparr>"
    and "r \<le> w" and "w \<le> length xs" and "contents b = take (w - r) (drop r xs)"
proof -
  have "b = \<lparr>buf = buf b, readIndex = int (nat (readIndex b)),
      writeIndex = int (nat (writeIndex b))\<rparr>"
    using assms by (simp add: buffer_inv_def)
  moreover have "contents b = take (nat (writeIndex b) - nat (readIndex b))
      (drop (nat (readIndex b)) (buf b))"
    using assms by (simp add: contents_def nat_diff_distrib buffer_inv_def)
  ultimately show ?thesis
    using assms by (intro that) (auto simp: buffer_inv_def)
qed

lemma contents_nat [simp]:
  "contents \<lparr>buf = xs, readIndex = int r, writeIndex = int w\<rparr> = take (w - r) (drop r xs)"
  by (simp add: contents_def flip: of_nat_diff) (metis nat_int nat_minus_as_int)

lemma contents_nat0 [simp]:
  "contents \<lparr>buf = xs, readIndex = 0, writeIndex = int w\<rparr> = take w xs"
  by (simp add: contents_def)

section \<open>What each operation does\<close>

text \<open>Making room never touches the unread bytes.\<close>

lemma ensureWritableBytes_wp:
  assumes "buffer_inv b"
  shows "wp E (ensureWritableBytes (int n))
    (\<lambda>_ b'. buffer_inv b' \<and> contents b' = contents b \<and>
             WritableBytes b' = int (write_room b n)) b"
  using assms
proof (rule buffer_invE)
  fix xs r w
  assume b: "b = \<lparr>buf = xs, readIndex = int r, writeIndex = int w\<rparr>"
    and rw: "r \<le> w" "w \<le> length xs"
  have moved: "take (w - r) (copy_at 0 (take (w - r) (drop r xs)) xs) = take (w - r) (drop r xs)"
    using rw by (simp add: copy_at_def)
  show ?thesis
    using rw moved unfolding b
    by (auto simp: wp_def ensureWritableBytes_def makeSpace_def go_defs buffer_inv_def
        ReadableBytes_def WritableBytes_def write_room_def of_nat_diff
        simp flip: of_nat_diff)
qed

lemma Write_wp:
  assumes "buffer_inv b"
  shows "wp E (Write p)
    (\<lambda>n b'. n = int (accepted b (length p)) \<and> buffer_inv b' \<and>
             contents b' = contents b @ take (accepted b (length p)) p) b"
  unfolding Write_def wp_seq
proof (rule wp_mono [OF ensureWritableBytes_wp [OF assms, of _ "length p"]])
  fix u b1
  assume *: "buffer_inv b1 \<and> contents b1 = contents b \<and>
    WritableBytes b1 = int (write_room b (length p))"
  then obtain xs r w where b1: "b1 = \<lparr>buf = xs, readIndex = int r, writeIndex = int w\<rparr>"
    and rw: "r \<le> w" "w \<le> length xs"
    by (auto elim: buffer_invE)
  have k: "accepted b (length p) = min (length p) (length xs - w)"
    using * rw by (auto simp: b1 WritableBytes_def accepted_def)
  have app: "take (w - r + min (length p) (length xs - w)) (drop r (copy_at w p xs)) =
      take (w - r) (drop r xs) @ take (min (length p) (length xs - w)) p"
    using rw by (rule slice_copy_at) simp
  have c: "contents \<lparr>buf = copy_at w p xs, readIndex = int r,
      writeIndex = int w + int (min (length p) (length xs - w))\<rparr> =
      take (w - r) (drop r xs) @ take (min (length p) (length xs - w)) p"
    unfolding app [symmetric] using rw(1) by (simp flip: of_nat_add)
  show "wp E (go_bind (\<lambda>b. go_slice (buf b) (writeIndex b) (int (length (buf b))) b) (\<lambda>dst.
      let n = int (min (length dst) (length p)) in
      go_seq (go_modify (\<lambda>b. b\<lparr>buf := copy_at (nat (writeIndex b)) p (buf b),
        writeIndex := writeIndex b + n\<rparr>)) (go_ret n)))
      (\<lambda>n b'. n = int (accepted b (length p)) \<and> buffer_inv b' \<and>
        contents b' = contents b @ take (accepted b (length p)) p) b1"
    using * rw c unfolding k b1
    by (auto simp: wp_def go_defs Let_def buffer_inv_def min.commute simp flip: of_nat_diff)
qed auto

text \<open>The outcome of a write, as an equation.\<close>

lemma Write_result:
  assumes "buffer_inv b"
  shows "\<exists>b'. Write p b = Inr (int (accepted b (length p)), b') \<and> buffer_inv b' \<and>
    contents b' = contents b @ take (accepted b (length p)) p"
  using Write_wp [OF assms, of no_panic p] by (auto simp: wp_returns)

lemma Peek_result: "buffer_inv b \<Longrightarrow> Peek b = Inr (contents b, b)"
  by (simp add: Peek_def go_defs buffer_inv_def contents_def)

lemma Peek_wp [simp]: "buffer_inv b \<Longrightarrow> wp E Peek Q b = Q (contents b) b"
  by (simp add: wp_eq Peek_result)

lemma contents_Advance:
  assumes "buffer_inv b" and "0 \<le> n" and "n \<le> ReadableBytes b"
  shows "contents (b\<lparr>readIndex := readIndex b + n\<rparr>) = drop (nat n) (contents b)"
    and "buffer_inv (b\<lparr>readIndex := readIndex b + n\<rparr>)"
  using assms
  by (auto simp: buffer_defs drop_take nat_add_distrib add.commute nat_diff_distrib
      diff_diff_eq intro!: arg_cong2 [where f = take])

lemma Advance_wp:
  assumes "buffer_inv b" and "0 \<le> n" and "n \<le> ReadableBytes b"
  shows "wp E (Advance n) (\<lambda>_ b'. buffer_inv b' \<and> contents b' = drop (nat n) (contents b) \<and>
    buf b' = buf b \<and> writeIndex b' = writeIndex b) b"
  using contents_Advance [OF assms] by (simp add: Advance_def)

lemma Next_wp:
  assumes "buffer_inv b"
  shows "wp E (Next n) (\<lambda>bs b'. buffer_inv b' \<and> bs @ contents b' = contents b \<and>
    bs = (if n < 0 then contents b else take (nat n) (contents b))) b"
proof (cases "n < 0 \<or> n \<ge> ReadableBytes b")
  case True
  then show ?thesis
    using assms
    by (auto simp: wp_def Next_def Reset_def go_defs buffer_defs)
next
  case False
  then have n: "0 \<le> n" "n \<le> ReadableBytes b"
    by auto
  have "take (nat n) (drop (nat (readIndex b)) (buf b)) = take (nat n) (contents b)"
    using assms n by (simp add: buffer_defs min_def nat_le_eq_zle)
  moreover have "0 \<le> readIndex b" "readIndex b + n \<le> int (length (buf b))"
    using assms n by (auto simp: buffer_defs)
  ultimately have "Next n b =
      Inr (take (nat n) (contents b), b\<lparr>readIndex := readIndex b + n\<rparr>)"
    using n False by (simp add: Next_def Advance_def go_defs)
  then show ?thesis
    using n contents_Advance [OF assms n] by (simp add: wp_eq)
qed

lemma Read_wp:
  assumes "buffer_inv b"
  shows "wp E (Read p) (\<lambda>(q, n) b'. buffer_inv b' \<and>
    n = int (min (length p) (length (contents b))) \<and>
    q = take (nat n) (contents b) @ drop (nat n) p \<and>
    contents b' = drop (nat n) (contents b)) b"
proof -
  define n where "n = int (min (length p) (length (contents b)))"
  have n: "0 \<le> n" "n \<le> ReadableBytes b"
    using length_contents [OF assms] by (auto simp: n_def)
  have "copy_at 0 (contents b) p = take (nat n) (contents b) @ drop (nat n) p"
    by (auto simp: copy_at_def n_def min_def)
  moreover have "Read p b = Inr ((copy_at 0 (contents b) p, n), b\<lparr>readIndex := readIndex b + n\<rparr>)"
    using assms unfolding n_def
    by (simp add: Read_def Advance_def go_defs buffer_inv_def contents_def Let_def)
  ultimately show ?thesis
    using contents_Advance [OF assms n] by (simp add: wp_eq n_def)
qed

lemma contents_copied:
  assumes "length d \<le> length nb"
  shows "contents (b\<lparr>buf := copy_at 0 d nb, readIndex := 0, writeIndex := int (length d)\<rparr>) = d"
    and "buffer_inv (b\<lparr>buf := copy_at 0 d nb, readIndex := 0, writeIndex := int (length d)\<rparr>)"
  using assms by (simp_all add: contents_def buffer_inv_def copy_at_def)

lemma Shrink_wp:
  assumes "buffer_inv b" and "0 \<le> reserve"
  shows "wp E (Shrink reserve) (\<lambda>_ b'. buffer_inv b' \<and> contents b' = contents b \<and>
    Capacity b' = ReadableBytes b + reserve) b"
proof -
  define nb :: "byte list" where "nb = replicate (nat (ReadableBytes b + reserve)) 0"
  have len: "length (contents b) \<le> length nb" "0 \<le> ReadableBytes b"
    using assms(2) length_contents [OF assms(1)] by (auto simp: nb_def)
  have "Shrink reserve b = Inr ((), b\<lparr>buf := copy_at 0 (contents b) nb, readIndex := 0,
      writeIndex := int (length (contents b))\<rparr>)"
    using assms len(2) by (simp add: Shrink_def Peek_result go_defs nb_def)
  then show ?thesis
    using len assms(2) contents_copied [OF len(1)]
    by (simp add: wp_eq Capacity_def nb_def)
qed

subsection \<open>Searching\<close>

lemma bytes_Index_ge: "-1 \<le> bytes_Index xs s"
  by (induction xs s rule: bytes_Index.induct) (auto simp: Let_def)

lemma bytes_Index_found:
  "0 \<le> bytes_Index xs s \<Longrightarrow> take (length s) (drop (nat (bytes_Index xs s)) xs) = s"
  by (induction xs s rule: bytes_Index.induct)
    (auto simp: Let_def nat_add_distrib split: if_splits)

lemma bytes_Index_le: "0 \<le> bytes_Index xs s \<Longrightarrow> bytes_Index xs s + int (length s) \<le> int (length xs)"
  by (induction xs s rule: bytes_Index.induct)
    (auto simp: Let_def split: if_splits dest!: arg_cong [where f = length])

lemma bytes_Index_first:
  "i \<le> length xs \<Longrightarrow> take (length s) (drop i xs) = s \<Longrightarrow>
   0 \<le> bytes_Index xs s \<and> bytes_Index xs s \<le> int i"
proof (induction xs s arbitrary: i rule: bytes_Index.induct)
  case (1 s)
  then show ?case by simp
next
  case (2 x xs s)
  show ?case
  proof (cases i)
    case 0
    then show ?thesis using 2 by simp
  next
    case (Suc j)
    then show ?thesis
      using "2.IH" [of j] "2.prems"
      by (cases "take (length s) (x # xs) = s") (auto simp: Let_def)
  qed
qed

lemma Search_result:
  assumes "buffer_inv b"
  shows "Search s b = Inr (if s = [] then -1 else bytes_Index (contents b) s, b)"
proof (cases "int (length s) > ReadableBytes b")
  case True
  then have "bytes_Index (contents b) s < 0"
    using bytes_Index_le [of "contents b" s] length_contents [OF assms] by linarith
  then have "bytes_Index (contents b) s = -1"
    using bytes_Index_ge [of "contents b" s] by linarith
  then show ?thesis
    using True by (simp add: Search_def go_defs)
next
  case False
  then show ?thesis
    using assms by (simp add: Search_def go_defs buffer_inv_def contents_def)
qed

subsection \<open>Reading from a descriptor\<close>

text \<open>
  What \<open>unix.Readv\<close> promises when it succeeds: the count is the number of bytes it
  delivered, and it never delivers more than the two slices hold.
\<close>

definition readv_ok :: "buffer \<Rightarrow> sysret \<Rightarrow> bool" where
  "readv_ok b r \<longleftrightarrow> ret_err r = None \<and> ret_n r = int (length (ret_data r)) \<and>
     ret_n r \<le> WritableBytes b + 65536"

text \<open>How many of \<open>n\<close> delivered bytes end up in the buffer.\<close>

definition received :: "buffer \<Rightarrow> nat \<Rightarrow> nat" where
  "received b n =
     (let free = nat (WritableBytes b) in
      if n \<le> free then n
      else if length (buf b) - nat (readIndex b) < n - free then n
      else free + min (n - free) (nat (readIndex b)))"

lemma ReadFd_small:
  assumes "buffer_inv b" and "readv_ok b r" and "ret_n r \<le> WritableBytes b"
  shows "wp E (ReadFd r) (\<lambda>(n, e) b'. n = ret_n r \<and> e = None \<and> buffer_inv b' \<and>
    contents b' = contents b @ ret_data r) b"
  using assms(1)
proof (rule buffer_invE)
  fix xs i w
  assume b: "b = \<lparr>buf = xs, readIndex = int i, writeIndex = int w\<rparr>"
    and iw: "i \<le> w" "w \<le> length xs"
  have len: "length (ret_data r) \<le> length xs - w"
    using assms iw by (auto simp: readv_ok_def b WritableBytes_def)
  have "take (w - i + length (ret_data r)) (drop i (copy_at w (ret_data r) xs)) =
      take (w - i) (drop i xs) @ take (length (ret_data r)) (ret_data r)"
    using iw len by (intro slice_copy_at) auto
  then have "contents \<lparr>buf = copy_at w (ret_data r) xs, readIndex = int i,
      writeIndex = int w + int (length (ret_data r))\<rparr> = take (w - i) (drop i xs) @ ret_data r"
    using iw by (simp flip: of_nat_add)
  then show ?thesis
    using assms(2,3) iw len unfolding b
    by (auto simp: wp_def ReadFd_def go_defs Let_def readv_ok_def buffer_inv_def
        WritableBytes_def simp flip: of_nat_diff)
qed

lemma accepted_full:
  assumes "buffer_inv b" and "writeIndex b = int (length (buf b))" and "0 < m"
  shows "accepted b m =
    (if length (buf b) - nat (readIndex b) < m then m else min m (nat (readIndex b)))"
  using assms
  by (auto simp: accepted_def write_room_def buffer_defs nat_diff_distrib)

text \<open>
  When more arrives than the free tail holds: the tail is filled, and \<open>Write\<close> gets the rest.
\<close>

lemma ReadFd_spills:
  assumes "buffer_inv b" and "readv_ok b r" and "WritableBytes b < ret_n r"
  obtains full where "buffer_inv full"
    and "contents full = contents b @ take (nat (WritableBytes b)) (ret_data r)"
    and "readIndex full = readIndex b" and "length (buf full) = length (buf b)"
    and "writeIndex full = int (length (buf b))"
    and "ReadFd r b =
      go_seq (Write (drop (nat (WritableBytes b)) (ret_data r))) (go_ret (ret_n r, None)) full"
  using assms(1)
proof (rule buffer_invE)
  fix xs i w
  assume b: "b = \<lparr>buf = xs, readIndex = int i, writeIndex = int w\<rparr>"
    and iw: "i \<le> w" "w \<le> length xs"
  define free where "free = length xs - w"
  define front where "front = take free (ret_data r)"
  define rest where "rest = drop free (ret_data r)"
  define full where
    "full = \<lparr>buf = copy_at w front xs, readIndex = int i, writeIndex = int (length xs)\<rparr>"
  have len: "free < length (ret_data r)" "length (ret_data r) - free \<le> 65536"
    using assms iw by (auto simp: readv_ok_def b WritableBytes_def free_def)
  have fr: "length front = free" "length rest = length (ret_data r) - free"
    using len by (auto simp: front_def rest_def)
  have "take (w - i + free) (drop i (copy_at w front xs)) = take (w - i) (drop i xs) @ take free front"
    using iw fr by (intro slice_copy_at) (auto simp: free_def)
  then have full: "buffer_inv full" "contents full = take (w - i) (drop i xs) @ front"
    using iw fr by (auto simp: full_def buffer_inv_def free_def)
  have free: "nat (WritableBytes b) = free"
    using iw by (simp add: b WritableBytes_def free_def)
  have "take (length rest) (copy_at 0 rest (replicate 65536 0)) = rest"
    using len fr by (simp add: copy_at_def)
  moreover have "ret_n r - int free = int (length rest)" "\<not> ret_n r \<le> int free"
      "ret_err r = None"
    using assms(2) len fr by (auto simp: readv_ok_def)
  moreover have "nat (int (length rest)) \<le> 65536"
    using len fr by simp
  ultimately have "ReadFd r b = go_seq (Write rest) (go_ret (ret_n r, None)) full"
    using iw fr len unfolding b
    by (auto simp: ReadFd_def Let_def WritableBytes_def full_def front_def rest_def free_def
        go_defs split: sum.splits simp flip: of_nat_diff)
  moreover have "contents b = take (w - i) (drop i xs)"
    by (simp add: b)
  ultimately show thesis
    using full fr iw
    by (intro that [of full, unfolded free])
      (auto simp: b full_def front_def rest_def free_def min_def)
qed

lemma ReadFd_large:
  assumes "buffer_inv b" and "readv_ok b r" and "WritableBytes b < ret_n r"
  shows "wp E (ReadFd r) (\<lambda>(n, e) b'. n = ret_n r \<and> e = None \<and> buffer_inv b' \<and>
    contents b' = contents b @ take (received b (length (ret_data r))) (ret_data r)) b"
  using assms
proof (rule ReadFd_spills)
  fix full
  let ?t = "nat (WritableBytes b)"
  let ?rest = "drop ?t (ret_data r)"
  assume full: "buffer_inv full" "contents full = contents b @ take ?t (ret_data r)"
    "readIndex full = readIndex b" "length (buf full) = length (buf b)"
    "writeIndex full = int (length (buf b))"
    and R: "ReadFd r b = go_seq (Write ?rest) (go_ret (ret_n r, None)) full"
  have "?t + accepted full (length ?rest) = received b (length (ret_data r))"
    using accepted_full [OF full(1), of "length ?rest"] full(3-5) assms(2,3)
      WritableBytes_nonneg [OF assms(1)]
    by (auto simp: received_def Let_def readv_ok_def)
  then have "take (received b (length (ret_data r))) (ret_data r) =
      take ?t (ret_data r) @ take (accepted full (length ?rest)) ?rest"
    by (metis take_add)
  then have "wp E (go_seq (Write ?rest) (go_ret (ret_n r, None)))
      (\<lambda>(n, e) b'. n = ret_n r \<and> e = None \<and> buffer_inv b' \<and>
        contents b' = contents b @ take (received b (length (ret_data r))) (ret_data r)) full"
    using Write_wp [OF full(1), of E ?rest] full(2) by (auto elim!: wp_mono)
  then show ?thesis
    by (simp only: wp_def R)
qed

lemma ReadFd_wp:
  assumes "buffer_inv b" and "readv_ok b r"
  shows "wp E (ReadFd r) (\<lambda>(n, e) b'. n = ret_n r \<and> e = None \<and> buffer_inv b' \<and>
    contents b' = contents b @ take (received b (length (ret_data r))) (ret_data r)) b"
proof (cases "ret_n r \<le> WritableBytes b")
  case True
  then have "received b (length (ret_data r)) = length (ret_data r)"
    using assms by (auto simp: received_def readv_ok_def Let_def)
  then show ?thesis
    using ReadFd_small [OF assms True] by simp
next
  case False
  then show ?thesis
    using assms by (intro ReadFd_large) auto
qed

lemma ReadFd_error_wp:
  assumes "buffer_inv b" and "ret_err r = Some e"
  shows "wp E (ReadFd r) (\<lambda>(n, e') b'. n = ret_n r \<and> e' = Some e \<and> buffer_inv b' \<and>
    contents b' = contents b) b"
  using assms(1)
proof (rule buffer_invE)
  fix xs i w
  assume b: "b = \<lparr>buf = xs, readIndex = int i, writeIndex = int w\<rparr>"
    and iw: "i \<le> w" "w \<le> length xs"
  have "take (w - i) (drop i (copy_at w p xs)) = take (w - i) (drop i xs)" for p
    using iw by (simp add: copy_at_def drop_take min_def)
  then show ?thesis
    using assms(2) iw unfolding b
    by (auto simp: wp_def ReadFd_def go_defs Let_def buffer_inv_def WritableBytes_def)
qed

section \<open>The byte-stream contract\<close>

text \<open>
  What the connections rely on: a first-in first-out store of bytes that accepts a prefix of
  what is written (\<open>room\<close> bytes) and gives the bytes back in order.
\<close>

locale byte_stream =
  fixes content :: "'q \<Rightarrow> byte list"
    and invar :: "'q \<Rightarrow> bool"
    and room :: "'q \<Rightarrow> nat \<Rightarrow> nat"
    and put :: "byte list \<Rightarrow> ('q, int) go"
    and peek :: "('q, byte list) go"
    and advance :: "int \<Rightarrow> ('q, unit) go"
  assumes put_wp: "invar q \<Longrightarrow> wp no_panic (put p) (\<lambda>n q'. n = int (room q (length p)) \<and>
      invar q' \<and> content q' = content q @ take (room q (length p)) p) q"
    and peek_wp: "invar q \<Longrightarrow> wp no_panic peek (\<lambda>d q'. q' = q \<and> d = content q) q"
    and advance_wp: "invar q \<Longrightarrow> 0 \<le> n \<Longrightarrow> n \<le> int (length (content q)) \<Longrightarrow>
      wp no_panic (advance n) (\<lambda>_ q'. invar q' \<and> content q' = drop (nat n) (content q)) q"
    and room_le: "room q k \<le> k"
begin

text \<open>Taking \<open>n\<close> bytes off the front: what is handed out, then what is left.\<close>

lemma take_front:
  assumes "invar q" and "0 \<le> n" and "n \<le> int (length (content q))"
  shows "wp no_panic (go_bind peek (\<lambda>d. go_seq (advance n) (go_ret (take (nat n) d))))
    (\<lambda>d q'. invar q' \<and> d @ content q' = content q \<and> length d = nat n) q"
  unfolding wp_bind
proof (rule wp_mono [OF peek_wp [OF assms(1)]])
  fix d q'
  assume "q' = q \<and> d = content q"
  then show "wp no_panic (go_seq (advance n) (go_ret (take (nat n) d)))
      (\<lambda>d q'. invar q' \<and> d @ content q' = content q \<and> length d = nat n) q'"
    using advance_wp [OF assms] assms(2,3)
    by (auto elim!: wp_mono)
qed auto

text \<open>Bytes that were accepted come back unchanged and in order.\<close>

lemma put_then_take:
  assumes "invar q" and "room q (length p) = length p"
  shows "wp no_panic (go_seq (put p) (go_bind peek (\<lambda>d.
      go_seq (advance (int (length d))) (go_ret d)))) (\<lambda>d q'. invar q' \<and>
      d = content q @ p \<and> content q' = []) q"
  unfolding wp_seq
proof (rule wp_mono [OF put_wp [OF assms(1), of p]])
  fix n q1
  assume 1: "n = int (room q (length p)) \<and> invar q1 \<and>
    content q1 = content q @ take (room q (length p)) p"
  show "wp no_panic (go_bind peek (\<lambda>d. go_seq (advance (int (length d))) (go_ret d)))
      (\<lambda>d q'. invar q' \<and> d = content q @ p \<and> content q' = []) q1"
    unfolding wp_bind
  proof (rule wp_mono [OF peek_wp [of q1]])
    fix d q'
    assume "q' = q1 \<and> d = content q1"
    then show "wp no_panic (go_seq (advance (int (length d))) (go_ret d))
        (\<lambda>d q'. invar q' \<and> d = content q @ p \<and> content q' = []) q'"
      using 1 assms(2) advance_wp [of q1 "int (length (content q1))"]
      by (auto elim!: wp_mono)
  qed (use 1 in auto)
qed auto

end

interpretation bs: byte_stream contents buffer_inv accepted Write Peek Advance
proof unfold_locales
  fix q p
  assume "buffer_inv q"
  then show "wp no_panic (Write p) (\<lambda>n q'. n = int (accepted q (length p)) \<and> buffer_inv q' \<and>
      contents q' = contents q @ take (accepted q (length p)) p) q"
    by (rule Write_wp)
next
  fix q n
  assume "buffer_inv q" "0 \<le> n" "n \<le> int (length (contents q))"
  then show "wp no_panic (Advance n) (\<lambda>_ q'. buffer_inv q' \<and> contents q' = drop (nat n) (contents q)) q"
    using Advance_wp [of q n no_panic] by (auto simp: length_contents elim: wp_mono)
qed (auto simp: accepted_def)

section \<open>The byte queue a buffer implements\<close>

text \<open>
  The reference: a queue of bytes together with the space in front of them, which reading has
  freed, and the space behind them. It has no array and no indices.
\<close>

record byte_queue =
  bq_bytes :: "byte list"
  bq_front :: nat
  bq_tail :: nat

definition queue_of :: "buffer \<Rightarrow> byte_queue" where
  "queue_of b = \<lparr>bq_bytes = contents b, bq_front = nat (readIndex b), bq_tail = nat (WritableBytes b)\<rparr>"

definition bq_emptied :: "byte_queue \<Rightarrow> byte_queue" where
  "bq_emptied q = \<lparr>bq_bytes = [], bq_front = 0, bq_tail = bq_front q + length (bq_bytes q) + bq_tail q\<rparr>"

definition bq_taken :: "nat \<Rightarrow> byte_queue \<Rightarrow> byte_queue" where
  "bq_taken n q = q\<lparr>bq_bytes := drop n (bq_bytes q), bq_front := bq_front q + n\<rparr>"

text \<open>
  Putting bytes in, with how many are kept: all, if they fit behind or if there are more of them
  than unread bytes and space behind together; else as many as fit once the front is used too.
\<close>

definition bq_put :: "byte list \<Rightarrow> byte_queue \<Rightarrow> nat \<times> byte_queue" where
  "bq_put p q =
     (if length p \<le> bq_tail q then (length p, q\<lparr>bq_bytes := bq_bytes q @ p, bq_tail := bq_tail q - length p\<rparr>)
      else if bq_tail q + length (bq_bytes q) < length p then (length p, q\<lparr>bq_bytes := bq_bytes q @ p\<rparr>)
      else let k = min (length p) (bq_front q + bq_tail q) in
        (k, \<lparr>bq_bytes = bq_bytes q @ take k p, bq_front = 0, bq_tail = bq_front q + bq_tail q - k\<rparr>))"

text \<open>
  The calls a user can make on a buffer. A call returns the bytes it hands out and a count; the
  bytes dropped by \<open>Advance\<close> and \<open>Reset\<close> count as handed out, since their callers \<open>Peek\<close> first.
\<close>

datatype bufop = OpWrite "byte list" | OpNext int | OpRead nat | OpAdvance int | OpReset
  | OpShrink int | OpReadFd sysret

fun bufop_step :: "bufop \<Rightarrow> (buffer, byte list \<times> int) go" where
  "bufop_step (OpWrite p) = go_bind (Write p) (\<lambda>n. go_ret ([], n))"
| "bufop_step (OpNext n) = go_bind (Next n) (\<lambda>bs. go_ret (bs, 0))"
| "bufop_step (OpRead k) = go_bind (Read (replicate k 0)) (\<lambda>(q, n). go_ret (take (nat n) q, n))"
| "bufop_step (OpAdvance n) = go_bind Peek (\<lambda>d. go_seq (Advance n) (go_ret (take (nat n) d, 0)))"
| "bufop_step OpReset = go_bind Peek (\<lambda>d. go_seq (Reset 0) (go_ret (d, 0)))"
| "bufop_step (OpShrink n) = go_seq (Shrink n) (go_ret ([], 0))"
| "bufop_step (OpReadFd r) = go_bind (ReadFd r) (\<lambda>(n, e). go_ret ([], n))"

text \<open>The same calls on the reference: the result, the bytes that are kept, the new queue.\<close>

fun bq_step :: "bufop \<Rightarrow> byte_queue \<Rightarrow> (byte list \<times> int) \<times> byte list \<times> byte_queue" where
  "bq_step (OpWrite p) q = (let (k, q') = bq_put p q in (([], int k), take k p, q'))"
| "bq_step (OpNext n) q =
     (if n < 0 \<or> n \<ge> int (length (bq_bytes q)) then ((bq_bytes q, 0), [], bq_emptied q)
      else ((take (nat n) (bq_bytes q), 0), [], bq_taken (nat n) q))"
| "bq_step (OpRead k) q = (let n = min k (length (bq_bytes q)) in ((take n (bq_bytes q), int n), [], bq_taken n q))"
| "bq_step (OpAdvance n) q = ((take (nat n) (bq_bytes q), 0), [], bq_taken (nat n) q)"
| "bq_step OpReset q = ((bq_bytes q, 0), [], bq_emptied q)"
| "bq_step (OpShrink n) q = (([], 0), [], \<lparr>bq_bytes = bq_bytes q, bq_front = 0, bq_tail = nat n\<rparr>)"
| "bq_step (OpReadFd r) q =
     (if ret_err r \<noteq> None then (([], ret_n r), [], q)
      else let d = ret_data r; t = bq_tail q in
        if length d \<le> t then (([], ret_n r), d, q\<lparr>bq_bytes := bq_bytes q @ d, bq_tail := t - length d\<rparr>)
        else let (k, q') = bq_put (drop t d) (q\<lparr>bq_bytes := bq_bytes q @ take t d, bq_tail := 0\<rparr>) in
          (([], ret_n r), take (t + k) d, q'))"

text \<open>
  Arguments in range: \<open>Advance\<close> within the readable bytes, \<open>Shrink\<close> with a count that is not
  negative, and \<open>readv\<close> delivering as many bytes as it says and no more than there is space.
\<close>

definition bq_ok :: "bufop \<Rightarrow> byte_queue \<Rightarrow> bool" where
  "bq_ok op q = (case op of
       OpAdvance n \<Rightarrow> 0 \<le> n \<and> n \<le> int (length (bq_bytes q))
     | OpShrink n \<Rightarrow> 0 \<le> n
     | OpReadFd r \<Rightarrow> ret_err r \<noteq> None \<or> ret_n r = int (length (ret_data r)) \<and> length (ret_data r) \<le> bq_tail q + 65536
     | _ \<Rightarrow> True)"


text \<open>What \<open>Write\<close> does to the indices.\<close>

lemma Write_shape:
  assumes "buffer_inv b"
  shows "wp no_panic (Write p) (\<lambda>_ b'.
    (let moved = WritableBytes b < int (length p) \<and> int (length p) \<le> WritableBytes b + ReadableBytes b;
         grown = WritableBytes b + ReadableBytes b < int (length p) in
     readIndex b' = (if moved then 0 else readIndex b) \<and>
     length (buf b') = length (buf b) + (if grown then length p else 0))) b"
  using assms
proof (rule buffer_invE)
  fix xs r w
  assume b: "b = \<lparr>buf = xs, readIndex = int r, writeIndex = int w\<rparr>"
    and rw: "r \<le> w" "w \<le> length xs"
  show ?thesis
    using rw unfolding b
    by (auto simp: wp_def Write_def ensureWritableBytes_def makeSpace_def go_defs ReadableBytes_def
        WritableBytes_def Let_def simp flip: of_nat_diff)
qed

lemma queue_of_eqI:
  assumes "buffer_inv b" and "contents b = bq_bytes q" and "readIndex b = int (bq_front q)"
    and "length (buf b) = bq_front q + length (bq_bytes q) + bq_tail q"
  shows "queue_of b = q"
  using assms length_contents [OF assms(1)]
  by (simp add: queue_of_def WritableBytes_def ReadableBytes_def)

lemma queue_of_size:
  "buffer_inv b \<Longrightarrow> length (buf b) = nat (readIndex b) + length (contents b) + nat (WritableBytes b)"
  using length_contents [of b] by (auto simp: buffer_inv_def WritableBytes_def ReadableBytes_def)

lemma Write_queue:
  assumes "buffer_inv b"
  shows "\<exists>b'. Write p b = Inr (int (fst (bq_put p (queue_of b))), b') \<and> buffer_inv b' \<and>
    queue_of b' = snd (bq_put p (queue_of b))"
proof -
  obtain b' where b': "Write p b = Inr (int (accepted b (length p)), b')" "buffer_inv b'"
    "contents b' = contents b @ take (accepted b (length p)) p"
    using Write_result [OF assms, of p] by auto
  define q where "q = queue_of b"
  have q: "ReadableBytes b = int (length (bq_bytes q))" "WritableBytes b = int (bq_tail q)"
    "readIndex b = int (bq_front q)" "contents b = bq_bytes q"
    "length (buf b) = bq_front q + length (bq_bytes q) + bq_tail q"
    using assms length_contents [OF assms] WritableBytes_nonneg [OF assms] queue_of_size [OF assms]
    by (auto simp: q_def queue_of_def buffer_inv_def)
  have k: "accepted b (length p) = fst (bq_put p q)"
    by (simp add: accepted_def write_room_def bq_put_def q Let_def)
  note shape = wp_result [OF b'(1) Write_shape [OF assms, of p], unfolded q Let_def]
  have "queue_of b' = snd (bq_put p q)"
    using shape b'(3)
    unfolding k q
    by (intro queue_of_eqI [OF b'(2)]) (auto simp: bq_put_def Let_def)
  then show ?thesis
    using b' k by (auto simp: q_def)
qed

lemma queue_of_simps:
  "bq_bytes (queue_of b) = contents b" "bq_front (queue_of b) = nat (readIndex b)"
  "bq_tail (queue_of b) = nat (WritableBytes b)"
  by (simp_all add: queue_of_def)

lemma ReadFd_small_shape:
  assumes "buffer_inv b" and "ret_n r \<le> WritableBytes b \<or> ret_err r \<noteq> None"
  shows "wp any_panic (ReadFd r) (\<lambda>_ b'. readIndex b' = readIndex b \<and>
    length (buf b') = length (buf b) \<and> (ret_err r \<noteq> None \<longrightarrow> writeIndex b' = writeIndex b)) b"
  using assms
  by (cases "ret_err r") (auto simp: wp_def ReadFd_def go_defs Let_def buffer_inv_def)

lemma ReadFd_queue:
  assumes "buffer_inv b" and "bq_ok (OpReadFd r) (queue_of b)"
  shows "\<exists>e kept b'. ReadFd r b = Inr ((ret_n r, e), b') \<and> buffer_inv b' \<and>
    bq_step (OpReadFd r) (queue_of b) = (([], ret_n r), kept, queue_of b') \<and>
    contents b' = contents b @ kept"
proof -
  note size = queue_of_size [OF assms(1)] WritableBytes_nonneg [OF assms(1)]
  have r0: "0 \<le> readIndex b"
    using assms(1) by (simp add: buffer_inv_def)
  have ok: "ret_err r \<noteq> None \<or> readv_ok b r"
    using assms(2) size by (auto simp: bq_ok_def readv_ok_def queue_of_simps)
  consider (err) e where "ret_err r = Some e"
    | (small) "readv_ok b r" "ret_n r \<le> WritableBytes b"
    | (large) "readv_ok b r" "WritableBytes b < ret_n r"
    using ok by fastforce
  then show ?thesis
  proof cases
    case err
    then obtain b' where b': "ReadFd r b = Inr ((ret_n r, Some e), b')" "buffer_inv b'"
      "contents b' = contents b"
      using ReadFd_error_wp [OF assms(1), of r e no_panic] by (auto simp: wp_returns)
    have "queue_of b' = queue_of b"
      using wp_result [OF b'(1) ReadFd_small_shape [OF assms(1)]] err b'(3)
      by (simp add: queue_of_def WritableBytes_def)
    then show ?thesis
      using b' err by simp
  next
    case small
    then obtain b' where b': "ReadFd r b = Inr ((ret_n r, None), b')" "buffer_inv b'"
      "contents b' = contents b @ ret_data r"
      using ReadFd_small [OF assms(1), of r no_panic] by (auto simp: wp_returns)
    have "queue_of b' = (queue_of b)\<lparr>bq_bytes := contents b @ ret_data r,
        bq_tail := nat (WritableBytes b) - length (ret_data r)\<rparr>"
      using wp_result [OF b'(1) ReadFd_small_shape [OF assms(1)]] small b'(3) size r0
      by (intro queue_of_eqI [OF b'(2)]) (auto simp: queue_of_simps readv_ok_def)
    then show ?thesis
      using b' small by (auto simp: readv_ok_def queue_of_simps Let_def)
  next
    case large
    then show ?thesis
    proof (rule ReadFd_spills [OF assms(1)])
      fix full
      let ?d = "ret_data r" and ?t = "nat (WritableBytes b)"
      assume full: "buffer_inv full" "contents full = contents b @ take ?t ?d"
        "readIndex full = readIndex b" "length (buf full) = length (buf b)"
        "writeIndex full = int (length (buf b))"
        and R: "ReadFd r b = go_seq (Write (drop ?t ?d)) (go_ret (ret_n r, None)) full"
      have q: "queue_of full = (queue_of b)\<lparr>bq_bytes := contents b @ take ?t ?d, bq_tail := 0\<rparr>"
        using full by (simp add: queue_of_def WritableBytes_def)
      obtain k q' where put: "bq_put (drop ?t ?d) (queue_of full) = (k, q')"
        by fastforce
      then obtain b' where b': "Write (drop ?t ?d) full = Inr (int k, b')" "buffer_inv b'"
        "queue_of b' = q'"
        using Write_queue [OF full(1), of "drop ?t ?d"] by auto
      then have "contents b' = contents full @ take k (drop ?t ?d)"
        using Write_result [OF full(1), of "drop ?t ?d"] by auto
      moreover have "\<not> length ?d \<le> ?t"
        using large size by (auto simp: readv_ok_def)
      ultimately show ?thesis
        using b' large put R full(2) q
        by (auto simp: readv_ok_def queue_of_simps Let_def go_defs take_add)
    qed
  qed
qed

lemma queue_of_taken:
  assumes "buffer_inv b" and "n \<le> length (contents b)"
  shows "buffer_inv (b\<lparr>readIndex := readIndex b + int n\<rparr>)"
    and "queue_of (b\<lparr>readIndex := readIndex b + int n\<rparr>) = bq_taken n (queue_of b)"
    and "contents (b\<lparr>readIndex := readIndex b + int n\<rparr>) = drop n (contents b)"
proof -
  have n: "0 \<le> int n" "int n \<le> ReadableBytes b"
    using assms(2) length_contents [OF assms(1)] by auto
  show "buffer_inv (b\<lparr>readIndex := readIndex b + int n\<rparr>)"
    "contents (b\<lparr>readIndex := readIndex b + int n\<rparr>) = drop n (contents b)"
    using contents_Advance [OF assms(1) n] by simp_all
  then show "queue_of (b\<lparr>readIndex := readIndex b + int n\<rparr>) = bq_taken n (queue_of b)"
    using assms(1) by (simp add: queue_of_def bq_taken_def WritableBytes_def buffer_inv_def nat_add_distrib)
qed

lemma queue_of_emptied:
  assumes "buffer_inv b"
  shows "buffer_inv (b\<lparr>readIndex := 0, writeIndex := 0\<rparr>)"
    and "queue_of (b\<lparr>readIndex := 0, writeIndex := 0\<rparr>) = bq_emptied (queue_of b)"
    and "contents (b\<lparr>readIndex := 0, writeIndex := 0\<rparr>) = []"
  using queue_of_size [OF assms]
  by (simp_all add: buffer_inv_def contents_def queue_of_def bq_emptied_def WritableBytes_def)

lemma Next_queue:
  assumes "buffer_inv b"
  shows "Next n b = Inr (if n < 0 \<or> n \<ge> int (length (contents b))
      then (contents b, b\<lparr>readIndex := 0, writeIndex := 0\<rparr>)
      else (take (nat n) (contents b), b\<lparr>readIndex := readIndex b + n\<rparr>))"
  using assms length_contents [OF assms]
  by (auto simp: Next_def Reset_def Advance_def go_defs buffer_defs min_def)

lemma Shrink_queue:
  assumes "buffer_inv b" and "0 \<le> n"
  shows "\<exists>b'. Shrink n b = Inr ((), b') \<and> buffer_inv b' \<and> contents b' = contents b \<and>
    queue_of b' = \<lparr>bq_bytes = contents b, bq_front = 0, bq_tail = nat n\<rparr>"
proof -
  define nb :: "byte list" where "nb = replicate (nat (ReadableBytes b + n)) 0"
  define b' where "b' = b\<lparr>buf := copy_at 0 (contents b) nb, readIndex := 0,
      writeIndex := int (length (contents b))\<rparr>"
  have len: "length (contents b) \<le> length nb" "0 \<le> ReadableBytes b"
    using assms(2) length_contents [OF assms(1)] by (auto simp: nb_def)
  have "Shrink n b = Inr ((), b')"
    using assms len(2) by (simp add: Shrink_def Peek_result go_defs nb_def b'_def)
  then show ?thesis
    using len(1) assms(2) contents_copied [OF len(1), of b] length_contents [OF assms(1)]
    by (auto simp: queue_of_def WritableBytes_def nb_def b'_def simp del: of_nat_diff)
qed

lemma bufop_step_queue:
  assumes "buffer_inv b" and "bq_ok op (queue_of b)"
  shows "\<exists>r kept b'. bufop_step op b = Inr (r, b') \<and> buffer_inv b' \<and>
    bq_step op (queue_of b) = (r, kept, queue_of b') \<and> fst r @ contents b' = contents b @ kept"
proof (cases op)
  case (OpWrite p)
  then show ?thesis
    using Write_queue [OF assms(1), of p] Write_result [OF assms(1), of p]
    by (auto simp: go_defs Let_def split: prod.splits)
next
  case (OpNext n)
  then show ?thesis
    using Next_queue [OF assms(1), of n] queue_of_emptied [OF assms(1)]
      queue_of_taken [OF assms(1), of "nat n"]
    by (auto simp: go_defs queue_of_simps)
next
  case (OpRead k)
  then show ?thesis
    using assms(1) queue_of_taken [OF assms(1), of "min k (length (contents b))"]
    by (auto simp: go_defs queue_of_simps Let_def Read_def Advance_def buffer_inv_def copy_at_def
        simp flip: contents_def)
next
  case (OpAdvance n)
  then show ?thesis
    using assms Peek_result [OF assms(1)] queue_of_taken [OF assms(1), of "nat n"]
    by (auto simp: go_defs queue_of_simps Advance_def bq_ok_def)
next
  case OpReset
  then show ?thesis
    using assms Peek_result [OF assms(1)] queue_of_emptied [OF assms(1)]
    by (auto simp: go_defs queue_of_simps Reset_def)
next
  case (OpShrink n)
  then show ?thesis
    using Shrink_queue [OF assms(1), of n] assms(2)
    by (auto simp: go_defs queue_of_simps bq_ok_def)
next
  case (OpReadFd r)
  then show ?thesis
    using ReadFd_queue [OF assms(1), of r] assms(2) by (fastforce simp: go_defs)
qed

fun run_bufops :: "bufop list \<Rightarrow> (buffer, (byte list \<times> int) list) go" where
  "run_bufops [] = go_ret []"
| "run_bufops (op # ops) =
     go_bind (bufop_step op) (\<lambda>r. go_bind (run_bufops ops) (\<lambda>rs. go_ret (r # rs)))"

fun bq_run :: "bufop list \<Rightarrow> byte_queue \<Rightarrow> (byte list \<times> int) list \<times> byte list \<times> byte_queue" where
  "bq_run [] q = ([], [], q)"
| "bq_run (op # ops) q =
     (let (r, kept, q1) = bq_step op q; (rs, kepts, q2) = bq_run ops q1 in (r # rs, kept @ kepts, q2))"

fun bq_oks :: "bufop list \<Rightarrow> byte_queue \<Rightarrow> bool" where
  "bq_oks [] q = True"
| "bq_oks (op # ops) q = (bq_ok op q \<and> bq_oks ops (snd (snd (bq_step op q))))"

lemma run_bufops_queue:
  "buffer_inv b \<Longrightarrow> bq_oks ops (queue_of b) \<Longrightarrow> \<exists>rs kept b'. run_bufops ops b = Inr (rs, b') \<and>
    buffer_inv b' \<and> bq_run ops (queue_of b) = (rs, kept, queue_of b') \<and>
    concat (map fst rs) @ contents b' = contents b @ kept"
proof (induction ops arbitrary: b)
  case (Cons op ops)
  then obtain r kept b1 where 1: "bufop_step op b = Inr (r, b1)" "buffer_inv b1"
    "bq_step op (queue_of b) = (r, kept, queue_of b1)" "fst r @ contents b1 = contents b @ kept"
    using bufop_step_queue [of b op] by auto
  then obtain rs kepts b2 where 2: "run_bufops ops b1 = Inr (rs, b2)" "buffer_inv b2"
    "bq_run ops (queue_of b1) = (rs, kepts, queue_of b2)"
    "concat (map fst rs) @ contents b2 = contents b1 @ kepts"
    using Cons by fastforce
  have "fst r @ concat (map fst rs) @ contents b2 = contents b @ kept @ kepts"
    using 1(4) 2(4) by (metis append.assoc)
  then show ?case
    using 1 2 by (auto simp: go_defs)
qed (simp add: go_defs)

section \<open>Properties\<close>

text \<open>The reference of a new buffer.\<close>

definition new_queue :: byte_queue where
  "new_queue = \<lparr>bq_bytes = [], bq_front = 0, bq_tail = 1024\<rparr>"

lemma queue_of_NewBuffer: "queue_of NewBuffer = new_queue"
  by (simp add: queue_of_def new_queue_def WritableBytes_def) (simp add: NewBuffer_def)



text \<open>
  \<open>Write\<close> appends a prefix of its argument and returns the length of that prefix; the
  prefix is the whole argument exactly when the free tail is large enough, when the buffer is
  grown, or when moving the unread bytes to the front frees enough space.
\<close>

theorem Write_exact:
  assumes "buffer_inv b"
  shows "(\<exists>b'. Write p b = Inr (int (accepted b (length p)), b') \<and> buffer_inv b' \<and>
      contents b' = contents b @ take (accepted b (length p)) p) \<and>
    (accepted b (length p) = length p \<longleftrightarrow>
      int (length p) \<le> WritableBytes b \<or> WritableBytes b + ReadableBytes b < int (length p) \<or>
      int (length p) \<le> WritableBytes b + readIndex b)"
  using Write_result [OF assms, of p] assms
  by (auto simp: accepted_def write_room_def buffer_defs nat_diff_distrib)

theorem Write_exact_witness:
  "\<exists>b'. Write [7, 8] NewBuffer = Inr (2, b') \<and> buffer_inv b' \<and> contents b' = [7, 8]"
  using Write_exact [OF buffer_inv_NewBuffer, of "[7, 8]"]
  by (auto simp: WritableBytes_def NewBuffer_def contents_def)

text \<open>
  C38: the condition of \<open>makeSpace\<close> counts unread bytes as usable space, so a write can be cut
  short: if nothing has been read yet and the data is larger than the free tail but not larger
  than the whole buffer, only the free tail is filled and the rest of the data is dropped.
\<close>

theorem Write_truncates:
  assumes "buffer_inv b" and "readIndex b = 0"
    and "WritableBytes b < int (length p)" and "int (length p) \<le> Capacity b"
  shows "\<exists>b'. Write p b = Inr (WritableBytes b, b') \<and>
    contents b' = contents b @ take (nat (WritableBytes b)) p \<and> WritableBytes b < int (length p)"
proof -
  have "accepted b (length p) = nat (WritableBytes b)"
    using assms by (auto simp: accepted_def write_room_def buffer_defs Capacity_def)
  then show ?thesis
    using Write_result [OF assms(1), of p] assms(3) WritableBytes_nonneg [OF assms(1)] by auto
qed

theorem Write_truncates_witness:
  "\<exists>b'. Write [1, 2] \<lparr>buf = [9, 0], readIndex = 0, writeIndex = 1\<rparr> = Inr (1, b') \<and>
    contents b' = [9, 1]"
  using Write_truncates [of "\<lparr>buf = [9, 0], readIndex = 0, writeIndex = 1\<rparr>" "[1, 2]"]
  by (simp add: buffer_defs Capacity_def)

text \<open>
  C37: \<open>ReadFd\<close> reports the number of bytes the kernel delivered and appends a prefix of them;
  a first read of between 1025 and 2048 bytes into a new buffer keeps only the first 1024,
  although the 64K spill buffer received the rest.
\<close>

theorem ReadFd_exact:
  assumes "buffer_inv b" and "readv_ok b r"
  shows "(\<exists>b'. ReadFd r b = Inr ((ret_n r, None), b') \<and> buffer_inv b' \<and>
      contents b' = contents b @ take (received b (length (ret_data r))) (ret_data r)) \<and>
    (b = NewBuffer \<and> 1024 < ret_n r \<and> ret_n r \<le> 2048 \<longrightarrow>
      received b (length (ret_data r)) = 1024)"
  using ReadFd_wp [OF assms, of no_panic] assms
  by (auto simp: wp_returns received_def NewBuffer_def WritableBytes_def readv_ok_def)

theorem ReadFd_exact_witness:
  "\<exists>b'. ReadFd \<lparr>ret_n = 2, ret_err = None, ret_data = [5, 6], ret_events = [], ret_addr = None\<rparr> NewBuffer = Inr ((2, None), b') \<and>
     buffer_inv b' \<and> contents b' = [5, 6]"
  using ReadFd_exact [of NewBuffer "\<lparr>ret_n = 2, ret_err = None, ret_data = [5, 6], ret_events = [], ret_addr = None\<rparr>"]
  by (simp add: readv_ok_def received_def NewBuffer_def WritableBytes_def buffer_inv_def
      contents_def)

text \<open>
  \<open>Search\<close> finds the first occurrence: a non-negative result is a position where the
  pattern stands, no earlier position has it, and -1 means it occurs nowhere.
\<close>

theorem Search_first_occurrence:
  assumes "buffer_inv b" and "s \<noteq> []"
  shows "\<exists>k. Search s b = Inr (k, b) \<and>
    (if k < 0 then \<forall>i. take (length s) (drop i (contents b)) \<noteq> s
     else take (length s) (drop (nat k) (contents b)) = s \<and>
          (\<forall>i < nat k. take (length s) (drop i (contents b)) \<noteq> s))"
proof -
  have none: "i \<le> length (contents b)" if "take (length s) (drop i (contents b)) = s" for i
    using that assms(2) by (cases "i \<le> length (contents b)") auto
  show ?thesis
    using assms Search_result [OF assms(1), of s] bytes_Index_found [of "contents b" s]
      bytes_Index_first [of _ "contents b" s] none
    by (fastforce simp: not_less)
qed

definition search_example :: buffer where
  "search_example = \<lparr>buf = [1, 2, 2], readIndex = 0, writeIndex = 3\<rparr>"

theorem Search_first_occurrence_witness:
  "\<exists>k. Search [2] search_example = Inr (k, search_example) \<and>
    (if k < 0 then \<forall>i. take (length [2 :: byte]) (drop i (contents search_example)) \<noteq> [2]
     else take (length [2 :: byte]) (drop (nat k) (contents search_example)) = [2] \<and>
       (\<forall>i < nat k. take (length [2 :: byte]) (drop i (contents search_example)) \<noteq> [2]))"
  by (rule Search_first_occurrence) (simp_all add: buffer_inv_def search_example_def)

end
