(* ===== verification/World.thy ===== *)
theory World
  imports Buffer
begin

text \<open>
  The objects of the running program and the store that holds them. Every Go struct is a
  record; a pointer is a number into the store of its type. Function values are the values of
  small datatypes, one per Go function type, with a constructor for every method value and
  closure that the code stores; functions of the user are numbered. The operating system is
  the field \<open>env\<close>: the outcome of each call of \<open>golang.org/x/sys/unix\<close> and of \<open>time.Now\<close>, as
  a function of the calls made so far (\<open>trace\<close>). No operation writes \<open>env\<close>; the theorems hold
  for every \<open>env\<close>, or name what they ask of it.
\<close>

section \<open>Pointers, times, function values\<close>

type_synonym loop_ptr = nat
type_synonym chan_ptr = nat
type_synonym timer_ptr = nat
type_synonym conn_ptr = nat
type_synonym acceptor_ptr = nat
type_synonym server_ptr = nat
type_synonym connector_ptr = nat
type_synonym client_ptr = nat

text \<open>\<open>time.Time\<close> in nanoseconds since the Unix epoch, \<open>time.Duration\<close> in nanoseconds.\<close>

type_synonym time = int
type_synonym duration = int

text \<open>\<open>TimeoutCallback\<close>: \<open>func()\<close> run by the timer queue.\<close>

datatype timeoutCallback =
    ToUser nat
  | ToConnectorStart connector_ptr  \<comment> \<open>\<open>c.start\<close>\<close>
  | ToNothing                       \<comment> \<open>the empty closure of \<open>TcpClient.Destroy\<close>\<close>

text \<open>\<open>ReadCallback\<close>: \<open>func(ts time.Time)\<close>.\<close>

datatype readCallback =
    RcWakeup loop_ptr      \<comment> \<open>\<open>el.handleRead\<close>\<close>
  | RcTimerQueue loop_ptr  \<comment> \<open>\<open>tq.handleRead\<close>\<close>
  | RcConn conn_ptr        \<comment> \<open>\<open>conn.handleRead\<close>\<close>
  | RcAcceptor acceptor_ptr  \<comment> \<open>\<open>a.handleRead\<close>\<close>
  | RcUser nat

text \<open>\<open>EventCallback\<close>: \<open>func()\<close>.\<close>

datatype eventCallback =
    EcConnWrite conn_ptr   \<comment> \<open>\<open>conn.handleWrite\<close>\<close>
  | EcConnClose conn_ptr   \<comment> \<open>\<open>conn.handleClose\<close>\<close>
  | EcConnectorWrite connector_ptr  \<comment> \<open>\<open>c.handleWrite\<close>\<close>
  | EcConnectorError connector_ptr  \<comment> \<open>\<open>c.handleError\<close>\<close>
  | EcUser nat

text \<open>\<open>onClose\<close> of a connection: \<open>func(*TcpConn)\<close>.\<close>

datatype closeCallback =
    CcUser nat
  | CcServer server_ptr         \<comment> \<open>\<open>s.removeConn\<close>\<close>
  | CcClient client_ptr         \<comment> \<open>\<open>c.removeConn\<close>\<close>
  | CcClientDestroy client_ptr  \<comment> \<open>the closure that \<open>TcpClient.Destroy\<close> installs\<close>

text \<open>The function an acceptor hands new connections to: \<open>func(int, net.Addr)\<close>.\<close>

datatype acceptCallback = AcServer server_ptr  \<comment> \<open>\<open>s.newConn\<close>\<close>

text \<open>The function a connector hands its connected descriptor to: \<open>func(int)\<close>.\<close>

datatype connectCallback =
    KcClient client_ptr  \<comment> \<open>\<open>cli.newConn\<close>\<close>
  | KcUser nat

text \<open>\<open>Task\<close>: the closures handed to \<open>AsyncExecute\<close>.\<close>

datatype task =
    TkUser nat
  | TkAddTask0 loop_ptr timer_ptr            \<comment> \<open>\<open>el.tq.addTask0(tt)\<close>\<close>
  | TkCancel loop_ptr timer_ptr              \<comment> \<open>the closure of \<open>timerQueue.cancel\<close>\<close>
  | TkWriteComplete conn_ptr                 \<comment> \<open>\<open>c.onWriteComplete(c)\<close>\<close>
  | TkAsyncWrite conn_ptr "byte list" "nat option"  \<comment> \<open>the closure of \<open>AsyncWrite\<close>\<close>
  | TkShutdownWrite conn_ptr                 \<comment> \<open>\<open>c.shutdownWrite\<close>\<close>
  | TkConnectEstablished conn_ptr            \<comment> \<open>\<open>conn.connectEstablished()\<close>\<close>
  | TkConnectDestroyed conn_ptr              \<comment> \<open>\<open>conn.connectDestroyed()\<close>\<close>
  | TkServerListen server_ptr                \<comment> \<open>\<open>s.ac.listen()\<close>\<close>
  | TkServerRemove server_ptr conn_ptr       \<comment> \<open>\<open>s.removeConnInLoop(conn)\<close>\<close>
  | TkServerDestroyConn conn_ptr             \<comment> \<open>the closure of \<open>removeConnInLoop\<close>\<close>
  | TkConnectorStart connector_ptr           \<comment> \<open>\<open>c.start\<close>\<close>
  | TkConnectorNoChannel connector_ptr       \<comment> \<open>\<open>c.ch = nil\<close>\<close>
  | TkClientDestroy client_ptr conn_ptr      \<comment> \<open>the closure of \<open>TcpClient.Destroy\<close>\<close>

section \<open>System calls\<close>

datatype epoll_op = EPOLL_CTL_ADD | EPOLL_CTL_MOD | EPOLL_CTL_DEL

datatype syscall =
    SysNow
  | SysEpollCreate1
  | SysEpollCtl int epoll_op int uint32 chan_ptr
  | SysEpollWait int nat int
  | SysEventfd
  | SysTimerfdCreate
  | SysTimerfdSettime int duration
  | SysRead int nat
  | SysReadv int "nat list"
  | SysWrite int "byte list"
  | SysClose int
  | SysShutdown int
  | SysSocket int int int          \<comment> \<open>family, type with flags, protocol\<close>
  | SysBind int sockaddr
  | SysListen int int
  | SysAccept4 int int
  | SysConnect int sockaddr
  | SysGetsockname int
  | SysGetsockoptInt int int int
  | SysSetsockoptInt int int int int

type_synonym trace = "(syscall \<times> sysret) list"

section \<open>Objects\<close>

record timerTask =
  tt_tq :: loop_ptr
  tt_expire :: time
  tt_interval :: duration
  tt_repeat :: bool
  tt_cb :: timeoutCallback
  tt_index :: int
  tt_canceled :: bool

record timerQueue =
  tq_timerFd :: int
  tq_timerFdChannel :: chan_ptr
  tq_tasks :: "timer_ptr list"

record channel =
  ch_ele :: "nat option"
  ch_el :: loop_ptr
  ch_fd :: int
  ch_events :: uint32
  ch_revents :: uint32
  ch_index :: int
  ch_readCallback :: "readCallback option"
  ch_writeCallback :: "eventCallback option"
  ch_errorCallback :: "eventCallback option"
  ch_closeCallback :: "eventCallback option"
  ch_evtHandling :: bool

record epollevent =
  ev_events :: uint32
  ev_data :: chan_ptr

record poller =
  po_epollFd :: int
  po_eventList :: "epollevent list"
  po_channelMap :: "int \<Rightarrow> chan_ptr option"

record eventloop =
  el_id :: string
  el_looping :: int
  el_quit :: int
  el_activeChannels :: "chan_ptr list"
  el_poller :: poller
  el_tq :: timerQueue
  el_pendingTasks :: "task list"
  el_evtFd :: int
  el_wakeupChannel :: chan_ptr
  el_runningPendingTasks :: bool

datatype ConnState = Connecting | Connected | Disconnecting | Disconnected

text \<open>The constants of \<open>ConnState\<close> are numbered by \<open>iota\<close>; their order is the order of the states.\<close>

definition conn_rank :: "ConnState \<Rightarrow> nat" where
  "conn_rank st = (case st of Connecting \<Rightarrow> 0 | Connected \<Rightarrow> 1 | Disconnecting \<Rightarrow> 2 | Disconnected \<Rightarrow> 3)"

lemma conn_rank_inj: "conn_rank s = conn_rank t \<Longrightarrow> s = t"
  by (cases s; cases t) (simp_all add: conn_rank_def)

instantiation ConnState :: linorder
begin

definition less_eq_ConnState :: "ConnState \<Rightarrow> ConnState \<Rightarrow> bool" where
  "s \<le> t \<longleftrightarrow> conn_rank s \<le> conn_rank t"

definition less_ConnState :: "ConnState \<Rightarrow> ConnState \<Rightarrow> bool" where
  "s < t \<longleftrightarrow> conn_rank s < conn_rank t"

instance
  by standard (auto simp: less_eq_ConnState_def less_ConnState_def intro: conn_rank_inj)

end

lemmas ConnState_order = less_eq_ConnState_def less_ConnState_def conn_rank_def

record tcpConn =
  tc_el :: loop_ptr
  tc_name :: string
  tc_so :: int
  tc_ch :: chan_ptr
  tc_localAddr :: "net_addr option"
  tc_peerAddr :: "net_addr option"
  tc_state :: ConnState
  tc_onConn :: "nat option"
  tc_onMsg :: "nat option"
  tc_onClose :: "closeCallback option"
  tc_onWriteComplete :: "nat option"
  tc_inbound :: buffer
  tc_outbound :: buffer
  tc_ctx :: "nat option"

text \<open>
  An engine, with the program points of the two goroutines that share it.
  \<open>StartLoop\<close>: before the lock, at the test of \<open>eng.el\<close> with the lock, parked in \<open>cond.Wait\<close>
  without it, notified and waiting for the lock, returned. \<open>run\<close>: before \<open>NewEventloop\<close>,
  before the lock, and then with the lock before each of its three statements; last, in
  \<open>el.Loop\<close>.
\<close>

datatype starter = SLock | STest | SParked | SNotified | SReturned loop_ptr
datatype runner = RNew | RLock loop_ptr | RSet loop_ptr | RBroadcast | RUnlock | RLoop
datatype holder = Starter | Runner

record eventloopEngine =
  eng_id :: string
  eng_el :: "loop_ptr option"
  eng_mu :: "holder option"
  eng_starter :: starter
  eng_runner :: runner

text \<open>The group of engines.\<close>

record eventloopEngineGroup =
  gr_boss :: loop_ptr
  gr_works :: "loop_ptr list"
  gr_engines :: "eventloopEngine list"
  gr_engineCnt :: int
  gr_started :: bool
  gr_next :: nat

record acceptor =
  ac_el :: loop_ptr
  ac_so :: int
  ac_ch :: chan_ptr
  ac_cb :: "acceptCallback option"
  ac_localAddr :: "net_addr option"
  ac_listening :: bool

record tcpServer =
  sv_el :: loop_ptr
  sv_name :: string
  sv_addr :: string
  sv_ac :: acceptor_ptr
  sv_group :: eventloopEngineGroup
  sv_onConn :: "nat option"
  sv_onMsg :: "nat option"
  sv_onWriteComplete :: "nat option"
  sv_started :: bool
  sv_nextConnId :: uint64
  sv_connMap :: "string \<Rightarrow> conn_ptr option"
  sv_tcpNoDelay :: int
  sv_keepAlive :: int

datatype ConnectState = connectorDisconnected | connectorConnecting | connectorConnected

record connector =
  cn_el :: loop_ptr
  cn_svrAddr :: string
  cn_unixSvrAddr :: sockaddr
  cn_connect :: bool
  cn_state :: ConnectState
  cn_ch :: "chan_ptr option"
  cn_cb :: "connectCallback option"
  cn_retryDelay :: duration
  cn_tt :: "timer_ptr option"

record tcpClient =
  cl_el :: loop_ptr
  cl_connector :: connector_ptr
  cl_onConn :: "nat option"
  cl_onMsg :: "nat option"
  cl_onWriteComplete :: "nat option"
  cl_retry :: bool
  cl_connect :: bool
  cl_nextConnId :: uint64
  cl_conn :: "conn_ptr option"

text \<open>
  What package \<open>net\<close> finds out about names: the address of a host and port, and the names and
  numbers of the network interfaces.
\<close>

record resolver =
  ResolveTCPAddr :: "string \<Rightarrow> string \<Rightarrow> goerror + tcpAddr"
  InterfaceByName :: "string \<Rightarrow> int option"
  InterfaceByIndex :: "int \<Rightarrow> string option"

record world =
  env :: "trace \<Rightarrow> syscall \<Rightarrow> sysret"
  net :: resolver
  trace :: trace
  loops :: "loop_ptr \<Rightarrow> eventloop"
  chans :: "chan_ptr \<Rightarrow> channel"
  timers :: "timer_ptr \<Rightarrow> timerTask"
  conns :: "conn_ptr \<Rightarrow> tcpConn"
  acceptors :: "acceptor_ptr \<Rightarrow> acceptor"
  servers :: "server_ptr \<Rightarrow> tcpServer"
  connectors :: "connector_ptr \<Rightarrow> connector"
  clients :: "client_ptr \<Rightarrow> tcpClient"
  n_loops :: nat
  n_chans :: nat
  n_timers :: nat
  n_conns :: nat
  n_acceptors :: nat
  n_servers :: nat
  n_connectors :: nat
  n_clients :: nat

section \<open>Access\<close>

definition sys :: "syscall \<Rightarrow> (world, sysret) go" where
  "sys c w = (let r = env w (trace w) c in Inr (r, w\<lparr>trace := trace w @ [(c, r)]\<rparr>))"

definition upd_loop :: "loop_ptr \<Rightarrow> (eventloop \<Rightarrow> eventloop) \<Rightarrow> (world, unit) go" where
  "upd_loop el f = go_modify (\<lambda>w. w\<lparr>loops := (loops w)(el := f (loops w el))\<rparr>)"

definition upd_chan :: "chan_ptr \<Rightarrow> (channel \<Rightarrow> channel) \<Rightarrow> (world, unit) go" where
  "upd_chan c f = go_modify (\<lambda>w. w\<lparr>chans := (chans w)(c := f (chans w c))\<rparr>)"

definition upd_timer :: "timer_ptr \<Rightarrow> (timerTask \<Rightarrow> timerTask) \<Rightarrow> (world, unit) go" where
  "upd_timer t f = go_modify (\<lambda>w. w\<lparr>timers := (timers w)(t := f (timers w t))\<rparr>)"

definition upd_conn :: "conn_ptr \<Rightarrow> (tcpConn \<Rightarrow> tcpConn) \<Rightarrow> (world, unit) go" where
  "upd_conn c f = go_modify (\<lambda>w. w\<lparr>conns := (conns w)(c := f (conns w c))\<rparr>)"

definition upd_acceptor :: "acceptor_ptr \<Rightarrow> (acceptor \<Rightarrow> acceptor) \<Rightarrow> (world, unit) go" where
  "upd_acceptor p f = go_modify (\<lambda>w. w\<lparr>acceptors := (acceptors w)(p := f (acceptors w p))\<rparr>)"

definition upd_server :: "server_ptr \<Rightarrow> (tcpServer \<Rightarrow> tcpServer) \<Rightarrow> (world, unit) go" where
  "upd_server p f = go_modify (\<lambda>w. w\<lparr>servers := (servers w)(p := f (servers w p))\<rparr>)"

definition upd_connector :: "connector_ptr \<Rightarrow> (connector \<Rightarrow> connector) \<Rightarrow> (world, unit) go" where
  "upd_connector p f = go_modify (\<lambda>w. w\<lparr>connectors := (connectors w)(p := f (connectors w p))\<rparr>)"

definition upd_client :: "client_ptr \<Rightarrow> (tcpClient \<Rightarrow> tcpClient) \<Rightarrow> (world, unit) go" where
  "upd_client p f = go_modify (\<lambda>w. w\<lparr>clients := (clients w)(p := f (clients w p))\<rparr>)"

text \<open>Allocation: the next pointer of the store, initialised with the given object.\<close>

definition new_chan :: "channel \<Rightarrow> (world, chan_ptr) go" where
  "new_chan x w = Inr (n_chans w, w\<lparr>chans := (chans w)(n_chans w := x), n_chans := Suc (n_chans w)\<rparr>)"

definition new_timer :: "timerTask \<Rightarrow> (world, timer_ptr) go" where
  "new_timer x w =
     Inr (n_timers w, w\<lparr>timers := (timers w)(n_timers w := x), n_timers := Suc (n_timers w)\<rparr>)"

definition new_conn :: "tcpConn \<Rightarrow> (world, conn_ptr) go" where
  "new_conn x w = Inr (n_conns w, w\<lparr>conns := (conns w)(n_conns w := x), n_conns := Suc (n_conns w)\<rparr>)"

definition new_loop :: "eventloop \<Rightarrow> (world, loop_ptr) go" where
  "new_loop x w = Inr (n_loops w, w\<lparr>loops := (loops w)(n_loops w := x), n_loops := Suc (n_loops w)\<rparr>)"

definition new_acceptor :: "acceptor \<Rightarrow> (world, acceptor_ptr) go" where
  "new_acceptor x w = Inr (n_acceptors w, w\<lparr>acceptors := (acceptors w)(n_acceptors w := x), n_acceptors := Suc (n_acceptors w)\<rparr>)"

definition new_server :: "tcpServer \<Rightarrow> (world, server_ptr) go" where
  "new_server x w = Inr (n_servers w, w\<lparr>servers := (servers w)(n_servers w := x), n_servers := Suc (n_servers w)\<rparr>)"

definition new_connector :: "connector \<Rightarrow> (world, connector_ptr) go" where
  "new_connector x w = Inr (n_connectors w, w\<lparr>connectors := (connectors w)(n_connectors w := x), n_connectors := Suc (n_connectors w)\<rparr>)"

definition new_client :: "tcpClient \<Rightarrow> (world, client_ptr) go" where
  "new_client x w = Inr (n_clients w, w\<lparr>clients := (clients w)(n_clients w := x), n_clients := Suc (n_clients w)\<rparr>)"

section \<open>Their preconditions\<close>

lemma wp_sys [simp]:
  "wp E (sys c) Q w =
     Q (env w (trace w) c) (w\<lparr>trace := trace w @ [(c, env w (trace w) c)]\<rparr>)"
  by (simp add: wp_def sys_def Let_def)

lemma wp_upd_loop [simp]:
  "wp E (upd_loop el f) Q w = Q () (w\<lparr>loops := (loops w)(el := f (loops w el))\<rparr>)"
  by (simp add: upd_loop_def)

lemma wp_upd_chan [simp]:
  "wp E (upd_chan c f) Q w = Q () (w\<lparr>chans := (chans w)(c := f (chans w c))\<rparr>)"
  by (simp add: upd_chan_def)

lemma wp_upd_timer [simp]:
  "wp E (upd_timer t f) Q w = Q () (w\<lparr>timers := (timers w)(t := f (timers w t))\<rparr>)"
  by (simp add: upd_timer_def)

lemma wp_upd_conn [simp]:
  "wp E (upd_conn c f) Q w = Q () (w\<lparr>conns := (conns w)(c := f (conns w c))\<rparr>)"
  by (simp add: upd_conn_def)

lemma wp_new_chan [simp]:
  "wp E (new_chan x) Q w =
     Q (n_chans w) (w\<lparr>chans := (chans w)(n_chans w := x), n_chans := Suc (n_chans w)\<rparr>)"
  by (simp add: wp_def new_chan_def)

lemma wp_new_timer [simp]:
  "wp E (new_timer x) Q w =
     Q (n_timers w) (w\<lparr>timers := (timers w)(n_timers w := x), n_timers := Suc (n_timers w)\<rparr>)"
  by (simp add: wp_def new_timer_def)

lemma wp_new_conn [simp]:
  "wp E (new_conn x) Q w =
     Q (n_conns w) (w\<lparr>conns := (conns w)(n_conns w := x), n_conns := Suc (n_conns w)\<rparr>)"
  by (simp add: wp_def new_conn_def)

lemma wp_new_loop [simp]:
  "wp E (new_loop x) Q w =
     Q (n_loops w) (w\<lparr>loops := (loops w)(n_loops w := x), n_loops := Suc (n_loops w)\<rparr>)"
  by (simp add: wp_def new_loop_def)

lemma wp_upd_acceptor [simp]:
  "wp E (upd_acceptor p f) Q w = Q () (w\<lparr>acceptors := (acceptors w)(p := f (acceptors w p))\<rparr>)"
  by (simp add: upd_acceptor_def)

lemma wp_new_acceptor [simp]:
  "wp E (new_acceptor x) Q w =
     Q (n_acceptors w) (w\<lparr>acceptors := (acceptors w)(n_acceptors w := x), n_acceptors := Suc (n_acceptors w)\<rparr>)"
  by (simp add: wp_def new_acceptor_def)

lemma wp_upd_server [simp]:
  "wp E (upd_server p f) Q w = Q () (w\<lparr>servers := (servers w)(p := f (servers w p))\<rparr>)"
  by (simp add: upd_server_def)

lemma wp_new_server [simp]:
  "wp E (new_server x) Q w =
     Q (n_servers w) (w\<lparr>servers := (servers w)(n_servers w := x), n_servers := Suc (n_servers w)\<rparr>)"
  by (simp add: wp_def new_server_def)

lemma wp_upd_connector [simp]:
  "wp E (upd_connector p f) Q w = Q () (w\<lparr>connectors := (connectors w)(p := f (connectors w p))\<rparr>)"
  by (simp add: upd_connector_def)

lemma wp_new_connector [simp]:
  "wp E (new_connector x) Q w =
     Q (n_connectors w) (w\<lparr>connectors := (connectors w)(n_connectors w := x), n_connectors := Suc (n_connectors w)\<rparr>)"
  by (simp add: wp_def new_connector_def)

lemma wp_upd_client [simp]:
  "wp E (upd_client p f) Q w = Q () (w\<lparr>clients := (clients w)(p := f (clients w p))\<rparr>)"
  by (simp add: upd_client_def)

lemma wp_new_client [simp]:
  "wp E (new_client x) Q w =
     Q (n_clients w) (w\<lparr>clients := (clients w)(n_clients w := x), n_clients := Suc (n_clients w)\<rparr>)"
  by (simp add: wp_def new_client_def)

section \<open>The world before any object exists\<close>

text \<open>The contents of the stores beyond the allocated pointers are never read.\<close>

definition blank_channel :: channel where
  "blank_channel = \<lparr>ch_ele = None, ch_el = 0, ch_fd = 0, ch_events = 0, ch_revents = 0,
     ch_index = -1, ch_readCallback = None, ch_writeCallback = None, ch_errorCallback = None,
     ch_closeCallback = None, ch_evtHandling = False\<rparr>"

definition blank_timer :: timerTask where
  "blank_timer = \<lparr>tt_tq = 0, tt_expire = 0, tt_interval = 0, tt_repeat = False,
     tt_cb = ToUser 0, tt_index = -1, tt_canceled = False\<rparr>"

definition blank_loop :: eventloop where
  "blank_loop = \<lparr>el_id = [], el_looping = 0, el_quit = 0, el_activeChannels = [],
     el_poller = \<lparr>po_epollFd = 0, po_eventList = [], po_channelMap = (\<lambda>_. None)\<rparr>,
     el_tq = \<lparr>tq_timerFd = 0, tq_timerFdChannel = 0, tq_tasks = []\<rparr>,
     el_pendingTasks = [], el_evtFd = 0, el_wakeupChannel = 0, el_runningPendingTasks = False\<rparr>"

definition blank_conn :: tcpConn where
  "blank_conn = \<lparr>tc_el = 0, tc_name = [], tc_so = 0, tc_ch = 0,
     tc_localAddr = None, tc_peerAddr = None, tc_state = Connecting,
     tc_onConn = None, tc_onMsg = None, tc_onClose = None, tc_onWriteComplete = None,
     tc_inbound = NewBuffer, tc_outbound = NewBuffer, tc_ctx = None\<rparr>"

definition blank_acceptor :: acceptor where
  "blank_acceptor = \<lparr>ac_el = 0, ac_so = 0, ac_ch = 0, ac_cb = None, ac_localAddr = None,
     ac_listening = False\<rparr>"

definition blank_server :: tcpServer where
  "blank_server = \<lparr>sv_el = 0, sv_name = [], sv_addr = [], sv_ac = 0,
     sv_group = \<lparr>gr_boss = 0, gr_works = [], gr_engines = [], gr_engineCnt = 0,
       gr_started = False, gr_next = 0\<rparr>,
     sv_onConn = None, sv_onMsg = None, sv_onWriteComplete = None, sv_started = False,
     sv_nextConnId = 1, sv_connMap = (\<lambda>_. None), sv_tcpNoDelay = 1, sv_keepAlive = 1\<rparr>"

definition blank_connector :: connector where
  "blank_connector = \<lparr>cn_el = 0, cn_svrAddr = [], cn_unixSvrAddr = SockaddrOther,
     cn_connect = False, cn_state = connectorDisconnected, cn_ch = None, cn_cb = None,
     cn_retryDelay = 500000000, cn_tt = None\<rparr>"

definition blank_client :: tcpClient where
  "blank_client = \<lparr>cl_el = 0, cl_connector = 0, cl_onConn = None, cl_onMsg = None,
     cl_onWriteComplete = None, cl_retry = False, cl_connect = True, cl_nextConnId = 1,
     cl_conn = None\<rparr>"

definition no_names :: resolver where
  "no_names = \<lparr>ResolveTCPAddr = (\<lambda>_ _. Inl (ResolveError 0)), InterfaceByName = (\<lambda>_. None),
     InterfaceByIndex = (\<lambda>_. None)\<rparr>"

definition blank_world :: "(trace \<Rightarrow> syscall \<Rightarrow> sysret) \<Rightarrow> world" where
  "blank_world e = \<lparr>env = e, net = no_names, trace = [], loops = (\<lambda>_. blank_loop),
     chans = (\<lambda>_. blank_channel), timers = (\<lambda>_. blank_timer), conns = (\<lambda>_. blank_conn),
     acceptors = (\<lambda>_. blank_acceptor), servers = (\<lambda>_. blank_server),
     connectors = (\<lambda>_. blank_connector), clients = (\<lambda>_. blank_client),
     n_loops = 0, n_chans = 0, n_timers = 0, n_conns = 0,
     n_acceptors = 0, n_servers = 0, n_connectors = 0, n_clients = 0\<rparr>"

lemmas blank_defs = blank_channel_def blank_timer_def blank_loop_def blank_conn_def blank_acceptor_def
  blank_server_def blank_connector_def blank_client_def blank_world_def

lemmas world_defs = sys_def upd_loop_def upd_chan_def upd_timer_def upd_conn_def
  upd_acceptor_def upd_server_def upd_connector_def upd_client_def
  new_chan_def new_timer_def new_conn_def new_loop_def
  new_acceptor_def new_server_def new_connector_def new_client_def

end
