(* ===== verification/Container_Heap.thy ===== *)
theory Container_Heap
  imports Prelude
begin

text \<open>
  The binary heap of Go's \<open>container/heap\<close>, as far as \<open>timer.go\<close> uses it: \<open>up\<close>, \<open>down\<close> and
  the three operations built on them, over an implementation of \<open>heap.Interface\<close>, which is
  given by its methods \<open>Less\<close>, \<open>Swap\<close> and \<open>Len\<close>. The contract of the interface is the
  locale \<open>heap_interface\<close>; the heap lemmas are proved there once.
\<close>

section \<open>The algorithm\<close>

abbreviation parent :: "nat \<Rightarrow> nat" where
  "parent j \<equiv> (j - 1) div 2"

function heap_up :: "(nat \<Rightarrow> nat \<Rightarrow> 'h \<Rightarrow> bool) \<Rightarrow> (nat \<Rightarrow> nat \<Rightarrow> 'h \<Rightarrow> 'h) \<Rightarrow> nat \<Rightarrow> 'h \<Rightarrow> 'h" where
  "heap_up lt swap j h =
     (let i = parent j in
      if i = j \<or> \<not> lt j i h then h else heap_up lt swap i (swap i j h))"
  by pat_completeness auto
termination
  by (relation "measure (\<lambda>(_, _, j, _). j)") auto

text \<open>\<open>down\<close> returns the heap and the position where the element came to rest.\<close>

definition smaller_child :: "(nat \<Rightarrow> nat \<Rightarrow> 'h \<Rightarrow> bool) \<Rightarrow> nat \<Rightarrow> nat \<Rightarrow> 'h \<Rightarrow> nat" where
  "smaller_child lt i n h =
     (let j1 = 2 * i + 1; j2 = j1 + 1 in if j2 < n \<and> lt j2 j1 h then j2 else j1)"

function heap_down ::
  "(nat \<Rightarrow> nat \<Rightarrow> 'h \<Rightarrow> bool) \<Rightarrow> (nat \<Rightarrow> nat \<Rightarrow> 'h \<Rightarrow> 'h) \<Rightarrow> nat \<Rightarrow> nat \<Rightarrow> 'h \<Rightarrow> 'h \<times> nat" where
  "heap_down lt swap i n h =
     (let j = smaller_child lt i n h in
      if 2 * i + 1 \<ge> n \<or> \<not> lt j i h then (h, i)
      else heap_down lt swap j n (swap i j h))"
  by pat_completeness auto
termination
  by (relation "measure (\<lambda>(_, _, i, n, _). n - i)") (auto simp: smaller_child_def Let_def)

declare heap_up.simps [simp del] heap_down.simps [simp del]

section \<open>Heap order on lists of keys\<close>

definition edge :: "'k::linorder list \<Rightarrow> nat \<Rightarrow> bool" where
  "edge xs k \<longleftrightarrow> xs ! parent k \<le> xs ! k"

text \<open>The first \<open>n\<close> positions are in heap order.\<close>

definition heap_order :: "nat \<Rightarrow> 'k::linorder list \<Rightarrow> bool" where
  "heap_order n xs \<longleftrightarrow> (\<forall>k. 0 < k \<longrightarrow> k < n \<longrightarrow> edge xs k)"

text \<open>The children of \<open>i\<close> are at least as large as its parent.\<close>

definition grandparent_ok :: "nat \<Rightarrow> nat \<Rightarrow> 'k::linorder list \<Rightarrow> bool" where
  "grandparent_ok i n xs \<longleftrightarrow>
     (0 < i \<longrightarrow> (\<forall>k. 0 < k \<longrightarrow> k < n \<longrightarrow> parent k = i \<longrightarrow> xs ! parent i \<le> xs ! k))"

text \<open>Heap order except above \<open>j\<close> (while an element rises), and except around \<open>i\<close>.\<close>

definition order_but_up :: "nat \<Rightarrow> nat \<Rightarrow> 'k::linorder list \<Rightarrow> bool" where
  "order_but_up j n xs \<longleftrightarrow>
     (\<forall>k. 0 < k \<longrightarrow> k < n \<longrightarrow> k \<noteq> j \<longrightarrow> edge xs k) \<and> grandparent_ok j n xs"

definition order_but :: "nat \<Rightarrow> nat \<Rightarrow> 'k::linorder list \<Rightarrow> bool" where
  "order_but i n xs \<longleftrightarrow>
     (\<forall>k. 0 < k \<longrightarrow> k < n \<longrightarrow> k \<noteq> i \<longrightarrow> parent k \<noteq> i \<longrightarrow> edge xs k) \<and> grandparent_ok i n xs"

lemmas heap_defs = edge_def heap_order_def grandparent_ok_def order_but_up_def order_but_def

abbreviation swap_list :: "nat \<Rightarrow> nat \<Rightarrow> 'a list \<Rightarrow> 'a list" where
  "swap_list i j xs \<equiv> xs[i := xs ! j, j := xs ! i]"

lemma nth_swap_list:
  "i < length xs \<Longrightarrow> j < length xs \<Longrightarrow> k < length xs \<Longrightarrow>
   swap_list i j xs ! k = xs ! (if k = i then j else if k = j then i else k)"
  by (auto simp: nth_list_update)

lemma parent_less: "0 < k \<Longrightarrow> parent k < k"
  by auto

lemma heap_order_min: "heap_order n xs \<Longrightarrow> k < n \<Longrightarrow> xs ! 0 \<le> xs ! k"
proof (induction k rule: less_induct)
  case (less k)
  show ?case
  proof (cases "k = 0")
    case False
    then have "xs ! 0 \<le> xs ! parent k"
      using less by (intro less.IH) auto
    also have "\<dots> \<le> xs ! k"
      using False less.prems by (auto simp: heap_defs)
    finally show ?thesis .
  qed simp
qed

lemma heap_order_append:
  assumes "n \<le> length xs"
  shows "heap_order n (xs @ ys) = heap_order n xs"
proof -
  have "edge (xs @ ys) k = edge xs k" if "0 < k" "k < n" for k
    using that assms parent_less [of k] by (simp add: edge_def nth_append)
  then show ?thesis
    by (auto simp: heap_order_def)
qed

lemma order_but_up_done: "order_but_up j n xs \<Longrightarrow> j = 0 \<or> edge xs j \<Longrightarrow> heap_order n xs"
  by (auto simp: heap_defs)

lemma heap_order_snoc:
  assumes "heap_order n xs" and "length xs = n"
  shows "order_but_up n (Suc n) (xs @ [x])"
proof -
  have "edge (xs @ [x]) k" if "0 < k" "k < n" for k
    using that assms parent_less [OF that(1)] by (auto simp: heap_order_def edge_def nth_append)
  moreover have "parent k \<noteq> n" if "0 < k" "k < Suc n" for k
    using that parent_less [OF that(1)] by linarith
  ultimately show ?thesis
    by (auto simp: order_but_up_def grandparent_ok_def less_Suc_eq)
qed

lemma order_but_up_swap:
  assumes "order_but_up j n xs" and "0 < j" and "j < n" and "n \<le> length xs"
    and "xs ! j < xs ! parent j"
  shows "order_but_up (parent j) n (swap_list (parent j) j xs)"
proof -
  let ?p = "parent j" and ?ys = "swap_list (parent j) j xs"
  have p: "?p < j"
    using assms(2) by auto
  have nth: "?ys ! k = xs ! (if k = ?p then j else if k = j then ?p else k)" if "k < n" for k
    using that assms p by (intro nth_swap_list) auto
  have edge: "edge xs k" if "0 < k" "k < n" "k \<noteq> j" for k
    using that assms(1) by (auto simp: order_but_up_def)
  have gp: "xs ! ?p \<le> xs ! k" if "0 < k" "k < n" "parent k = j" for k
    using that assms(1,2) by (auto simp: order_but_up_def grandparent_ok_def)
  have "edge ?ys k" if k: "0 < k" "k < n" "k \<noteq> ?p" for k
  proof -
    have pk: "parent k < k"
      using k(1) by (rule parent_less)
    then have *: "?ys ! parent k = xs ! (if parent k = ?p then j else if parent k = j then ?p else parent k)"
        "?ys ! k = xs ! (if k = j then ?p else k)"
      using nth [of "parent k"] nth [of k] k by auto
    show ?thesis
      unfolding edge_def *
      using edge [of k] gp [of k] assms(5) k by (auto simp: edge_def split: if_splits)
  qed
  moreover have "grandparent_ok ?p n ?ys"
    unfolding grandparent_ok_def
  proof (intro impI allI)
    fix k
    assume k: "0 < ?p" "0 < k" "k < n" "parent k = ?p"
    have gp: "parent ?p < ?p"
      using k(1) by (rule parent_less)
    have "xs ! parent ?p \<le> xs ! ?p"
      using edge [of ?p] k(1) p assms(3) by (auto simp: edge_def)
    moreover have "k \<noteq> j \<Longrightarrow> xs ! ?p \<le> xs ! k"
      using edge [of k] k by (auto simp: edge_def)
    moreover have "k \<noteq> ?p"
      using parent_less [OF k(2)] k(4) by auto
    ultimately show "?ys ! parent ?p \<le> ?ys ! k"
      using nth [of "parent ?p"] nth [of k] gp p k assms(3) by auto
  qed
  ultimately show ?thesis
    by (simp add: order_but_up_def)
qed

text \<open>Heap order except below \<open>i\<close>, while an element sinks.\<close>

definition order_but_down :: "nat \<Rightarrow> nat \<Rightarrow> 'k::linorder list \<Rightarrow> bool" where
  "order_but_down i n xs \<longleftrightarrow>
     (\<forall>k. 0 < k \<longrightarrow> k < n \<longrightarrow> parent k \<noteq> i \<longrightarrow> edge xs k) \<and> grandparent_ok i n xs"

definition children_ok :: "nat \<Rightarrow> nat \<Rightarrow> 'k::linorder list \<Rightarrow> bool" where
  "children_ok i n xs \<longleftrightarrow> (\<forall>k. 0 < k \<longrightarrow> k < n \<longrightarrow> parent k = i \<longrightarrow> edge xs k)"

lemma order_but_down_weaken: "order_but_down i n xs \<Longrightarrow> order_but i n xs"
  by (auto simp: order_but_down_def order_but_def)

lemma order_but_down_done: "order_but_down i n xs \<Longrightarrow> children_ok i n xs \<Longrightarrow> heap_order n xs"
  by (auto simp: order_but_down_def children_ok_def heap_order_def)

lemma order_but_still: "order_but i n xs \<Longrightarrow> children_ok i n xs \<Longrightarrow> order_but_up i n xs"
  by (auto simp: order_but_def children_ok_def order_but_up_def)

lemma order_but_swap:
  assumes "order_but i n xs" and "i < n" and "n \<le> length xs"
    and c: "0 < c" "c < n" "parent c = i" and "xs ! c < xs ! i"
    and least: "\<And>k. 0 < k \<Longrightarrow> k < n \<Longrightarrow> parent k = i \<Longrightarrow> xs ! c \<le> xs ! k"
  shows "order_but_down c n (swap_list i c xs)"
proof -
  let ?ys = "swap_list i c xs"
  have ic: "i < c"
    using c parent_less [of c] by simp
  have nth: "?ys ! k = xs ! (if k = i then c else if k = c then i else k)" if "k < n" for k
    using that assms by (intro nth_swap_list) auto
  have edge: "edge xs k" if "0 < k" "k < n" "k \<noteq> i" "parent k \<noteq> i" for k
    using that assms(1) by (auto simp: order_but_def)
  have gp: "xs ! parent i \<le> xs ! c" if "0 < i"
    using that c assms(1) by (auto simp: order_but_def grandparent_ok_def)
  have "edge ?ys k" if k: "0 < k" "k < n" "parent k \<noteq> c" for k
  proof -
    have pk: "parent k < k"
      using k(1) by (rule parent_less)
    have *: "?ys ! parent k = xs ! (if parent k = i then c else parent k)"
        "?ys ! k = xs ! (if k = i then c else if k = c then i else k)"
      using nth [of "parent k"] nth [of k] pk k by auto
    consider "parent k = i" | "parent k \<noteq> i" "k = i" | "parent k \<noteq> i" "k \<noteq> i"
      by blast
    then show ?thesis
    proof cases
      case 1
      then have "k \<noteq> i" using pk by simp
      then show ?thesis
        unfolding edge_def * using 1 least [of k] assms(7) k by auto
    next
      case 2
      then show ?thesis
        unfolding edge_def * using gp k by auto
    next
      case 3
      then have "k \<noteq> c" using c(3) by auto
      then show ?thesis
        unfolding edge_def * using 3 edge [of k] k by (simp add: edge_def)
    qed
  qed
  moreover have "grandparent_ok c n ?ys"
    unfolding grandparent_ok_def
  proof (intro impI allI)
    fix k
    assume k: "0 < k" "k < n" "parent k = c"
    then have "c < k"
      using parent_less [of k] by simp
    then have "xs ! c \<le> xs ! k"
      using edge [of k] k ic by (auto simp: edge_def)
    then show "?ys ! parent c \<le> ?ys ! k"
      using nth [of i] nth [of k] k ic c assms(2) \<open>c < k\<close> by simp
  qed
  ultimately show ?thesis
    by (simp add: order_but_down_def)
qed

lemma order_but_top: "order_but 0 n xs \<Longrightarrow> order_but_down 0 n xs"
  by (auto simp: order_but_def order_but_down_def)

text \<open>Putting the last element in the place of another breaks the order around that place only.\<close>

lemma order_but_swap_last:
  assumes "heap_order (Suc n) xs" and "length xs = Suc n" and "i < n"
  shows "order_but i n (swap_list i n xs)"
proof -
  have nth: "swap_list i n xs ! k = (if k = i then xs ! n else xs ! k)" if "k < n" for k
    using that assms by (simp add: nth_list_update)
  have edge: "xs ! parent k \<le> xs ! k" if "0 < k" "k < n" for k
    using that assms(1) by (simp add: heap_order_def edge_def)
  have "edge (swap_list i n xs) k" if "0 < k" "k < n" "k \<noteq> i" "parent k \<noteq> i" for k
    unfolding edge_def using that nth [of k] nth [of "parent k"] edge [of k] parent_less [of k]
    by simp
  moreover have "swap_list i n xs ! parent i \<le> swap_list i n xs ! k"
    if "0 < i" "0 < k" "k < n" "parent k = i" for k
    using nth [of k] nth [of "parent i"] edge [of i] edge [of k] parent_less [of k]
      parent_less [of i] that assms(3) by (auto intro: order_trans)
  ultimately show ?thesis
    by (auto simp: order_but_def grandparent_ok_def)
qed

section \<open>The interface and its laws\<close>

text \<open>
  An implementation of \<open>heap.Interface\<close>: \<open>view\<close> is the slice it holds, each element with
  its key; \<open>lt\<close> is \<open>Less\<close>, which compares the keys and breaks ties by position; \<open>swap\<close> is
  \<open>Swap\<close>; \<open>invar\<close> is what the implementation keeps besides the slice.
\<close>

locale heap_interface =
  fixes lt :: "nat \<Rightarrow> nat \<Rightarrow> 'h \<Rightarrow> bool"
    and swap :: "nat \<Rightarrow> nat \<Rightarrow> 'h \<Rightarrow> 'h"
    and view :: "'h \<Rightarrow> ('k::linorder \<times> 'e) list"
    and invar :: "'h \<Rightarrow> bool"
  assumes lt_iff: "i < length (view h) \<Longrightarrow> j < length (view h) \<Longrightarrow>
      lt i j h \<longleftrightarrow> fst (view h ! i) < fst (view h ! j) \<or>
        fst (view h ! i) = fst (view h ! j) \<and> i < j"
    and view_swap: "i < length (view h) \<Longrightarrow> j < length (view h) \<Longrightarrow>
      view (swap i j h) = swap_list i j (view h)"
    and invar_swap: "invar h \<Longrightarrow> i < length (view h) \<Longrightarrow> j < length (view h) \<Longrightarrow>
      invar (swap i j h)"
begin

abbreviation keys :: "'h \<Rightarrow> 'k list" where
  "keys h \<equiv> map fst (view h)"

text \<open>What every run of \<open>up\<close> and \<open>down\<close> on the first \<open>n\<close> positions keeps.\<close>

definition same_elements :: "nat \<Rightarrow> 'h \<Rightarrow> 'h \<Rightarrow> bool" where
  "same_elements n h h' \<longleftrightarrow> length (view h') = length (view h) \<and>
     mset (view h') = mset (view h) \<and> drop n (view h') = drop n (view h) \<and>
     (invar h \<longrightarrow> invar h')"

lemma same_elements_refl [simp]: "same_elements n h h"
  by (simp add: same_elements_def)

lemma same_elements_swap:
  assumes "i < n" "j < n" "n \<le> length (view h)"
  shows "same_elements n h (swap i j h)"
  using assms
  by (simp add: same_elements_def view_swap invar_swap mset_swap drop_update_cancel)

lemma same_elements_trans:
  "same_elements n h h1 \<Longrightarrow> same_elements n h1 h2 \<Longrightarrow> same_elements n h h2"
  by (simp add: same_elements_def)

lemma keys_swap:
  "i < length (view h) \<Longrightarrow> j < length (view h) \<Longrightarrow> keys (swap i j h) = swap_list i j (keys h)"
  by (simp add: view_swap map_update)

text \<open>Against its parent or a sibling to its left, ties never count as less.\<close>

lemma lt_keys:
  "i < length (view h) \<Longrightarrow> j < i \<Longrightarrow> lt i j h \<longleftrightarrow> keys h ! i < keys h ! j"
  by (auto simp: lt_iff)

lemma up_correct:
  "j < n \<Longrightarrow> n \<le> length (view h) \<Longrightarrow> order_but_up j n (keys h) \<Longrightarrow>
   heap_order n (keys (heap_up lt swap j h)) \<and> same_elements n h (heap_up lt swap j h)"
proof (induction j arbitrary: h rule: less_induct)
  case (less j)
  show ?case
  proof (cases "j = 0 \<or> \<not> lt j (parent j) h")
    case True
    then have "heap_up lt swap j h = h"
      by (subst heap_up.simps) (auto simp: Let_def)
    moreover have "j = 0 \<or> edge (keys h) j"
      using True less.prems parent_less [of j] lt_keys [of j h "parent j"]
      by (fastforce simp: edge_def not_less)
    ultimately show ?thesis
      using order_but_up_done less.prems(3) by auto
  next
    case False
    let ?h = "swap (parent j) j h"
    have p: "parent j < j"
      using False by (intro parent_less) auto
    have up: "heap_up lt swap j h = heap_up lt swap (parent j) ?h"
      using False p by (subst heap_up.simps) (auto simp: Let_def)
    have keys: "keys ?h = swap_list (parent j) j (keys h)"
      using p less.prems by (intro keys_swap) auto
    have same: "same_elements n h ?h"
      using p less.prems by (intro same_elements_swap) auto
    have "keys h ! j < keys h ! parent j"
      using False p less.prems by (auto simp: lt_keys)
    then have "order_but_up (parent j) n (keys ?h)"
      unfolding keys using False p less.prems by (intro order_but_up_swap) auto
    then have "heap_order n (keys (heap_up lt swap (parent j) ?h)) \<and>
        same_elements n ?h (heap_up lt swap (parent j) ?h)"
      using p less.prems same by (intro less.IH) (auto simp: same_elements_def)
    then show ?thesis
      using same_elements_trans [OF same] up by auto
  qed
qed

text \<open>The child \<open>down\<close> looks at is the smallest one.\<close>

lemma smaller_child_least:
  assumes "2 * i + 1 < n" and "n \<le> length (view h)"
  defines "c \<equiv> smaller_child lt i n h"
  shows "0 < c" and "c < n" and "parent c = i" and "i < c"
    and "\<And>k. 0 < k \<Longrightarrow> k < n \<Longrightarrow> parent k = i \<Longrightarrow> keys h ! c \<le> keys h ! k"
proof -
  have c: "c = 2 * i + 1 \<or> c = 2 * i + 2"
    by (auto simp: c_def smaller_child_def Let_def)
  then show "0 < c" "parent c = i" "i < c"
    by auto
  show "c < n"
    using assms by (auto simp: smaller_child_def Let_def)
  fix k
  assume k: "0 < k" "k < n" "parent k = i"
  then have "k = 2 * i + 1 \<or> k = 2 * i + 2"
    by arith
  then show "keys h ! c \<le> keys h ! k"
    using assms k lt_keys [of "2 * i + 2" h "2 * i + 1"]
    by (auto simp: smaller_child_def Let_def)
qed

lemma children_ok_stop:
  assumes "n \<le> length (view h)" and "i < n"
    and "2 * i + 1 \<ge> n \<or> \<not> lt (smaller_child lt i n h) i h"
  shows "children_ok i n (keys h)"
proof (cases "2 * i + 1 \<ge> n")
  case True
  then have "parent k \<noteq> i" if "0 < k" "k < n" for k
    using that by arith
  then show ?thesis
    by (auto simp: children_ok_def)
next
  case False
  then have "2 * i + 1 < n"
    by simp
  note least = smaller_child_least [OF this assms(1)]
  have "keys h ! i \<le> keys h ! smaller_child lt i n h"
    using False assms least lt_keys [of "smaller_child lt i n h" h i] by (auto simp: not_less)
  then have "keys h ! i \<le> keys h ! k" if "0 < k" "k < n" "parent k = i" for k
    using least(5) [OF that] by (rule order_trans)
  then show ?thesis
    by (simp add: children_ok_def edge_def)
qed

text \<open>
  \<open>down\<close> from a position where the order may be broken in both directions: if the element
  sank the order is restored, and if it did not move only the edge above it may be broken.
\<close>

lemma down_correct:
  assumes "i < n" and "n \<le> length (view h)"
  shows "order_but i n (keys h) \<Longrightarrow> heap_down lt swap i n h = (h', r) \<Longrightarrow>
    same_elements n h h' \<and> i \<le> r \<and>
    (if r = i then h' = h \<and> children_ok i n (keys h) else heap_order n (keys h'))"
  using assms
proof (induction "n - i" arbitrary: i h h' r rule: less_induct)
  case less
  let ?c = "smaller_child lt i n h"
  show ?case
  proof (cases "2 * i + 1 \<ge> n \<or> \<not> lt ?c i h")
    case True
    then have "h' = h" "r = i"
      using less.prems(2) by (auto simp: heap_down.simps [of lt swap i n h] Let_def)
    then show ?thesis
      using children_ok_stop [OF _ _ True] less.prems by simp
  next
    case False
    then have "2 * i + 1 < n"
      by simp
    note c = smaller_child_least [OF this less.prems(4)]
    let ?h = "swap i ?c h"
    have keys: "keys ?h = swap_list i ?c (keys h)"
      using c less.prems by (intro keys_swap) auto
    have same: "same_elements n h ?h"
      using c less.prems by (intro same_elements_swap) auto
    have "keys h ! ?c < keys h ! i"
      using False c less.prems lt_keys [of ?c h i] by auto
    then have down: "order_but_down ?c n (keys ?h)"
      unfolding keys using c less.prems by (intro order_but_swap) auto
    have rec: "heap_down lt swap ?c n ?h = (h', r)"
      using False less.prems(2) by (auto simp: heap_down.simps [of lt swap i n h] Let_def)
    have IH: "same_elements n ?h h' \<and> ?c \<le> r \<and>
        (if r = ?c then h' = ?h \<and> children_ok ?c n (keys ?h) else heap_order n (keys h'))"
      using c less.prems same order_but_down_weaken [OF down] rec
      by (intro less.hyps) (auto simp: same_elements_def)
    then have "heap_order n (keys h')"
      using order_but_down_done [OF down] by (auto split: if_splits)
    then show ?thesis
      using same_elements_trans [OF same] IH c(4) by auto
  qed
qed

lemma down_correct_top:
  assumes "order_but_down i n (keys h)" and "heap_down lt swap i n h = (h', r)"
    and "i < n" and "n \<le> length (view h)"
  shows "same_elements n h h' \<and> heap_order n (keys h')"
  using down_correct [OF assms(3,4) order_but_down_weaken [OF assms(1)] assms(2)]
    order_but_down_done [OF assms(1)]
  by (auto split: if_splits)

end

end
