(* ===== verification/Timer_Heap.thy ===== *)
theory Timer_Heap
  imports World Container_Heap
begin

text \<open>
  \<open>timerTaskHeap\<close> of \<open>timer.go\<close>: the slice of tasks that implements \<open>heap.Interface\<close>, with
  each task's position kept in its \<open>index\<close> field, and the operations of \<open>container/heap\<close>
  on it. The state is the slice together with the store of the tasks it points to. The
  contract \<open>heap_interface\<close> is interpreted here.
\<close>

section \<open>State and operations\<close>

record timerTaskHeap =
  h_tasks :: "timer_ptr list"
  h_store :: "timer_ptr \<Rightarrow> timerTask"

definition Len :: "timerTaskHeap \<Rightarrow> nat" where
  "Len h = length (h_tasks h)"

text \<open>The task at a position. \<open>container/heap\<close> calls \<open>Less\<close> and \<open>Swap\<close> in range only.\<close>

definition task_at :: "timerTaskHeap \<Rightarrow> nat \<Rightarrow> timerTask" where
  "task_at h i = h_store h (h_tasks h ! i)"

definition Less :: "nat \<Rightarrow> nat \<Rightarrow> timerTaskHeap \<Rightarrow> bool" where
  "Less i j h =
     (if tt_expire (task_at h i) < tt_expire (task_at h j) then True
      else if tt_expire (task_at h i) = tt_expire (task_at h j) then i < j
      else False)"

definition set_index :: "timer_ptr \<Rightarrow> int \<Rightarrow> timerTaskHeap \<Rightarrow> timerTaskHeap" where
  "set_index p i h = h\<lparr>h_store := (h_store h)(p := (h_store h p)\<lparr>tt_index := i\<rparr>)\<rparr>"

definition Swap :: "nat \<Rightarrow> nat \<Rightarrow> timerTaskHeap \<Rightarrow> timerTaskHeap" where
  "Swap i j h =
     (let h1 = h\<lparr>h_tasks := swap_list i j (h_tasks h)\<rparr>;
          h2 = set_index (h_tasks h1 ! i) (int i) h1
      in set_index (h_tasks h1 ! j) (int j) h2)"

definition Push :: "timer_ptr \<Rightarrow> timerTaskHeap \<Rightarrow> timerTaskHeap" where
  "Push x h =
     (let h1 = h\<lparr>h_tasks := h_tasks h @ [x]\<rparr>
      in set_index x (int (length (h_tasks h1)) - 1) h1)"

definition Pop :: "(timerTaskHeap, timer_ptr) go" where
  "Pop h =
     (if h_tasks h = [] then Inl IndexOutOfRange
      else let x = last (h_tasks h) in
        Inr (x, (set_index x (- 1) h)\<lparr>h_tasks := butlast (h_tasks h)\<rparr>))"

definition Top :: "(timerTaskHeap, timer_ptr) go" where
  "Top h = go_index (h_tasks h) 0 h"

text \<open>\<open>heap.Push\<close>, \<open>heap.Pop\<close> and \<open>heap.Remove\<close>.\<close>

definition heap_Push :: "timer_ptr \<Rightarrow> timerTaskHeap \<Rightarrow> timerTaskHeap" where
  "heap_Push x h = (let h1 = Push x h in heap_up Less Swap (Len h1 - 1) h1)"

definition heap_Pop :: "(timerTaskHeap, timer_ptr) go" where
  "heap_Pop h =
     (if Len h = 0 then Inl IndexOutOfRange
      else let n = Len h - 1 in
        Pop (fst (heap_down Less Swap 0 n (Swap 0 n h))))"

definition heap_Remove :: "int \<Rightarrow> (timerTaskHeap, timer_ptr) go" where
  "heap_Remove i h =
     (let n = int (Len h) - 1 in
      if n \<noteq> i then
        if i < 0 \<or> i > n then Inl IndexOutOfRange
        else let (h1, r) = heap_down Less Swap (nat i) (nat n) (Swap (nat i) (nat n) h);
                 h2 = (if \<not> r > nat i then heap_up Less Swap (nat i) h1 else h1)
             in Pop h2
      else Pop h)"

section \<open>The heap.Interface contract\<close>

definition heap_view :: "timerTaskHeap \<Rightarrow> (time \<times> timer_ptr) list" where
  "heap_view h = map (\<lambda>p. (tt_expire (h_store h p), p)) (h_tasks h)"

text \<open>
  Positions are recorded: a task in the slice knows where it stands, and a task of this queue
  (\<open>owned\<close>) that is not in the slice has index -1.
\<close>

definition index_coherent :: "timer_ptr set \<Rightarrow> timerTaskHeap \<Rightarrow> bool" where
  "index_coherent owned h \<longleftrightarrow>
     set (h_tasks h) \<subseteq> owned \<and>
     (\<forall>i < length (h_tasks h). tt_index (task_at h i) = int i) \<and>
     (\<forall>p \<in> owned. p \<notin> set (h_tasks h) \<longrightarrow> tt_index (h_store h p) = -1)"

lemma length_heap_view [simp]: "length (heap_view h) = length (h_tasks h)"
  by (simp add: heap_view_def)

lemma map_snd_heap_view [simp]: "map snd (heap_view h) = h_tasks h"
  by (simp add: heap_view_def o_def)

lemma set_index_simps [simp]:
  "h_tasks (set_index p i h) = h_tasks h"
  "tt_expire (h_store (set_index p i h) q) = tt_expire (h_store h q)"
  "tt_index (h_store (set_index p i h) q) = (if q = p then i else tt_index (h_store h q))"
  by (auto simp: set_index_def)

lemma index_coherent_distinct: "index_coherent own h \<Longrightarrow> distinct (h_tasks h)"
  unfolding index_coherent_def distinct_conv_nth task_at_def by (metis of_nat_eq_iff)

lemma heap_view_set_index [simp]: "heap_view (set_index p i h) = heap_view h"
  by (simp add: heap_view_def)

lemma h_tasks_Swap [simp]: "h_tasks (Swap i j h) = swap_list i j (h_tasks h)"
  by (simp add: Swap_def Let_def)

lemma tt_expire_Swap [simp]: "tt_expire (h_store (Swap i j h) p) = tt_expire (h_store h p)"
  by (simp add: Swap_def Let_def)

lemma view_Swap: "i < length (heap_view h) \<Longrightarrow> j < length (heap_view h) \<Longrightarrow>
    heap_view (Swap i j h) = swap_list i j (heap_view h)"
  by (simp add: heap_view_def map_update)

text \<open>Heap operations change nothing of the tasks but the index of the queue's own ones.\<close>

definition store_frame :: "timer_ptr set \<Rightarrow> timerTaskHeap \<Rightarrow> timerTaskHeap \<Rightarrow> bool" where
  "store_frame own h0 h \<longleftrightarrow>
     (\<forall>p. p \<notin> own \<longrightarrow> h_store h p = h_store h0 p) \<and>
     (\<forall>p. (h_store h p)\<lparr>tt_index := 0\<rparr> = (h_store h0 p)\<lparr>tt_index := 0\<rparr>)"

lemma store_frame_refl [simp]: "store_frame own h h"
  by (simp add: store_frame_def)

lemma store_frame_trans:
  "store_frame own h0 h1 \<Longrightarrow> store_frame own h1 h2 \<Longrightarrow> store_frame own h0 h2"
  by (simp add: store_frame_def)

lemma store_frame_set_index: "p \<in> own \<Longrightarrow> store_frame own h (set_index p i h)"
  by (auto simp: store_frame_def set_index_def)

lemma store_frame_tasks [simp]:
  "store_frame own h0 (h\<lparr>h_tasks := ts\<rparr>) = store_frame own h0 h"
  "store_frame own (h0\<lparr>h_tasks := ts\<rparr>) h = store_frame own h0 h"
  by (simp_all add: store_frame_def)

lemma store_frame_fields:
  assumes "store_frame own h0 h"
  shows "tt_expire (h_store h p) = tt_expire (h_store h0 p)"
    and "tt_tq (h_store h p) = tt_tq (h_store h0 p)"
    and "tt_canceled (h_store h p) = tt_canceled (h_store h0 p)"
    and "tt_repeat (h_store h p) = tt_repeat (h_store h0 p)"
    and "tt_cb (h_store h p) = tt_cb (h_store h0 p)"
    and "tt_interval (h_store h p) = tt_interval (h_store h0 p)"
proof -
  have "(h_store h p)\<lparr>tt_index := 0\<rparr> = (h_store h0 p)\<lparr>tt_index := 0\<rparr>"
    using assms by (simp add: store_frame_def)
  then show "tt_expire (h_store h p) = tt_expire (h_store h0 p)"
    "tt_tq (h_store h p) = tt_tq (h_store h0 p)"
    "tt_canceled (h_store h p) = tt_canceled (h_store h0 p)"
    "tt_repeat (h_store h p) = tt_repeat (h_store h0 p)"
    "tt_cb (h_store h p) = tt_cb (h_store h0 p)"
    "tt_interval (h_store h p) = tt_interval (h_store h0 p)"
    by (cases "h_store h p"; cases "h_store h0 p"; simp)+
qed

lemma swap_list_mem:
  "i < length xs \<Longrightarrow> j < length xs \<Longrightarrow> k < length xs \<Longrightarrow> swap_list i j xs ! k \<in> set xs"
  by (simp add: nth_swap_list)

lemma index_coherent_Swap:
  assumes "index_coherent own h" and "i < length (heap_view h)" and "j < length (heap_view h)"
  shows "index_coherent own (Swap i j h)" and "store_frame own h (Swap i j h)"
proof -
  let ?ts = "swap_list i j (h_tasks h)"
  have ij: "i < length (h_tasks h)" "j < length (h_tasks h)"
    using assms(2,3) by auto
  have d: "distinct ?ts"
    using ij index_coherent_distinct [OF assms(1)] by simp
  have mem: "?ts ! i \<in> set (h_tasks h)" "?ts ! j \<in> set (h_tasks h)"
    using ij by (auto intro: swap_list_mem)
  have idx: "tt_index (h_store (Swap i j h) p) =
      (if p = ?ts ! j then int j else if p = ?ts ! i then int i else tt_index (h_store h p))" for p
    by (simp add: Swap_def Let_def)
  have "tt_index (task_at (Swap i j h) k) = int k" if k: "k < length (h_tasks h)" for k
  proof -
    have "?ts ! k = ?ts ! j \<longleftrightarrow> k = j" "?ts ! k = ?ts ! i \<longleftrightarrow> k = i"
      using nth_eq_iff_index_eq [OF d, of k] k ij by (simp_all only: length_list_update)
    then have "tt_index (task_at (Swap i j h) k) =
        (if k = j then int j else if k = i then int i else tt_index (h_store h (?ts ! k)))"
      unfolding task_at_def h_tasks_Swap idx by (simp only:)
    also have "\<dots> = int k"
      using k ij assms(1) by (auto simp: index_coherent_def task_at_def nth_swap_list)
    finally show ?thesis .
  qed
  moreover have "tt_index (h_store (Swap i j h) p) = tt_index (h_store h p)"
    if "p \<notin> set (h_tasks h)" for p
    using that mem unfolding idx by metis
  moreover have "set ?ts = set (h_tasks h)"
    using ij by simp
  ultimately show "index_coherent own (Swap i j h)"
    using assms(1) by (auto simp: index_coherent_def)
  have "?ts ! i \<in> own" "?ts ! j \<in> own"
    using mem assms(1) by (auto simp: index_coherent_def)
  then show "store_frame own h (Swap i j h)"
    using ij by (auto simp: Swap_def Let_def store_frame_def set_index_def)
qed

text \<open>The interpretation: the positions and the frame are what \<open>up\<close> and \<open>down\<close> keep.\<close>

definition coherent_from :: "timer_ptr set \<Rightarrow> timerTaskHeap \<Rightarrow> timerTaskHeap \<Rightarrow> bool" where
  "coherent_from own h0 h \<longleftrightarrow> index_coherent own h \<and> store_frame own h0 h"

interpretation th: heap_interface Less Swap heap_view "coherent_from own h0" for own h0
proof unfold_locales
  fix i j h
  assume "i < length (heap_view h)" "j < length (heap_view h)"
  then show "Less i j h \<longleftrightarrow> fst (heap_view h ! i) < fst (heap_view h ! j) \<or>
      fst (heap_view h ! i) = fst (heap_view h ! j) \<and> i < j"
    by (auto simp: Less_def heap_view_def task_at_def)
next
  fix i j h
  assume "coherent_from own h0 h" "i < length (heap_view h)" "j < length (heap_view h)"
  then show "coherent_from own h0 (Swap i j h)"
    using index_coherent_Swap [of own h i j] store_frame_trans
    by (auto simp: coherent_from_def)
qed (rule view_Swap)

section \<open>Correctness of the operations\<close>

text \<open>The invariant of the timer queue's heap.\<close>

definition heap_ok :: "timer_ptr set \<Rightarrow> timerTaskHeap \<Rightarrow> bool" where
  "heap_ok own h \<longleftrightarrow> index_coherent own h \<and> heap_order (Len h) (map fst (heap_view h))"

lemma heap_ok_empty: "(\<And>p. p \<in> own \<Longrightarrow> tt_index (h_store h p) = -1) \<Longrightarrow> h_tasks h = [] \<Longrightarrow> heap_ok own h"
  by (simp add: heap_ok_def index_coherent_def heap_order_def Len_def)

lemma heap_ok_distinct: "heap_ok own h \<Longrightarrow> distinct (h_tasks h)"
  by (auto simp: heap_ok_def dest: index_coherent_distinct)

lemma heap_ok_index:
  assumes "heap_ok own h" and "p \<in> own" and "0 \<le> tt_index (h_store h p)"
  shows "nat (tt_index (h_store h p)) < length (h_tasks h)"
    and "h_tasks h ! nat (tt_index (h_store h p)) = p"
proof -
  have "p \<in> set (h_tasks h)"
    using assms by (force simp: heap_ok_def index_coherent_def)
  then obtain i where "i < length (h_tasks h)" "h_tasks h ! i = p"
    by (auto simp: in_set_conv_nth)
  moreover from this have "tt_index (h_store h p) = int i"
    using assms(1) by (auto simp: heap_ok_def index_coherent_def task_at_def)
  ultimately show "nat (tt_index (h_store h p)) < length (h_tasks h)"
      "h_tasks h ! nat (tt_index (h_store h p)) = p"
    by auto
qed

lemma keys_nth: "i < length (h_tasks h) \<Longrightarrow>
    map fst (heap_view h) ! i = tt_expire (h_store h (h_tasks h ! i))"
  by (simp add: heap_view_def)

text \<open>The top is a task with the least expiration time.\<close>

lemma heap_ok_top:
  assumes "heap_ok own h" and "p \<in> set (h_tasks h)"
  shows "tt_expire (h_store h (hd (h_tasks h))) \<le> tt_expire (h_store h p)"
proof -
  obtain i where i: "i < length (h_tasks h)" "h_tasks h ! i = p"
    using assms(2) by (auto simp: in_set_conv_nth)
  then have "map fst (heap_view h) ! 0 \<le> map fst (heap_view h) ! i"
    using assms(1) by (intro heap_order_min [of "Len h"]) (auto simp: heap_ok_def Len_def)
  moreover have ne: "0 < length (h_tasks h)"
    using i by linarith
  ultimately show ?thesis
    unfolding keys_nth [OF ne] keys_nth [OF i(1)] i(2) using ne by (simp add: hd_conv_nth)
qed

lemma mset_tasks: "mset (heap_view h') = mset (heap_view h) \<Longrightarrow> mset (h_tasks h') = mset (h_tasks h)"
  by (metis map_snd_heap_view mset_map)

lemma heap_Push_correct:
  assumes "heap_ok own h" and "x \<in> own" and "x \<notin> set (h_tasks h)"
  shows "heap_ok own (heap_Push x h)" and "store_frame own h (heap_Push x h)"
    and "mset (h_tasks (heap_Push x h)) = add_mset x (mset (h_tasks h))"
proof -
  let ?h = "Push x h" and ?n = "Suc (length (h_tasks h))"
  have tasks: "h_tasks ?h = h_tasks h @ [x]"
    by (simp add: Push_def)
  have frame: "store_frame own h ?h"
    using assms(2) by (auto simp: Push_def Let_def store_frame_def set_index_def)
  have "heap_view ?h = heap_view h @ [(tt_expire (h_store h x), x)]"
    by (simp add: Push_def Let_def heap_view_def)
  then have "order_but_up (length (h_tasks h)) ?n (map fst (heap_view ?h))"
    using assms(1) heap_order_snoc [of "Len h" "map fst (heap_view h)"]
    by (simp add: heap_ok_def Len_def)
  moreover have "index_coherent own ?h"
    using assms
    by (auto simp: heap_ok_def index_coherent_def Push_def Let_def task_at_def nth_append
        less_Suc_eq)
  ultimately have "heap_order ?n (map fst (heap_view (heap_Push x h))) \<and>
      th.same_elements own h ?n ?h (heap_Push x h)"
    using th.up_correct [of "length (h_tasks h)" ?n ?h own h]
    by (simp add: heap_Push_def Let_def Len_def tasks)
  then show "heap_ok own (heap_Push x h)" "store_frame own h (heap_Push x h)"
    and "mset (h_tasks (heap_Push x h)) = add_mset x (mset (h_tasks h))"
    using \<open>index_coherent own ?h\<close> frame mset_tasks [of "heap_Push x h" ?h]
    by (auto simp: th.same_elements_def coherent_from_def heap_ok_def Len_def tasks)
qed

text \<open>
  Dropping the last element of a slice whose first positions are in order: the common end of
  \<open>heap.Pop\<close> and \<open>heap.Remove\<close>.
\<close>

lemma Pop_correct:
  assumes "index_coherent own h" and "h_tasks h \<noteq> []"
    and "heap_order (Len h - 1) (map fst (heap_view h))"
  shows "wp no_panic Pop (\<lambda>x h'. x = last (h_tasks h) \<and> heap_ok own h' \<and>
    h_tasks h' = butlast (h_tasks h) \<and> store_frame own h h') h"
proof -
  obtain ys x where ts: "h_tasks h = ys @ [x]"
    using assms(2) by (cases "h_tasks h" rule: rev_exhaust) auto
  define h' where "h' = (set_index x (- 1) h)\<lparr>h_tasks := ys\<rparr>"
  have pop: "Pop h = Inr (x, h')"
    by (simp add: Pop_def ts h'_def Let_def)
  have x: "x \<notin> set ys" "x \<in> own"
    using index_coherent_distinct [OF assms(1)] assms(1) by (auto simp: ts index_coherent_def)
  have "heap_view h = heap_view h' @ [(tt_expire (h_store h x), x)]"
    by (simp add: heap_view_def ts h'_def)
  then have "heap_order (length ys) (map fst (heap_view h'))"
    using assms(3) by (simp add: Len_def ts h'_def heap_order_append)
  moreover have "tt_index (task_at h' i) = int i" if "i < length ys" for i
    using that assms(1) x nth_mem [OF that]
    by (auto simp: index_coherent_def task_at_def ts h'_def nth_append dest: spec [of _ i])
  then have "index_coherent own h'"
    using assms(1) x by (auto simp: index_coherent_def ts h'_def)
  ultimately have "heap_ok own h'"
    by (simp add: heap_ok_def Len_def h'_def)
  then show ?thesis
    using x by (simp add: wp_eq [where m = Pop, OF pop] ts h'_def store_frame_set_index)
qed

text \<open>
  The common shape of \<open>heap.Pop\<close> and \<open>heap.Remove\<close>: the element to remove is swapped to the
  end, the order of the rest is repaired, and \<open>Pop\<close> drops the end.
\<close>

lemma Pop_after_swap:
  assumes "heap_ok own h" and "length (h_tasks h) = Suc n" and "i \<le> n"
    and "th.same_elements own h n (Swap i n h) h1" and "heap_order n (map fst (heap_view h1))"
  shows "wp no_panic Pop (\<lambda>x h'. x = h_tasks h ! i \<and> heap_ok own h' \<and>
    mset (h_tasks h) = add_mset x (mset (h_tasks h')) \<and> store_frame own h h') h1"
proof -
  let ?s = "Swap i n h"
  have "coherent_from own h ?s"
    using assms index_coherent_Swap [of own h i n] by (auto simp: coherent_from_def heap_ok_def)
  then have tasks: "mset (h_tasks h1) = mset (h_tasks ?s)" "length (h_tasks h1) = Suc n"
    and last: "drop n (heap_view h1) = drop n (heap_view ?s)" and co: "coherent_from own h h1"
    using assms mset_tasks [of h1 ?s] by (auto simp: th.same_elements_def)
  have ne: "h_tasks h1 \<noteq> []"
    using tasks(2) by auto
  have "drop n (h_tasks h1) = drop n (h_tasks ?s)"
    using arg_cong [OF last, of "map snd"] by (simp add: drop_map [symmetric] del: h_tasks_Swap)
  also have "\<dots> = [h_tasks ?s ! n]"
    using assms(2) by (subst Cons_nth_drop_Suc [symmetric]) auto
  also have "\<dots> = [h_tasks h ! i]"
    using assms by (simp add: nth_list_update)
  finally have x: "last (h_tasks h1) = h_tasks h ! i"
    using last_drop [of n "h_tasks h1"] tasks(2) by simp
  have "mset (h_tasks h1) = mset (h_tasks h)"
    using tasks(1) assms by (simp add: mset_swap)
  moreover have "mset (h_tasks h1) = add_mset (last (h_tasks h1)) (mset (butlast (h_tasks h1)))"
    using ne by (cases "h_tasks h1" rule: rev_exhaust) auto
  moreover have "wp no_panic Pop (\<lambda>x h'. x = last (h_tasks h1) \<and> heap_ok own h' \<and>
      h_tasks h' = butlast (h_tasks h1) \<and> store_frame own h1 h') h1"
    using assms(5) co tasks(2) ne by (intro Pop_correct) (auto simp: coherent_from_def Len_def)
  moreover have "store_frame own h h1"
    using co by (simp add: coherent_from_def)
  ultimately show ?thesis
    using x by (auto simp: wp_returns intro: store_frame_trans)
qed

lemma heap_ok_keys:
  "heap_ok own h \<Longrightarrow> length (h_tasks h) = Suc n \<Longrightarrow> i < n \<Longrightarrow>
   order_but i n (map fst (heap_view (Swap i n h)))"
  using order_but_swap_last [of n "map fst (heap_view h)" i] th.keys_swap [of i h n]
  by (simp add: heap_ok_def Len_def)

text \<open>\<open>heap.Pop\<close> removes the first element of the slice, and everything else stays.\<close>

lemma heap_Pop_correct:
  assumes "heap_ok own h" and "h_tasks h \<noteq> []"
  shows "wp no_panic heap_Pop (\<lambda>x h'. x = hd (h_tasks h) \<and> heap_ok own h' \<and>
    mset (h_tasks h) = add_mset x (mset (h_tasks h')) \<and> store_frame own h h') h"
proof -
  obtain n where n: "length (h_tasks h) = Suc n"
    using assms(2) by (cases "h_tasks h") auto
  obtain h1 r where d: "heap_down Less Swap 0 n (Swap 0 n h) = (h1, r)"
    by (cases "heap_down Less Swap 0 n (Swap 0 n h)")
  have "th.same_elements own h n (Swap 0 n h) h1 \<and> heap_order n (map fst (heap_view h1))"
  proof (cases "0 < n")
    case True
    then show ?thesis
      using d n order_but_top [OF heap_ok_keys [OF assms(1) n True]]
      by (intro th.down_correct_top [where h' = h1 and r = r]) auto
  next
    case False
    then show ?thesis
      using d by (auto simp: heap_down.simps [of Less Swap 0 0] heap_order_def Let_def)
  qed
  then have "wp no_panic Pop (\<lambda>x h'. x = h_tasks h ! 0 \<and> heap_ok own h' \<and>
      mset (h_tasks h) = add_mset x (mset (h_tasks h')) \<and> store_frame own h h') h1"
    using assms n by (intro Pop_after_swap [of own h n]) auto
  moreover have "heap_Pop h = Pop h1"
    using d n by (simp add: heap_Pop_def Len_def Let_def)
  ultimately show ?thesis
    using assms(2) by (simp add: wp_def hd_conv_nth)
qed

text \<open>\<open>heap.Remove\<close> removes the element at the given position.\<close>

lemma heap_Remove_correct:
  assumes "heap_ok own h" and "i < length (h_tasks h)"
  shows "wp no_panic (heap_Remove (int i)) (\<lambda>x h'. x = h_tasks h ! i \<and> heap_ok own h' \<and>
    mset (h_tasks h) = add_mset x (mset (h_tasks h')) \<and> store_frame own h h') h"
proof -
  obtain n where n: "length (h_tasks h) = Suc n"
    using assms(2) by (cases "h_tasks h") auto
  show ?thesis
  proof (cases "i = n")
    case True
    have "heap_order n (map fst (heap_view h))" "h_tasks h \<noteq> []"
      using assms n by (auto simp: heap_ok_def heap_order_def Len_def)
    moreover have "mset (h_tasks h) = add_mset (last (h_tasks h)) (mset (butlast (h_tasks h)))"
      using \<open>h_tasks h \<noteq> []\<close> by (cases "h_tasks h" rule: rev_exhaust) auto
    ultimately show ?thesis
      using Pop_correct [of own h] assms n True
      by (auto simp: heap_Remove_def wp_def Len_def heap_ok_def last_conv_nth Let_def
          split: sum.splits)
  next
    case False
    then have i: "i < n"
      using assms n by simp
    obtain h1 r where d: "heap_down Less Swap i n (Swap i n h) = (h1, r)"
      by (cases "heap_down Less Swap i n (Swap i n h)")
    define h2 where "h2 = (if \<not> r > i then heap_up Less Swap i h1 else h1)"
    have 1: "th.same_elements own h n (Swap i n h) h1 \<and> i \<le> r \<and>
        (if r = i then h1 = Swap i n h \<and> children_ok i n (map fst (heap_view (Swap i n h)))
         else heap_order n (map fst (heap_view h1)))"
      using i n d heap_ok_keys [OF assms(1) n i]
      by (intro th.down_correct) auto
    have "th.same_elements own h n (Swap i n h) h2 \<and> heap_order n (map fst (heap_view h2))"
    proof (cases "r = i")
      case True
      then have "order_but_up i n (map fst (heap_view h1))"
        using 1 order_but_still [OF heap_ok_keys [OF assms(1) n i]] by simp
      then show ?thesis
        using True 1 i n th.up_correct [of i n h1 own h] by (simp add: h2_def)
    qed (use 1 in \<open>auto simp: h2_def\<close>)
    then have "wp no_panic Pop (\<lambda>x h'. x = h_tasks h ! i \<and> heap_ok own h' \<and>
        mset (h_tasks h) = add_mset x (mset (h_tasks h')) \<and> store_frame own h h') h2"
      using assms n i by (intro Pop_after_swap [of own h n]) auto
    moreover have "heap_Remove (int i) h = Pop h2"
      using d i n by (simp add: heap_Remove_def Len_def Let_def h2_def)
    ultimately show ?thesis
      by (simp add: wp_def)
  qed
qed

section \<open>Taking the expired tasks\<close>

lemma length_heap_down [simp]:
  "length (h_tasks (fst (heap_down Less Swap i n h))) = length (h_tasks h)"
proof (induction "n - i" arbitrary: i h rule: less_induct)
  case less
  let ?c = "smaller_child Less i n h"
  have "i < ?c"
    by (auto simp: smaller_child_def Let_def)
  then show ?case
    using less [of ?c "Swap i ?c h"] by (subst heap_down.simps) (auto simp: Let_def)
qed

lemma heap_Pop_shrinks: "heap_Pop h = Inr (x, h') \<Longrightarrow> length (h_tasks h') < length (h_tasks h)"
  by (auto simp: heap_Pop_def Pop_def Let_def Len_def split: if_splits)

text \<open>The loop of \<open>getAndRemoveExpired\<close>; each round takes one task off the heap.\<close>

function getAndRemoveExpired :: "time \<Rightarrow> (timerTaskHeap, timer_ptr list) go" where
  "getAndRemoveExpired t h =
     (if Len h = 0 then Inr ([], h)
      else case Top h of Inl e \<Rightarrow> Inl e
      | Inr (pop, _) \<Rightarrow>
          if tt_expire (h_store h pop) < t \<or> tt_expire (h_store h pop) = t
          then case heap_Pop h of Inl e \<Rightarrow> Inl e
            | Inr (tmp, h1) \<Rightarrow>
                if tmp \<noteq> pop then Inl (AssertFailed ''t == pop'')
                else case getAndRemoveExpired t h1 of Inl e \<Rightarrow> Inl e
                  | Inr (ret, h2) \<Rightarrow> Inr (pop # ret, h2)
          else Inr ([], h))"
  by pat_completeness auto
termination
  by (relation "measure (\<lambda>(t, h). length (h_tasks h))") (auto dest: heap_Pop_shrinks)

declare getAndRemoveExpired.simps [simp del]

text \<open>What \<open>getAndRemoveExpired\<close> hands out and what it leaves.\<close>

definition expired_split :: "timer_ptr set \<Rightarrow> time \<Rightarrow> timerTaskHeap \<Rightarrow> timer_ptr list \<Rightarrow>
    timerTaskHeap \<Rightarrow> bool" where
  "expired_split own t h ret h' \<longleftrightarrow>
     heap_ok own h' \<and> store_frame own h h' \<and>
     mset (h_tasks h) = mset ret + mset (h_tasks h') \<and>
     sorted (map (\<lambda>p. tt_expire (h_store h p)) ret) \<and>
     (\<forall>p \<in> set ret. tt_expire (h_store h p) \<le> t) \<and>
     (\<forall>p \<in> set (h_tasks h'). t < tt_expire (h_store h p))"

lemma expired_split_Nil:
  assumes "heap_ok own h" and "h_tasks h = [] \<or> t < tt_expire (h_store h (hd (h_tasks h)))"
  shows "expired_split own t h [] h"
  using assms heap_ok_top [OF assms(1)] by (fastforce simp: expired_split_def)

lemma expired_split_Cons:
  assumes "heap_ok own h" and "x = hd (h_tasks h)" and "tt_expire (h_store h x) \<le> t"
    and "mset (h_tasks h) = add_mset x (mset (h_tasks h1))" and "store_frame own h h1"
    and "expired_split own t h1 ret h'"
  shows "expired_split own t h (x # ret) h'"
proof -
  have e: "tt_expire (h_store h1 p) = tt_expire (h_store h p)" for p
    using assms(5) by (rule store_frame_fields)
  have "tt_expire (h_store h x) \<le> tt_expire (h_store h p)" if "p \<in> set ret" for p
  proof -
    have "p \<in># mset (h_tasks h)"
      using that assms(4,6) by (simp add: expired_split_def)
    then show ?thesis
      using heap_ok_top [OF assms(1), of p] assms(2) by simp
  qed
  then show ?thesis
    using assms store_frame_trans [OF assms(5)] by (auto simp: expired_split_def e)
qed

lemma getAndRemoveExpired_correct:
  "heap_ok own h \<Longrightarrow>
   \<exists>ret h'. getAndRemoveExpired t h = Inr (ret, h') \<and> expired_split own t h ret h'"
proof (induction "length (h_tasks h)" arbitrary: h rule: less_induct)
  case less
  show ?case
  proof (cases "h_tasks h = [] \<or> t < tt_expire (h_store h (hd (h_tasks h)))")
    case True
    then have "getAndRemoveExpired t h = Inr ([], h)"
      by (cases "h_tasks h")
        (auto simp: getAndRemoveExpired.simps [of t h] Len_def Top_def go_defs)
    then show ?thesis
      using expired_split_Nil [OF less.prems True] by simp
  next
    case False
    then have ne: "h_tasks h \<noteq> []" and le: "tt_expire (h_store h (hd (h_tasks h))) \<le> t"
      by auto
    obtain h1 where h1: "heap_Pop h = Inr (hd (h_tasks h), h1)" "heap_ok own h1"
      "mset (h_tasks h) = add_mset (hd (h_tasks h)) (mset (h_tasks h1))" "store_frame own h h1"
      using heap_Pop_correct [OF less.prems ne] by (auto simp: wp_returns)
    obtain ret h2 where 2: "getAndRemoveExpired t h1 = Inr (ret, h2)" "expired_split own t h1 ret h2"
      using less.hyps [OF heap_Pop_shrinks [OF h1(1)] h1(2)] by blast
    have "getAndRemoveExpired t h = Inr (hd (h_tasks h) # ret, h2)"
      using ne le h1(1) 2(1)
      by (auto simp: getAndRemoveExpired.simps [of t h] Len_def Top_def go_defs hd_conv_nth)
    then show ?thesis
      using expired_split_Cons [OF less.prems refl le h1(3,4) 2(2)] by blast
  qed
qed

end
