(* ===== verification/Poller.thy ===== *)
theory Poller
  imports World
begin

text \<open>
  \<open>channel.go\<close>, \<open>poller.go\<close> and \<open>epoll.go\<close>: the channels, their registration with epoll and
  the dispatch of events. The kernel's interest list is a function of the system calls made
  so far (\<open>interest\<close>); the invariant \<open>poller_inv\<close> says that it is exactly what the channel
  map, the channel indices and the channel events say it is.
\<close>

section \<open>epoll.go\<close>

abbreviation POLLIN :: uint32 where "POLLIN \<equiv> 1"
abbreviation POLLPRI :: uint32 where "POLLPRI \<equiv> 2"
abbreviation POLLOUT :: uint32 where "POLLOUT \<equiv> 4"
abbreviation POLLERR :: uint32 where "POLLERR \<equiv> 8"
abbreviation POLLHUP :: uint32 where "POLLHUP \<equiv> 16"
abbreviation POLLNVAL :: uint32 where "POLLNVAL \<equiv> 32"
abbreviation POLLRDHUP :: uint32 where "POLLRDHUP \<equiv> 0x2000"
abbreviation EPOLLET :: uint32 where "EPOLLET \<equiv> 0x80000000"

text \<open>\<open>errnoErr\<close> boxes three common values once and the others on the spot.\<close>

definition errnoErr :: "errno \<Rightarrow> goerror" where
  "errnoErr e = (case e of
       EAGAIN \<Rightarrow> Errno EAGAIN
     | EINVAL \<Rightarrow> Errno EINVAL
     | ENOENT \<Rightarrow> Errno ENOENT
     | _ \<Rightarrow> Errno e)"

lemma errnoErr_eq [simp]: "errnoErr e = Errno e"
  by (cases e) (auto simp: errnoErr_def)

definition epollCtl :: "int \<Rightarrow> epoll_op \<Rightarrow> int \<Rightarrow> epollevent \<Rightarrow> (world, goerror option) go" where
  "epollCtl epfd op fd event =
     go_bind (sys (SysEpollCtl epfd op fd (ev_events event) (ev_data event))) (\<lambda>r.
     go_ret (map_option errnoErr (ret_err r)))"

text \<open>
  \<open>epollWait\<close> returns the count, the error and the events as the kernel stored them. The two
  system-call entry points it chooses from differ in the Go scheduler only.
\<close>

definition epollWait ::
  "int \<Rightarrow> nat \<Rightarrow> int \<Rightarrow> (world, int \<times> goerror option \<times> (uint32 \<times> nat) list) go" where
  "epollWait epfd maxevents msec =
     go_bind (sys (SysEpollWait epfd maxevents msec)) (\<lambda>r.
     go_ret (ret_n r, map_option errnoErr (ret_err r), ret_events r))"

section \<open>Channels\<close>

unbundle bit_operations_syntax

definition eventRead :: uint32 where "eventRead = POLLIN OR POLLPRI"
definition eventWrite :: uint32 where "eventWrite = POLLOUT"
definition eventNone :: uint32 where "eventNone = 0"

definition channelNew :: int where "channelNew = -1"
definition channelAdd :: int where "channelAdd = 1"
definition channelDel :: int where "channelDel = 2"

definition NewChannel :: "loop_ptr \<Rightarrow> int \<Rightarrow> (world, chan_ptr) go" where
  "NewChannel el fd = new_chan
     \<lparr>ch_ele = None, ch_el = el, ch_fd = fd, ch_events = eventNone, ch_revents = 0,
      ch_index = channelNew, ch_readCallback = None, ch_writeCallback = None,
      ch_errorCallback = None, ch_closeCallback = None, ch_evtHandling = False\<rparr>"

definition setReadCallback :: "chan_ptr \<Rightarrow> readCallback \<Rightarrow> (world, unit) go" where
  "setReadCallback c cb = upd_chan c (\<lambda>ch. ch\<lparr>ch_readCallback := Some cb\<rparr>)"

definition setWriteCallback :: "chan_ptr \<Rightarrow> eventCallback \<Rightarrow> (world, unit) go" where
  "setWriteCallback c cb = upd_chan c (\<lambda>ch. ch\<lparr>ch_writeCallback := Some cb\<rparr>)"

definition setErrorCallback :: "chan_ptr \<Rightarrow> eventCallback \<Rightarrow> (world, unit) go" where
  "setErrorCallback c cb = upd_chan c (\<lambda>ch. ch\<lparr>ch_errorCallback := Some cb\<rparr>)"

definition setCloseCallback :: "chan_ptr \<Rightarrow> eventCallback \<Rightarrow> (world, unit) go" where
  "setCloseCallback c cb = upd_chan c (\<lambda>ch. ch\<lparr>ch_closeCallback := Some cb\<rparr>)"

definition isWriting :: "channel \<Rightarrow> bool" where
  "isWriting ch \<longleftrightarrow> ch_events ch AND eventWrite \<noteq> 0"

definition IsNoneEvent :: "channel \<Rightarrow> bool" where
  "IsNoneEvent ch \<longleftrightarrow> ch_events ch = eventNone"

section \<open>The poller\<close>

text \<open>The poller is the one of loop \<open>el\<close>; \<open>p.el\<close> is the way back to that loop.\<close>

abbreviation poller_of :: "loop_ptr \<Rightarrow> world \<Rightarrow> poller" where
  "poller_of el w \<equiv> el_poller (loops w el)"

definition upd_poller :: "loop_ptr \<Rightarrow> (poller \<Rightarrow> poller) \<Rightarrow> (world, unit) go" where
  "upd_poller el f = upd_loop el (\<lambda>l. l\<lparr>el_poller := f (el_poller l)\<rparr>)"

text \<open>\<open>newPoller\<close>: the error of \<open>epoll_create1\<close> is returned with a nil poller.\<close>

definition newPoller :: "(world, goerror + poller) go" where
  "newPoller = go_bind (sys SysEpollCreate1) (\<lambda>r. go_ret (case ret_err r of
       Some e \<Rightarrow> Inl (Errno e)
     | None \<Rightarrow> Inr \<lparr>po_epollFd = ret_n r,
                    po_eventList = replicate 16 \<lparr>ev_events = 0, ev_data = 0\<rparr>,
                    po_channelMap = (\<lambda>_. None)\<rparr>))"

definition update :: "loop_ptr \<Rightarrow> epoll_op \<Rightarrow> chan_ptr \<Rightarrow> (world, unit) go" where
  "update el op c =
     go_bind (go_gets (\<lambda>w. (poller_of el w, chans w c))) (\<lambda>(p, ch).
     go_bind (epollCtl (po_epollFd p) op (ch_fd ch) \<lparr>ev_events = ch_events ch, ev_data = c\<rparr>) (\<lambda>err.
     go_ret ()))"

definition updateChannel :: "loop_ptr \<Rightarrow> chan_ptr \<Rightarrow> (world, unit) go" where
  "updateChannel el c =
     go_bind (go_gets (\<lambda>w. (chans w c, po_channelMap (poller_of el w)))) (\<lambda>(ch, m).
     let idx = ch_index ch; fd = ch_fd ch in
     if idx = channelNew \<or> idx = channelDel then
       go_seq (if idx = channelNew
               then go_seq (Assert (m fd = None) ''channelMap should not have fd'')
                      (upd_poller el (\<lambda>p. p\<lparr>po_channelMap := (po_channelMap p)(fd := Some c)\<rparr>))
               else Assert (m fd = Some c) ''channelMap should have fd'') (
       go_seq (upd_chan c (\<lambda>ch. ch\<lparr>ch_index := channelAdd\<rparr>))
         (update el EPOLL_CTL_ADD c))
     else
       go_seq (Assert (m fd = Some c) ''channelMap should have fd'') (
       go_seq (Assert (idx = channelAdd) ''channel index should be channelAdd'')
         (if IsNoneEvent ch
          then go_seq (update el EPOLL_CTL_DEL c)
                 (upd_chan c (\<lambda>ch. ch\<lparr>ch_index := channelDel\<rparr>))
          else update el EPOLL_CTL_MOD c)))"

definition removeChannel :: "loop_ptr \<Rightarrow> chan_ptr \<Rightarrow> (world, unit) go" where
  "removeChannel el c =
     go_bind (go_gets (\<lambda>w. (chans w c, po_channelMap (poller_of el w)))) (\<lambda>(ch, m).
     let idx = ch_index ch; fd = ch_fd ch in
     go_seq (Assert (m fd = Some c) ''channelMap should have fd'') (
     go_seq (Assert (idx = channelAdd \<or> idx = channelDel)
               ''channel index should be channelAdd or channelDel'') (
     go_seq (upd_poller el (\<lambda>p. p\<lparr>po_channelMap := (po_channelMap p)(fd := None)\<rparr>)) (
     go_seq (go_when (idx = channelAdd) (update el EPOLL_CTL_DEL c))
       (upd_chan c (\<lambda>ch. ch\<lparr>ch_index := channelNew\<rparr>))))))"

text \<open>\<open>channel.update\<close> goes through \<open>el.updateChannel\<close>.\<close>

definition chan_update :: "chan_ptr \<Rightarrow> (world, unit) go" where
  "chan_update c = go_bind (go_gets (\<lambda>w. ch_el (chans w c))) (\<lambda>el. updateChannel el c)"

definition enableReading :: "chan_ptr \<Rightarrow> (world, unit) go" where
  "enableReading c =
     go_seq (upd_chan c (\<lambda>ch. ch\<lparr>ch_events := ch_events ch OR eventRead\<rparr>)) (chan_update c)"

definition disableAll :: "chan_ptr \<Rightarrow> (world, unit) go" where
  "disableAll c = go_seq (upd_chan c (\<lambda>ch. ch\<lparr>ch_events := eventNone\<rparr>)) (chan_update c)"

definition disableWriting :: "chan_ptr \<Rightarrow> (world, unit) go" where
  "disableWriting c =
     go_seq (upd_chan c (\<lambda>ch. ch\<lparr>ch_events := ch_events ch AND NOT eventWrite\<rparr>)) (chan_update c)"

definition enableWriting :: "chan_ptr \<Rightarrow> (world, unit) go" where
  "enableWriting c =
     go_seq (upd_chan c (\<lambda>ch. ch\<lparr>ch_events := ch_events ch OR eventWrite\<rparr>)) (chan_update c)"

text \<open>
  \<open>fillActiveChannels\<close> reads the pointers back out of the event list. \<open>PushBack\<close> returns the
  new element, here its position.
\<close>

definition fillActiveChannels :: "loop_ptr \<Rightarrow> int \<Rightarrow> (world, unit) go" where
  "fillActiveChannels el numEvents =
     go_bind (go_gets (\<lambda>w. po_eventList (poller_of el w))) (\<lambda>evs.
     go_seq (Assert (numEvents \<le> int (length evs))
               ''numEvents should not be greater than len(p.eventList)'')
       (go_for (take (nat numEvents) evs) (\<lambda>ev.
          go_seq (upd_chan (ev_data ev) (\<lambda>ch. ch\<lparr>ch_revents := ev_events ev\<rparr>)) (
          go_bind (go_gets (\<lambda>w. length (el_activeChannels (loops w el)))) (\<lambda>ele.
          go_seq (upd_loop el (\<lambda>l. l\<lparr>el_activeChannels := el_activeChannels l @ [ev_data ev]\<rparr>))
            (upd_chan (ev_data ev) (\<lambda>ch. ch\<lparr>ch_ele := Some ele\<rparr>)))))))"

definition poll :: "loop_ptr \<Rightarrow> int \<Rightarrow> (world, time) go" where
  "poll el timeoutMills =
     go_bind (go_gets (poller_of el)) (\<lambda>p.
     go_bind (epollWait (po_epollFd p) (length (po_eventList p)) timeoutMills) (\<lambda>(numEvents, err, evs).
     go_seq (upd_poller el (\<lambda>p. p\<lparr>po_eventList :=
               copy_at 0 (map (\<lambda>(e, c). \<lparr>ev_events = e, ev_data = c\<rparr>) evs) (po_eventList p)\<rparr>)) (
     go_bind (sys SysNow) (\<lambda>r.
     let now = ret_n r in
     if numEvents = 0 \<or> numEvents < 0 \<and> err = Some (Errno EINTR) then go_ret now
     else if err \<noteq> None then go_ret now
     else
       go_seq (go_when (numEvents > 0)
         (go_seq (fillActiveChannels el numEvents)
            (go_when (numEvents = int (length (po_eventList p)))
               (upd_poller el (\<lambda>p. p\<lparr>po_eventList :=
                  replicate (length (po_eventList p) * 2) \<lparr>ev_events = 0, ev_data = 0\<rparr>\<rparr>)))))
         (go_ret now)))))"

text \<open>
  \<open>handleEvent\<close>: the callbacks of a channel, in the order of the source. \<open>rcb\<close> and \<open>ecb\<close> run a
  stored function value. A callback may replace a later one, so each field is read when its
  turn comes.
\<close>

definition call_event :: "(eventCallback \<Rightarrow> (world, unit) go) \<Rightarrow> chan_ptr \<Rightarrow>
    (channel \<Rightarrow> eventCallback option) \<Rightarrow> (world, unit) go" where
  "call_event ecb c sel =
     go_bind (go_gets (\<lambda>w. sel (chans w c))) (\<lambda>cb.
     case cb of None \<Rightarrow> go_ret () | Some f \<Rightarrow> ecb f)"

definition call_read :: "(readCallback \<Rightarrow> time \<Rightarrow> (world, unit) go) \<Rightarrow> chan_ptr \<Rightarrow> time \<Rightarrow>
    (world, unit) go" where
  "call_read rcb c ts =
     go_bind (go_gets (\<lambda>w. ch_readCallback (chans w c))) (\<lambda>cb.
     case cb of None \<Rightarrow> go_ret () | Some f \<Rightarrow> rcb f ts)"

definition on_revents :: "chan_ptr \<Rightarrow> (uint32 \<Rightarrow> bool) \<Rightarrow> (world, unit) go \<Rightarrow> (world, unit) go" where
  "on_revents c g m = go_bind (go_gets (\<lambda>w. ch_revents (chans w c))) (\<lambda>rev. go_when (g rev) m)"

definition handleEvent ::
  "(readCallback \<Rightarrow> time \<Rightarrow> (world, unit) go) \<Rightarrow> (eventCallback \<Rightarrow> (world, unit) go) \<Rightarrow>
   chan_ptr \<Rightarrow> time \<Rightarrow> (world, unit) go" where
  "handleEvent rcb ecb c ts =
     go_seq (upd_chan c (\<lambda>ch. ch\<lparr>ch_evtHandling := True\<rparr>)) (
     go_seq (on_revents c (\<lambda>rev. rev AND POLLHUP \<noteq> 0 \<and> rev AND POLLIN = 0)
               (call_event ecb c ch_closeCallback)) (
     go_seq (on_revents c (\<lambda>rev. rev AND (POLLERR OR POLLNVAL) \<noteq> 0)
               (call_event ecb c ch_errorCallback)) (
     go_seq (on_revents c (\<lambda>rev. rev AND (POLLIN OR POLLPRI OR POLLRDHUP) \<noteq> 0)
               (call_read rcb c ts)) (
     go_seq (on_revents c (\<lambda>rev. rev AND POLLOUT \<noteq> 0)
               (call_event ecb c ch_writeCallback))
       (upd_chan c (\<lambda>ch. ch\<lparr>ch_evtHandling := False\<rparr>))))))"

text \<open>\<open>events2String\<close> describes an event mask for the log.\<close>

definition events2String :: "int \<Rightarrow> uint32 \<Rightarrow> string" where
  "events2String fd events =
     ''fd = '' @ Itoa fd @ '' EVENT: '' @
     (if events AND POLLIN \<noteq> 0 then ''IN '' else []) @
     (if events AND POLLPRI \<noteq> 0 then ''PRI '' else []) @
     (if events AND POLLOUT \<noteq> 0 then ''OUT '' else []) @
     (if events AND POLLHUP \<noteq> 0 then ''HUP '' else []) @
     (if events AND POLLRDHUP \<noteq> 0 then ''RDHUP '' else []) @
     (if events AND POLLERR \<noteq> 0 then ''ERR '' else []) @
     (if events AND EPOLLET \<noteq> 0 then ''ET '' else [])"

section \<open>The kernel side\<close>

text \<open>
  What epoll instance \<open>epfd\<close> watches for descriptor \<open>fd\<close> after a sequence of calls: the
  events and the pointer of the last successful add or modification. Deleting the entry and
  closing the descriptor remove it, and a new epoll instance watches nothing.
\<close>

fun interest_step :: "syscall \<times> sysret \<Rightarrow> (int \<Rightarrow> int \<Rightarrow> (uint32 \<times> chan_ptr) option) \<Rightarrow>
    (int \<Rightarrow> int \<Rightarrow> (uint32 \<times> chan_ptr) option)" where
  "interest_step (SysEpollCtl ep op f ev c, r) m =
     (if ret_err r \<noteq> None then m
      else m(ep := (m ep)(f := if op = EPOLL_CTL_DEL then None else Some (ev, c))))"
| "interest_step (SysClose f, r) m =
     (if ret_err r \<noteq> None then m else (\<lambda>ep. if ep = f then (\<lambda>_. None) else (m ep)(f := None)))"
| "interest_step (SysEpollCreate1, r) m =
     (if ret_err r \<noteq> None then m else m(ret_n r := (\<lambda>_. None)))"
| "interest_step _ m = m"

definition interest :: "trace \<Rightarrow> int \<Rightarrow> int \<Rightarrow> (uint32 \<times> chan_ptr) option" where
  "interest tr = fold interest_step tr (\<lambda>_ _. None)"

lemma interest_Nil [simp]: "interest [] = (\<lambda>_ _. None)"
  by (simp add: interest_def)

lemma interest_snoc [simp]: "interest (tr @ [x]) = interest_step x (interest tr)"
  by (simp add: interest_def)

lemma interest_append: "interest (tr @ ext) = fold interest_step ext (interest tr)"
  by (simp add: interest_def)

text \<open>
  The documented behaviour of \<open>epoll_ctl\<close> on open descriptors: adding fails exactly when the
  descriptor is already watched, modifying and deleting fail exactly when it is not. Errors
  with other causes (a closed descriptor, no memory, the limit on watches) are left out: the
  statements that assume this are about environments in which none of these occurs. On any
  error \<open>update\<close> only writes a log line, and the poller then believes in a watch that the
  kernel does not have.
\<close>

definition ctl_legal :: "(uint32 \<times> chan_ptr) option \<Rightarrow> epoll_op \<Rightarrow> bool" where
  "ctl_legal i op \<longleftrightarrow> (if op = EPOLL_CTL_ADD then i = None else i \<noteq> None)"

definition epoll_ctl_spec :: "(trace \<Rightarrow> syscall \<Rightarrow> sysret) \<Rightarrow> bool" where
  "epoll_ctl_spec e \<longleftrightarrow> (\<forall>tr ep op f ev c.
     ret_err (e tr (SysEpollCtl ep op f ev c)) =
       (if ctl_legal (interest tr ep f) op then None
        else Some (if op = EPOLL_CTL_ADD then EEXIST else ENOENT)))"

text \<open>Every call of \<open>epoll_ctl\<close> in a trace was legal when it was made.\<close>

definition legal_call :: "trace \<Rightarrow> syscall \<Rightarrow> bool" where
  "legal_call tr s = (case s of
       SysEpollCtl ep op f ev c \<Rightarrow> ctl_legal (interest tr ep f) op
     | _ \<Rightarrow> True)"

definition legal_trace :: "trace \<Rightarrow> bool" where
  "legal_trace tr \<longleftrightarrow> (\<forall>k < length tr. legal_call (take k tr) (fst (tr ! k)))"

lemma legal_trace_Nil [simp]: "legal_trace []"
  by (simp add: legal_trace_def)

lemma legal_trace_snoc [simp]: "legal_trace (tr @ [x]) \<longleftrightarrow> legal_trace tr \<and> legal_call tr (fst x)"
  by (auto simp: legal_trace_def less_Suc_eq nth_append)

text \<open>An extension of a trace by calls that do not touch any interest list.\<close>

definition inert :: "syscall \<Rightarrow> bool" where
  "inert s = (case s of SysEpollCtl _ _ _ _ _ \<Rightarrow> False | SysClose _ \<Rightarrow> False
     | SysEpollCreate1 \<Rightarrow> False | _ \<Rightarrow> True)"

definition inert_ext :: "trace \<Rightarrow> trace \<Rightarrow> bool" where
  "inert_ext tr tr' \<longleftrightarrow> (\<exists>ext. tr' = tr @ ext \<and> (\<forall>x \<in> set ext. inert (fst x)))"

lemma inert_ext_refl [simp]: "inert_ext tr tr"
  by (simp add: inert_ext_def)

lemma inert_ext_trans: "inert_ext a b \<Longrightarrow> inert_ext b c \<Longrightarrow> inert_ext a c"
  unfolding inert_ext_def by (metis Un_iff append.assoc set_append)

lemma inert_ext_snoc [simp]: "inert s \<Longrightarrow> inert_ext a b \<Longrightarrow> inert_ext a (b @ [(s, r)])"
  by (auto simp: inert_ext_def)

lemma inert_ext_append [simp]: "(\<forall>x \<in> set ext. inert (fst x)) \<Longrightarrow> inert_ext tr (tr @ ext)"
  by (auto simp: inert_ext_def)

lemma inert_step: "inert (fst x) \<Longrightarrow> interest_step x m = m" "inert (fst x) \<Longrightarrow> legal_call tr (fst x)"
  by (cases x; cases "fst x"; simp add: inert_def legal_call_def)+

lemma inert_fold: "\<forall>x \<in> set ext. inert (fst x) \<Longrightarrow> fold interest_step ext m = m"
  by (induction ext arbitrary: m) (simp_all add: inert_step)

lemma inert_ext_interest: "inert_ext tr tr' \<Longrightarrow> interest tr' = interest tr"
  by (auto simp: inert_ext_def interest_def inert_fold)

lemma inert_legal: "\<forall>x \<in> set ext. inert (fst x) \<Longrightarrow> legal_trace (tr @ ext) = legal_trace tr"
  by (induction ext rule: rev_induct) (simp_all add: inert_step flip: append_assoc)

lemma inert_ext_legal: "inert_ext tr tr' \<Longrightarrow> legal_trace tr' = legal_trace tr"
  by (auto simp: inert_ext_def inert_legal)

section \<open>The invariant\<close>

text \<open>The channels of loop \<open>el\<close>.\<close>

definition chans_of :: "loop_ptr \<Rightarrow> world \<Rightarrow> chan_ptr set" where
  "chans_of el w = {c. c < n_chans w \<and> ch_el (chans w c) = el}"

text \<open>What the poller believes the kernel watches for a descriptor.\<close>

definition believed :: "loop_ptr \<Rightarrow> world \<Rightarrow> int \<Rightarrow> (uint32 \<times> chan_ptr) option" where
  "believed el w fd = (case po_channelMap (poller_of el w) fd of
       None \<Rightarrow> None
     | Some c \<Rightarrow> if ch_index (chans w c) = channelAdd then Some (ch_events (chans w c), c) else None)"

definition poller_inv :: "loop_ptr \<Rightarrow> world \<Rightarrow> bool" where
  "poller_inv el w \<longleftrightarrow>
     (\<forall>fd c. po_channelMap (poller_of el w) fd = Some c \<longrightarrow>
        c \<in> chans_of el w \<and> ch_fd (chans w c) = fd \<and>
        ch_index (chans w c) \<in> {channelAdd, channelDel}) \<and>
     (\<forall>c \<in> chans_of el w. ch_index (chans w c) = channelNew \<or>
        po_channelMap (poller_of el w) (ch_fd (chans w c)) = Some c) \<and>
     (\<forall>fd. interest (trace w) (po_epollFd (poller_of el w)) fd = believed el w fd)"

text \<open>A channel may be registered: it is known to the map, or its descriptor is not.\<close>

definition chan_ready :: "loop_ptr \<Rightarrow> chan_ptr \<Rightarrow> world \<Rightarrow> bool" where
  "chan_ready el c w \<longleftrightarrow> c \<in> chans_of el w \<and>
     (ch_index (chans w c) = channelNew \<longrightarrow>
        po_channelMap (poller_of el w) (ch_fd (chans w c)) = None)"

lemmas index_consts = channelNew_def channelAdd_def channelDel_def

text \<open>What an operation of the poller leaves alone.\<close>

definition poller_frame :: "loop_ptr \<Rightarrow> chan_ptr \<Rightarrow> world \<Rightarrow> world \<Rightarrow> bool" where
  "poller_frame el c w w' \<longleftrightarrow>
     env w' = env w \<and> net w' = net w \<and> timers w' = timers w \<and> conns w' = conns w \<and>
     acceptors w' = acceptors w \<and> servers w' = servers w \<and> connectors w' = connectors w \<and>
     clients w' = clients w \<and> n_loops w' = n_loops w \<and> n_chans w' = n_chans w \<and> n_timers w' = n_timers w \<and>
     n_conns w' = n_conns w \<and>
     (\<forall>e. (loops w' e)\<lparr>el_poller := el_poller (loops w e)\<rparr> = loops w e) \<and>
     (\<forall>e. e \<noteq> el \<longrightarrow> loops w' e = loops w e) \<and>
     po_epollFd (poller_of el w') = po_epollFd (poller_of el w) \<and>
     po_eventList (poller_of el w') = po_eventList (poller_of el w) \<and>
     (\<forall>d. d \<noteq> c \<longrightarrow> chans w' d = chans w d) \<and>
     (chans w' c)\<lparr>ch_events := ch_events (chans w c), ch_index := ch_index (chans w c)\<rparr> = chans w c"

text \<open>The four operations that set the events of a channel are instances of one.\<close>

definition set_events :: "chan_ptr \<Rightarrow> (uint32 \<Rightarrow> uint32) \<Rightarrow> (world, unit) go" where
  "set_events c f =
     go_seq (upd_chan c (\<lambda>ch. ch\<lparr>ch_events := f (ch_events ch)\<rparr>)) (chan_update c)"

lemma set_events_instances:
  "enableReading c = set_events c (\<lambda>e. e OR eventRead)"
  "disableAll c = set_events c (\<lambda>_. eventNone)"
  "disableWriting c = set_events c (\<lambda>e. e AND NOT eventWrite)"
  "enableWriting c = set_events c (\<lambda>e. e OR eventWrite)"
  by (simp_all add: set_events_def enableReading_def disableAll_def disableWriting_def
      enableWriting_def)

lemma wp_update [simp]:
  "wp E (update el op c) Q w =
    (let p = poller_of el w; ch = chans w c;
         s = SysEpollCtl (po_epollFd p) op (ch_fd ch) (ch_events ch) c
     in Q () (w\<lparr>trace := trace w @ [(s, env w (trace w) s)]\<rparr>))"
  by (simp add: update_def epollCtl_def Let_def)

text \<open>The new registration state of a channel whose events were set to \<open>ev\<close>.\<close>

definition index_after :: "int \<Rightarrow> uint32 \<Rightarrow> int" where
  "index_after idx ev = (if idx = channelAdd \<and> ev = eventNone then channelDel else channelAdd)"

lemma set_events_frame:
  assumes "ch_el (chans w c) = el"
  shows "wp any_panic (set_events c f) (\<lambda>_. poller_frame el c w) w"
  using assms
  by (auto simp: set_events_def chan_update_def updateChannel_def upd_poller_def Let_def
      poller_frame_def)

lemma chan_index_cases:
  "poller_inv el w \<Longrightarrow> c \<in> chans_of el w \<Longrightarrow>
   ch_index (chans w c) = channelNew \<or>
   ch_index (chans w c) = channelAdd \<and> po_channelMap (poller_of el w) (ch_fd (chans w c)) = Some c \<or>
   ch_index (chans w c) = channelDel \<and> po_channelMap (poller_of el w) (ch_fd (chans w c)) = Some c"
  by (auto simp: poller_inv_def)

text \<open>
  The effect of setting events, in terms of the kernel: the descriptor is watched for the new
  events with this channel, unless it was watched and the new events are empty.
\<close>

definition registered :: "loop_ptr \<Rightarrow> chan_ptr \<Rightarrow> uint32 \<Rightarrow> world \<Rightarrow> world \<Rightarrow> bool" where
  "registered el c ev w w' \<longleftrightarrow>
     ch_events (chans w' c) = ev \<and>
     ch_index (chans w' c) = index_after (ch_index (chans w c)) ev \<and>
     interest (trace w') (po_epollFd (poller_of el w)) (ch_fd (chans w c)) =
       (if index_after (ch_index (chans w c)) ev = channelDel then None else Some (ev, c))"

text \<open>
  One registration changed: the invariant is kept if the new index of the channel, the new
  entry of the map and the kernel agree about its descriptor.
\<close>

lemma poller_inv_step:
  assumes "poller_inv el w" and "c \<in> chans_of el w" and "n_chans w' = n_chans w"
    and others: "\<And>d. d \<noteq> c \<Longrightarrow> chans w' d = chans w d"
    and same: "ch_el (chans w' c) = ch_el (chans w c)" "ch_fd (chans w' c) = ch_fd (chans w c)"
    and ep: "po_epollFd (poller_of el w') = po_epollFd (poller_of el w)"
    and map: "po_channelMap (poller_of el w') =
      (po_channelMap (poller_of el w))(ch_fd (chans w c) := m)"
    and mine: "po_channelMap (poller_of el w) (ch_fd (chans w c)) \<in> {None, Some c}"
    and new: "m = Some c \<and> ch_index (chans w' c) \<in> {channelAdd, channelDel} \<or>
      m = None \<and> ch_index (chans w' c) = channelNew"
    and kernel: "interest (trace w') (po_epollFd (poller_of el w)) =
      (interest (trace w) (po_epollFd (poller_of el w)))
        (ch_fd (chans w c) := believed el w' (ch_fd (chans w c)))"
  shows "poller_inv el w'"
proof -
  let ?fd = "ch_fd (chans w c)" and ?m = "po_channelMap (poller_of el w)"
  have of: "chans_of el w' = chans_of el w"
    using assms(3) others same by (auto simp: chans_of_def) (metis+)
  have ne: "?m (ch_fd (chans w d)) \<noteq> Some d \<or> ch_fd (chans w d) \<noteq> ?fd" if "d \<noteq> c" for d
    using mine that by auto
  have "d \<in> chans_of el w \<and> ch_fd (chans w' d) = fd \<and>
      ch_index (chans w' d) \<in> {channelAdd, channelDel}"
    if "po_channelMap (poller_of el w') fd = Some d" for fd d
  proof (cases "fd = ?fd")
    case True
    then show ?thesis
      using that new same(2) assms(2) by (auto simp: map)
  next
    case False
    then have "?m fd = Some d"
      using that by (simp add: map)
    then have "d \<in> chans_of el w" "ch_fd (chans w d) = fd"
        "ch_index (chans w d) \<in> {channelAdd, channelDel}"
      using assms(1) by (auto simp: poller_inv_def)
    then show ?thesis
      using False others [of d] by (cases "d = c") auto
  qed
  moreover have "ch_index (chans w' d) = channelNew \<or>
      po_channelMap (poller_of el w') (ch_fd (chans w' d)) = Some d"
    if "d \<in> chans_of el w" for d
  proof (cases "d = c")
    case True
    then show ?thesis
      using new same(2) by (auto simp: map)
  next
    case False
    then have "ch_index (chans w d) = channelNew \<or> ?m (ch_fd (chans w d)) = Some d"
      using that assms(1) by (auto simp: poller_inv_def)
    then show ?thesis
      using False others [of d] ne [of d] by (auto simp: map)
  qed
  moreover have "interest (trace w') (po_epollFd (poller_of el w)) fd = believed el w' fd" for fd
  proof (cases "fd = ?fd")
    case True
    then show ?thesis by (simp add: kernel)
  next
    case False
    have "?m fd \<noteq> Some c"
      using False assms(1) by (auto simp: poller_inv_def)
    then have "believed el w' fd = believed el w fd"
      using False others by (auto simp: believed_def map split: option.splits)
    then show ?thesis
      using False assms(1) by (simp add: kernel poller_inv_def)
  qed
  ultimately show ?thesis
    by (simp add: poller_inv_def of ep)
qed

text \<open>The three paths of \<open>updateChannel\<close>, as equations on the world.\<close>

definition ctl_call :: "loop_ptr \<Rightarrow> epoll_op \<Rightarrow> chan_ptr \<Rightarrow> uint32 \<Rightarrow> world \<Rightarrow> syscall" where
  "ctl_call el op c ev w = SysEpollCtl (po_epollFd (poller_of el w)) op (ch_fd (chans w c)) ev c"

definition after_ctl :: "loop_ptr \<Rightarrow> epoll_op \<Rightarrow> chan_ptr \<Rightarrow> uint32 \<Rightarrow> int \<Rightarrow> chan_ptr option \<Rightarrow>
    world \<Rightarrow> world" where
  "after_ctl el op c ev idx m w =
     w\<lparr>trace := trace w @ [(ctl_call el op c ev w, env w (trace w) (ctl_call el op c ev w))],
       chans := (chans w)(c := (chans w c)\<lparr>ch_events := ev, ch_index := idx\<rparr>),
       loops := (loops w)(el := (loops w el)\<lparr>el_poller := (poller_of el w)\<lparr>po_channelMap :=
         (po_channelMap (poller_of el w))(ch_fd (chans w c) := m)\<rparr>\<rparr>)\<rparr>"

lemma after_ctl_sel [simp]:
  "env (after_ctl el op c ev idx m w) = env w"
  "n_chans (after_ctl el op c ev idx m w) = n_chans w"
  "chans (after_ctl el op c ev idx m w) d =
     (if d = c then (chans w c)\<lparr>ch_events := ev, ch_index := idx\<rparr> else chans w d)"
  "po_epollFd (poller_of el (after_ctl el op c ev idx m w)) = po_epollFd (poller_of el w)"
  "po_channelMap (poller_of el (after_ctl el op c ev idx m w)) =
     (po_channelMap (poller_of el w))(ch_fd (chans w c) := m)"
  "trace (after_ctl el op c ev idx m w) =
     trace w @ [(ctl_call el op c ev w, env w (trace w) (ctl_call el op c ev w))]"
  by (simp_all add: after_ctl_def)

lemmas poller_op_defs = set_events_def chan_update_def updateChannel_def removeChannel_def
  update_def epollCtl_def upd_poller_def IsNoneEvent_def Let_def

lemma set_events_result:
  assumes "ch_el (chans w c) = el"
    and "ch_index (chans w c) = channelNew \<and> po_channelMap (poller_of el w) (ch_fd (chans w c)) = None \<or>
      ch_index (chans w c) \<in> {channelAdd, channelDel} \<and>
      po_channelMap (poller_of el w) (ch_fd (chans w c)) = Some c"
  shows "set_events c f w = Inr ((), after_ctl el
    (if ch_index (chans w c) \<noteq> channelAdd then EPOLL_CTL_ADD
     else if f (ch_events (chans w c)) = eventNone then EPOLL_CTL_DEL else EPOLL_CTL_MOD)
    c (f (ch_events (chans w c))) (index_after (ch_index (chans w c)) (f (ch_events (chans w c))))
    (Some c) w)"
proof -
  have idem: "(loops w)(el := (loops w el)\<lparr>el_poller := (poller_of el w)\<lparr>po_channelMap :=
      (po_channelMap (poller_of el w))(ch_fd (chans w c) := Some c)\<rparr>\<rparr>) = loops w"
    if "po_channelMap (poller_of el w) (ch_fd (chans w c)) = Some c"
    using that by (simp add: fun_upd_idem)
  have same: "(chans w c)\<lparr>ch_events := e, ch_index := channelAdd\<rparr> = (chans w c)\<lparr>ch_events := e\<rparr>"
    if "ch_index (chans w c) = channelAdd" for e
    using that by (cases "chans w c") simp
  have neq: "channelNew \<noteq> channelAdd" "channelDel \<noteq> channelNew" "channelAdd \<noteq> channelDel"
    by (simp_all add: index_consts)
  show ?thesis
    using assms(2)
  proof (elim disjE conjE insertE emptyE)
    assume "ch_index (chans w c) = channelNew"
      "po_channelMap (poller_of el w) (ch_fd (chans w c)) = None"
    then show ?thesis
      using assms(1) neq
      by (simp add: poller_op_defs go_defs world_defs after_ctl_def ctl_call_def index_after_def)
  next
    assume 1: "ch_index (chans w c) = channelAdd"
      and "po_channelMap (poller_of el w) (ch_fd (chans w c)) = Some c"
    then show ?thesis
      using assms(1) neq idem
      by (simp add: poller_op_defs go_defs world_defs after_ctl_def ctl_call_def index_after_def
          same [OF 1])
  next
    assume "ch_index (chans w c) = channelDel"
      "po_channelMap (poller_of el w) (ch_fd (chans w c)) = Some c"
    then show ?thesis
      using assms(1) neq idem
      by (simp add: poller_op_defs go_defs world_defs after_ctl_def ctl_call_def index_after_def)
  qed
qed

lemma after_ctl_legal:
  assumes "epoll_ctl_spec (env w)" and "legal_trace (trace w)"
    and "ctl_legal (interest (trace w) (po_epollFd (poller_of el w)) (ch_fd (chans w c))) op"
  shows "legal_trace (trace (after_ctl el op c ev idx m w))"
    and "interest (trace (after_ctl el op c ev idx m w)) (po_epollFd (poller_of el w)) =
      (interest (trace w) (po_epollFd (poller_of el w)))
        (ch_fd (chans w c) := if op = EPOLL_CTL_DEL then None else Some (ev, c))"
  using assms by (auto simp: legal_call_def ctl_call_def epoll_ctl_spec_def)

lemma set_events_inv:
  assumes "poller_inv el w" and "epoll_ctl_spec (env w)" and "chan_ready el c w"
    and "legal_trace (trace w)"
  shows "wp no_panic (set_events c f) (\<lambda>_ w'. poller_inv el w' \<and>
    registered el c (f (ch_events (chans w c))) w w' \<and> legal_trace (trace w')) w"
proof -
  let ?ch = "chans w c" and ?map = "po_channelMap (poller_of el w)" and ?ev = "f (ch_events (chans w c))"
  let ?op = "if ch_index ?ch \<noteq> channelAdd then EPOLL_CTL_ADD
     else if ?ev = eventNone then EPOLL_CTL_DEL else EPOLL_CTL_MOD"
  let ?w = "after_ctl el ?op c ?ev (index_after (ch_index ?ch) ?ev) (Some c) w"
  have c: "c \<in> chans_of el w" and el: "ch_el ?ch = el"
    using assms(3) by (auto simp: chan_ready_def chans_of_def)
  have neq: "channelNew \<noteq> channelAdd" "channelDel \<noteq> channelNew" "channelAdd \<noteq> channelDel"
    by (simp_all add: index_consts)
  have cases: "ch_index ?ch = channelNew \<and> ?map (ch_fd ?ch) = None \<or>
      ch_index ?ch \<in> {channelAdd, channelDel} \<and> ?map (ch_fd ?ch) = Some c"
    using assms(3) chan_index_cases [OF assms(1) c] by (auto simp: chan_ready_def)
  have "interest (trace w) (po_epollFd (poller_of el w)) (ch_fd ?ch) = believed el w (ch_fd ?ch)"
    using assms(1) by (simp add: poller_inv_def)
  then have "ctl_legal (interest (trace w) (po_epollFd (poller_of el w)) (ch_fd ?ch)) ?op"
    using cases neq by (elim disjE conjE) (simp_all add: believed_def ctl_legal_def)
  note legal = after_ctl_legal [OF assms(2,4) this, of ?ev "index_after (ch_index ?ch) ?ev" "Some c"]
  have "registered el c ?ev w ?w"
    using legal(2) neq by (auto simp: registered_def index_after_def)
  moreover have "poller_inv el ?w"
    using assms(1) c
  proof (rule poller_inv_step)
    show "interest (trace ?w) (po_epollFd (poller_of el w)) =
        (interest (trace w) (po_epollFd (poller_of el w)))(ch_fd ?ch := believed el ?w (ch_fd ?ch))"
      using legal(2) neq by (auto simp: believed_def index_after_def)
  qed (use cases in \<open>auto simp: index_after_def\<close>)
  ultimately show ?thesis
    using legal(1) set_events_result [OF el cases, of f] by (simp add: wp_def)
qed

text \<open>A new channel for a descriptor that is in the channel map already.\<close>

lemma set_events_taken:
  assumes "ch_el (chans w c) = el" and "ch_index (chans w c) = channelNew"
    and "po_channelMap (poller_of el w) (ch_fd (chans w c)) \<noteq> None"
  shows "set_events c f w = Inl (AssertFailed ''channelMap should not have fd'')"
  using assms by (simp add: poller_op_defs go_defs world_defs)

section \<open>Removing a channel\<close>

lemma removeChannel_result:
  assumes "po_channelMap (poller_of el w) (ch_fd (chans w c)) = Some c"
  shows "ch_index (chans w c) = channelAdd \<Longrightarrow> removeChannel el c w =
      Inr ((), after_ctl el EPOLL_CTL_DEL c (ch_events (chans w c)) channelNew None w)"
    and "ch_index (chans w c) = channelDel \<Longrightarrow> removeChannel el c w =
      Inr ((), w\<lparr>loops := (loops w)(el := (loops w el)\<lparr>el_poller := (poller_of el w)\<lparr>po_channelMap :=
         (po_channelMap (poller_of el w))(ch_fd (chans w c) := None)\<rparr>\<rparr>),
         chans := (chans w)(c := (chans w c)\<lparr>ch_index := channelNew\<rparr>)\<rparr>)"
proof -
  have "(chans w c)\<lparr>ch_events := ch_events (chans w c), ch_index := channelNew\<rparr> =
      (chans w c)\<lparr>ch_index := channelNew\<rparr>"
    by (cases "chans w c") simp
  moreover have "channelAdd \<noteq> channelDel"
    by (simp add: index_consts)
  ultimately show "ch_index (chans w c) = channelAdd \<Longrightarrow> removeChannel el c w =
      Inr ((), after_ctl el EPOLL_CTL_DEL c (ch_events (chans w c)) channelNew None w)"
    and "ch_index (chans w c) = channelDel \<Longrightarrow> removeChannel el c w =
      Inr ((), w\<lparr>loops := (loops w)(el := (loops w el)\<lparr>el_poller := (poller_of el w)\<lparr>po_channelMap :=
         (po_channelMap (poller_of el w))(ch_fd (chans w c) := None)\<rparr>\<rparr>),
         chans := (chans w)(c := (chans w c)\<lparr>ch_index := channelNew\<rparr>)\<rparr>)"
    using assms
    by (auto simp: poller_op_defs go_defs world_defs after_ctl_def ctl_call_def)
qed

lemma removeChannel_inv:
  assumes "poller_inv el w" and "epoll_ctl_spec (env w)" and "c \<in> chans_of el w"
    and "ch_index (chans w c) \<noteq> channelNew" and "legal_trace (trace w)"
  shows "wp no_panic (removeChannel el c) (\<lambda>_ w'. poller_inv el w' \<and> legal_trace (trace w') \<and>
    ch_index (chans w' c) = channelNew \<and>
    po_channelMap (poller_of el w') (ch_fd (chans w c)) = None \<and>
    interest (trace w') (po_epollFd (poller_of el w)) (ch_fd (chans w c)) = None) w"
proof -
  let ?fd = "ch_fd (chans w c)"
  have map: "po_channelMap (poller_of el w) ?fd = Some c"
    and idx: "ch_index (chans w c) = channelAdd \<or> ch_index (chans w c) = channelDel"
    using chan_index_cases [OF assms(1,3)] assms(4) by auto
  have b: "interest (trace w) (po_epollFd (poller_of el w)) ?fd = believed el w ?fd"
    using assms(1) by (simp add: poller_inv_def)
  have neq: "channelAdd \<noteq> channelDel"
    by (simp add: index_consts)
  from idx show ?thesis
  proof
    assume add: "ch_index (chans w c) = channelAdd"
    let ?w = "after_ctl el EPOLL_CTL_DEL c (ch_events (chans w c)) channelNew None w"
    have "ctl_legal (interest (trace w) (po_epollFd (poller_of el w)) ?fd) EPOLL_CTL_DEL"
      using b map add by (simp add: believed_def ctl_legal_def)
    note legal = after_ctl_legal [OF assms(2,5) this, of "ch_events (chans w c)" channelNew None]
    have "poller_inv el ?w"
      using assms(1,3)
      by (rule poller_inv_step [where m = None]) (use legal(2) map in \<open>auto simp: believed_def\<close>)
    then show ?thesis
      using legal removeChannel_result(1) [OF map add] by (simp add: wp_def)
  next
    assume del: "ch_index (chans w c) = channelDel"
    let ?w = "w\<lparr>loops := (loops w)(el := (loops w el)\<lparr>el_poller := (poller_of el w)\<lparr>po_channelMap :=
         (po_channelMap (poller_of el w))(?fd := None)\<rparr>\<rparr>),
         chans := (chans w)(c := (chans w c)\<lparr>ch_index := channelNew\<rparr>)\<rparr>"
    have none: "interest (trace w) (po_epollFd (poller_of el w)) ?fd = None"
      using b map del neq by (simp add: believed_def)
    have "poller_inv el ?w"
      using assms(1,3)
      by (rule poller_inv_step [where m = None])
        (use none map in \<open>auto simp: believed_def fun_eq_iff\<close>)
    then show ?thesis
      using none assms(5) removeChannel_result(2) [OF map del] by (simp add: wp_def)
  qed
qed

lemma removeChannel_frame: "wp any_panic (removeChannel el c) (\<lambda>_. poller_frame el c w) w"
  by (auto simp: removeChannel_def upd_poller_def Let_def poller_frame_def)

lemma poller_frame_trans: "poller_frame el c w v \<Longrightarrow> poller_frame el c v u \<Longrightarrow> poller_frame el c w u"
proof -
  assume a: "poller_frame el c w v" "poller_frame el c v u"
  have l: "(loops u e)\<lparr>el_poller := el_poller (loops v e)\<rparr> = loops v e"
    "(loops v e)\<lparr>el_poller := el_poller (loops w e)\<rparr> = loops w e" for e
    using a by (simp_all add: poller_frame_def)
  have "(loops u e)\<lparr>el_poller := el_poller (loops w e)\<rparr> = loops w e" for e
    using arg_cong [OF l(1), of "\<lambda>x. x\<lparr>el_poller := el_poller (loops w e)\<rparr>" e] l(2) [of e] by simp
  moreover have ch: "(chans u c)\<lparr>ch_events := ch_events (chans v c), ch_index := ch_index (chans v c)\<rparr> = chans v c"
    "(chans v c)\<lparr>ch_events := ch_events (chans w c), ch_index := ch_index (chans w c)\<rparr> = chans w c"
    using a by (simp_all add: poller_frame_def)
  have "(chans u c)\<lparr>ch_events := ch_events (chans w c), ch_index := ch_index (chans w c)\<rparr> = chans w c"
    using arg_cong [OF ch(1), of "\<lambda>x. x\<lparr>ch_events := ch_events (chans w c), ch_index := ch_index (chans w c)\<rparr>"] ch(2)
    by simp
  ultimately show ?thesis
    using a by (simp add: poller_frame_def)
qed

lemma poller_frame_fields:
  assumes "poller_frame el c w w'"
  shows "ch_fd (chans w' d) = ch_fd (chans w d)" "ch_el (chans w' d) = ch_el (chans w d)"
    and "ch_readCallback (chans w' d) = ch_readCallback (chans w d)"
    and "ch_writeCallback (chans w' d) = ch_writeCallback (chans w d)"
    and "ch_errorCallback (chans w' d) = ch_errorCallback (chans w d)"
    and "el_pendingTasks (loops w' e) = el_pendingTasks (loops w e)" "el_evtFd (loops w' e) = el_evtFd (loops w e)"
    and "el_tq (loops w' e) = el_tq (loops w e)" "chans_of el' w' = chans_of el' w"
proof -
  have c: "(chans w' c)\<lparr>ch_events := ch_events (chans w c), ch_index := ch_index (chans w c)\<rparr> = chans w c"
    using assms by (simp add: poller_frame_def)
  have ch: "(chans w' d)\<lparr>ch_events := 0, ch_index := 0\<rparr> = (chans w d)\<lparr>ch_events := 0, ch_index := 0\<rparr>" for d
  proof (cases "d = c")
    case True
    then show ?thesis
      using arg_cong [OF c, of "\<lambda>x. x\<lparr>ch_events := 0, ch_index := 0\<rparr>"] by simp
  qed (use assms in \<open>simp add: poller_frame_def\<close>)
  have l: "(loops w' e)\<lparr>el_poller := el_poller (loops w e)\<rparr> = loops w e" for e
    using assms by (simp add: poller_frame_def)
  show fd: "ch_fd (chans w' d) = ch_fd (chans w d)" "ch_el (chans w' d) = ch_el (chans w d)"
    "ch_readCallback (chans w' d) = ch_readCallback (chans w d)"
    "ch_writeCallback (chans w' d) = ch_writeCallback (chans w d)"
    "ch_errorCallback (chans w' d) = ch_errorCallback (chans w d)" for d
    using arg_cong [OF ch, of ch_fd] arg_cong [OF ch, of ch_el] arg_cong [OF ch, of ch_readCallback]
      arg_cong [OF ch, of ch_writeCallback] arg_cong [OF ch, of ch_errorCallback] by simp_all
  show "el_pendingTasks (loops w' e) = el_pendingTasks (loops w e)" "el_evtFd (loops w' e) = el_evtFd (loops w e)"
    "el_tq (loops w' e) = el_tq (loops w e)"
    using arg_cong [OF l, of el_pendingTasks] arg_cong [OF l, of el_evtFd] arg_cong [OF l, of el_tq] by simp_all
  show "chans_of el' w' = chans_of el' w"
    using assms fd(2) by (simp add: chans_of_def poller_frame_def)
qed

text \<open>The way a channel goes: all events disabled, then removed.\<close>

lemma take_off:
  assumes "poller_inv el w" and "epoll_ctl_spec (env w)" and "c \<in> chans_of el w"
    and "ch_index (chans w c) \<noteq> channelNew" and "legal_trace (trace w)"
  shows "wp no_panic (disableAll c) (\<lambda>_. wp no_panic (removeChannel el c) (\<lambda>_ w'. poller_inv el w' \<and>
    legal_trace (trace w') \<and> poller_frame el c w w' \<and> ch_index (chans w' c) = channelNew \<and>
    po_channelMap (poller_of el w') (ch_fd (chans w c)) = None \<and>
    interest (trace w') (po_epollFd (poller_of el w)) (ch_fd (chans w c)) = None)) w"
proof -
  have ready: "chan_ready el c w" and el: "ch_el (chans w c) = el"
    using assms(3,4) by (simp_all add: chan_ready_def chans_of_def)
  have "wp no_panic (removeChannel el c) (\<lambda>_ w'. poller_inv el w' \<and>
      legal_trace (trace w') \<and> poller_frame el c w w' \<and> ch_index (chans w' c) = channelNew \<and>
      po_channelMap (poller_of el w') (ch_fd (chans w c)) = None \<and>
      interest (trace w') (po_epollFd (poller_of el w)) (ch_fd (chans w c)) = None) v"
    if v: "poller_inv el v" "registered el c eventNone w v" "legal_trace (trace v)" "poller_frame el c w v" for v
  proof -
    have v': "epoll_ctl_spec (env v)" "c \<in> chans_of el v" "ch_index (chans v c) \<noteq> channelNew"
      "ch_fd (chans v c) = ch_fd (chans w c)" "po_epollFd (poller_of el v) = po_epollFd (poller_of el w)"
      using assms(2,3) v poller_frame_fields [OF v(4)]
      by (auto simp: poller_frame_def registered_def index_after_def index_consts)
    show ?thesis
      using removeChannel_inv [OF v(1) v'(1-3) v(3)] removeChannel_frame [of el c v] poller_frame_trans [OF v(4)] v'(4,5)
      by (auto simp: wp_def split: sum.splits)
  qed
  moreover obtain v where "disableAll c w = Inr ((), v)" "poller_inv el v" "registered el c eventNone w v"
    "legal_trace (trace v)" "poller_frame el c w v"
    using set_events_inv [OF assms(1,2) ready assms(5), of "\<lambda>_. eventNone"] set_events_frame [OF el, of "\<lambda>_. eventNone"]
    unfolding set_events_instances wp_returns by (auto simp: wp_def)
  ultimately show ?thesis
    by (simp add: wp_eq [where m = "disableAll c"])
qed

section \<open>Polling\<close>

text \<open>The invariant does not depend on the received events, the event list or the active list.\<close>

lemma poller_inv_cong:
  assumes "poller_inv el w" and "n_chans w' = n_chans w"
    and "\<And>c. ch_el (chans w' c) = ch_el (chans w c) \<and> ch_fd (chans w' c) = ch_fd (chans w c) \<and>
      ch_index (chans w' c) = ch_index (chans w c) \<and> ch_events (chans w' c) = ch_events (chans w c)"
    and "po_channelMap (poller_of el w') = po_channelMap (poller_of el w)"
    and "po_epollFd (poller_of el w') = po_epollFd (poller_of el w)"
    and "interest (trace w') (po_epollFd (poller_of el w)) =
      interest (trace w) (po_epollFd (poller_of el w))"
  shows "poller_inv el w'"
proof -
  have "chans_of el w' = chans_of el w"
    using assms by (simp add: chans_of_def)
  moreover have "believed el w' = believed el w"
    using assms by (simp add: believed_def fun_eq_iff split: option.splits)
  ultimately show ?thesis
    using assms by (simp add: poller_inv_def)
qed

text \<open>One round of \<open>fillActiveChannels\<close> per event.\<close>

definition note_event :: "loop_ptr \<Rightarrow> epollevent \<Rightarrow> world \<Rightarrow> world" where
  "note_event el ev w =
     w\<lparr>chans := (chans w)(ev_data ev := (chans w (ev_data ev))\<lparr>ch_revents := ev_events ev,
         ch_ele := Some (length (el_activeChannels (loops w el)))\<rparr>),
       loops := (loops w)(el := (loops w el)\<lparr>el_activeChannels :=
         el_activeChannels (loops w el) @ [ev_data ev]\<rparr>)\<rparr>"

lemma note_event_sel [simp]:
  "el_activeChannels (loops (note_event el ev w) el) = el_activeChannels (loops w el) @ [ev_data ev]"
  "poller_of e (note_event el ev w) = poller_of e w"
  "trace (note_event el ev w) = trace w" "n_chans (note_event el ev w) = n_chans w"
  "env (note_event el ev w) = env w"
  "ch_el (chans (note_event el ev w) c) = ch_el (chans w c)"
  "ch_fd (chans (note_event el ev w) c) = ch_fd (chans w c)"
  "ch_index (chans (note_event el ev w) c) = ch_index (chans w c)"
  "ch_events (chans (note_event el ev w) c) = ch_events (chans w c)"
  "ch_revents (chans (note_event el ev w) c) =
     (if c = ev_data ev then ev_events ev else ch_revents (chans w c))"
  by (simp_all add: note_event_def)

lemma fillActiveChannels_result:
  assumes "numEvents \<le> int (length (po_eventList (poller_of el w)))"
  shows "fillActiveChannels el numEvents w =
    Inr ((), fold (note_event el) (take (nat numEvents) (po_eventList (poller_of el w))) w)"
proof -
  have "go_for evs (\<lambda>ev.
      go_seq (upd_chan (ev_data ev) (\<lambda>ch. ch\<lparr>ch_revents := ev_events ev\<rparr>)) (
      go_bind (go_gets (\<lambda>w. length (el_activeChannels (loops w el)))) (\<lambda>ele.
      go_seq (upd_loop el (\<lambda>l. l\<lparr>el_activeChannels := el_activeChannels l @ [ev_data ev]\<rparr>))
        (upd_chan (ev_data ev) (\<lambda>ch. ch\<lparr>ch_ele := Some ele\<rparr>))))) v =
    Inr ((), fold (note_event el) evs v)" for evs v
    by (induction evs arbitrary: v)
      (auto simp: go_defs world_defs note_event_def intro!: arg_cong [where f = "fold _ _"])
  then show ?thesis
    using assms by (simp add: fillActiveChannels_def go_defs)
qed

lemma fold_note_event:
  "el_activeChannels (loops (fold (note_event el) evs w) el) =
     el_activeChannels (loops w el) @ map ev_data evs"
  "poller_of e (fold (note_event el) evs w) = poller_of e w"
  "trace (fold (note_event el) evs w) = trace w"
  "env (fold (note_event el) evs w) = env w"
  "n_chans (fold (note_event el) evs w) = n_chans w"
  "ch_el (chans (fold (note_event el) evs w) c) = ch_el (chans w c)"
  "ch_fd (chans (fold (note_event el) evs w) c) = ch_fd (chans w c)"
  "ch_index (chans (fold (note_event el) evs w) c) = ch_index (chans w c)"
  "ch_events (chans (fold (note_event el) evs w) c) = ch_events (chans w c)"
  by (induction evs arbitrary: w) auto

lemma fold_note_event_revents:
  "distinct (map ev_data evs) \<Longrightarrow> ch_revents (chans (fold (note_event el) evs w) c) =
     (case map_of (map (\<lambda>ev. (ev_data ev, ev_events ev)) evs) c of
        None \<Rightarrow> ch_revents (chans w c) | Some e \<Rightarrow> e)"
  by (induction evs arbitrary: w)
    (auto split: option.splits simp: map_of_eq_None_iff image_image dest!: map_of_SomeD)

text \<open>
  The documented behaviour of \<open>epoll_wait\<close>: on success the count is the number of events it
  stored, at most the room it was given; on failure the count is -1.
\<close>

definition epoll_wait_spec :: "(trace \<Rightarrow> syscall \<Rightarrow> sysret) \<Rightarrow> bool" where
  "epoll_wait_spec e \<longleftrightarrow> (\<forall>tr ep n ms. let r = e tr (SysEpollWait ep n ms) in
     (if ret_err r = None
      then ret_n r = int (length (ret_events r)) \<and> length (ret_events r) \<le> n
      else ret_n r = -1 \<and> ret_events r = []))"

text \<open>What the kernel reports to \<open>poll\<close> in a given world.\<close>

definition wait_result :: "loop_ptr \<Rightarrow> int \<Rightarrow> world \<Rightarrow> sysret" where
  "wait_result el ms w = env w (trace w) (SysEpollWait (po_epollFd (poller_of el w))
     (length (po_eventList (poller_of el w))) ms)"

definition polled :: "loop_ptr \<Rightarrow> (uint32 \<times> chan_ptr) list \<Rightarrow> world \<Rightarrow> world \<Rightarrow> bool" where
  "polled el evs w w' \<longleftrightarrow>
     el_activeChannels (loops w' el) = el_activeChannels (loops w el) @ map snd evs \<and>
     length (po_eventList (poller_of el w')) =
       length (po_eventList (poller_of el w)) *
         (if evs \<noteq> [] \<and> length evs = length (po_eventList (poller_of el w)) then 2 else 1) \<and>
     (distinct (map snd evs) \<longrightarrow>
       (\<forall>(e, c) \<in> set evs. ch_revents (chans w' c) = e))"

text \<open>The world once \<open>epoll_wait\<close> and \<open>time.Now\<close> have returned, and after the events are noted.\<close>

definition stored_events :: "loop_ptr \<Rightarrow> int \<Rightarrow> world \<Rightarrow> epollevent list" where
  "stored_events el ms w =
     map (\<lambda>(e, c). \<lparr>ev_events = e, ev_data = c\<rparr>) (ret_events (wait_result el ms w))"

definition set_eventList :: "loop_ptr \<Rightarrow> epollevent list \<Rightarrow> world \<Rightarrow> world" where
  "set_eventList el l w =
     w\<lparr>loops := (loops w)(el := (loops w el)\<lparr>el_poller := (poller_of el w)\<lparr>po_eventList := l\<rparr>\<rparr>)\<rparr>"

definition waited :: "loop_ptr \<Rightarrow> int \<Rightarrow> world \<Rightarrow> world" where
  "waited el ms w =
     (let s = SysEpollWait (po_epollFd (poller_of el w)) (length (po_eventList (poller_of el w))) ms;
          tr = trace w @ [(s, wait_result el ms w)]
      in (set_eventList el (copy_at 0 (stored_events el ms w) (po_eventList (poller_of el w))) w)
           \<lparr>trace := tr @ [(SysNow, env w tr SysNow)]\<rparr>)"

definition noted :: "loop_ptr \<Rightarrow> int \<Rightarrow> world \<Rightarrow> world" where
  "noted el ms w =
     (let evs = stored_events el ms w; n = length (po_eventList (poller_of el w));
          v = fold (note_event el) evs (waited el ms w)
      in if evs \<noteq> [] \<and> length evs = n
         then set_eventList el (replicate (n * 2) \<lparr>ev_events = 0, ev_data = 0\<rparr>) v else v)"

lemma set_eventList_sel [simp]:
  "el_activeChannels (loops (set_eventList el l w) e) = el_activeChannels (loops w e)"
  "po_eventList (poller_of el (set_eventList el l w)) = l"
  "po_channelMap (poller_of e (set_eventList el l w)) = po_channelMap (poller_of e w)"
  "po_epollFd (poller_of e (set_eventList el l w)) = po_epollFd (poller_of e w)"
  "chans (set_eventList el l w) = chans w" "n_chans (set_eventList el l w) = n_chans w"
  "trace (set_eventList el l w) = trace w" "env (set_eventList el l w) = env w"
  by (simp_all add: set_eventList_def)

lemma waited_sel [simp]:
  "el_activeChannels (loops (waited el ms w) e) = el_activeChannels (loops w e)"
  "po_eventList (poller_of el (waited el ms w)) =
     copy_at 0 (stored_events el ms w) (po_eventList (poller_of el w))"
  "po_channelMap (poller_of e (waited el ms w)) = po_channelMap (poller_of e w)"
  "po_epollFd (poller_of e (waited el ms w)) = po_epollFd (poller_of e w)"
  "chans (waited el ms w) = chans w" "n_chans (waited el ms w) = n_chans w"
  "interest (trace (waited el ms w)) = interest (trace w)"
  by (simp_all add: waited_def Let_def interest_def)

lemma stored_events_bound:
  assumes "epoll_wait_spec (env w)"
  shows "length (stored_events el ms w) \<le> length (po_eventList (poller_of el w))"
    and "ret_err (wait_result el ms w) = None \<Longrightarrow>
      ret_n (wait_result el ms w) = int (length (stored_events el ms w))"
    and "ret_err (wait_result el ms w) \<noteq> None \<Longrightarrow>
      ret_n (wait_result el ms w) = -1 \<and> stored_events el ms w = []"
  using assms [unfolded epoll_wait_spec_def Let_def, rule_format, of "trace w"
      "po_epollFd (poller_of el w)" "length (po_eventList (poller_of el w))" ms]
  by (auto simp: stored_events_def wait_result_def split: if_splits)

lemma poll_result:
  assumes "epoll_wait_spec (env w)"
  shows "\<exists>now. poll el ms w = Inr (now, noted el ms w)"
proof -
  note b = stored_events_bound [OF assms, of el ms]
  let ?n = "ret_n (wait_result el ms w)" and ?evs = "stored_events el ms w"
  have fill: "fillActiveChannels el (int (length ?evs)) (waited el ms w) =
      Inr ((), fold (note_event el) ?evs (waited el ms w))"
    using b(1) by (subst fillActiveChannels_result) (auto simp: copy_at_def)
  have start: "poll el ms w = (if ?n > 0 \<and> ret_err (wait_result el ms w) = None
      then go_seq (go_seq (fillActiveChannels el ?n)
        (go_when (?n = int (length (po_eventList (poller_of el w))))
           (upd_poller el (\<lambda>p. p\<lparr>po_eventList :=
              replicate (length (po_eventList p) * 2) \<lparr>ev_events = 0, ev_data = 0\<rparr>\<rparr>))))
        (go_ret (ret_n (snd (last (trace (waited el ms w)))))) (waited el ms w)
      else Inr (ret_n (snd (last (trace (waited el ms w)))), waited el ms w))"
    using b(2,3)
    by (auto simp: poll_def epollWait_def upd_poller_def wait_result_def stored_events_def
        waited_def set_eventList_def Let_def go_defs world_defs)
  show ?thesis
  proof (cases "?evs = []")
    case True
    then have "\<not> (?n > 0 \<and> ret_err (wait_result el ms w) = None)"
      using b by (cases "ret_err (wait_result el ms w)") auto
    then show ?thesis
      using True unfolding start by (subst if_not_P) (auto simp: noted_def)
  next
    case False
    then have ok: "ret_err (wait_result el ms w) = None" "?n = int (length ?evs)" "?n > 0"
      using b by (cases "ret_err (wait_result el ms w)"; auto)+
    have len: "length (po_eventList (poller_of el (fold (note_event el) ?evs (waited el ms w)))) =
        length (po_eventList (poller_of el w))"
      using b(1) by (simp add: fold_note_event)
    show ?thesis
      using False ok(1,3) unfolding start ok(2) noted_def
      by (simp add: go_seq_def go_bind_def fill len Let_def upd_poller_def set_eventList_def
          go_defs world_defs del: fold_note_event)
  qed
qed

lemma poll_wp:
  assumes "epoll_wait_spec (env w)" and "poller_inv el w"
  shows "wp no_panic (poll el ms) (\<lambda>_ w'. poller_inv el w' \<and>
    polled el (ret_events (wait_result el ms w)) w w') w"
proof -
  let ?r = "ret_events (wait_result el ms w)" and ?evs = "stored_events el ms w"
  have data: "map ev_data ?evs = map snd ?r"
    and pairs: "map (\<lambda>ev. (ev_data ev, ev_events ev)) ?evs = map (\<lambda>(e, c). (c, e)) ?r"
    by (simp_all add: stored_events_def o_def case_prod_beta)
  have "ch_revents (chans (noted el ms w) c) = e" if "distinct (map snd ?r)" "(e, c) \<in> set ?r" for e c
  proof -
    have "(c, e) \<in> set (map (\<lambda>(e, c). (c, e)) ?r)"
      using that(2) by force
    then have "map_of (map (\<lambda>(e, c). (c, e)) ?r) c = Some e"
      using that(1) by (intro map_of_is_SomeI) (auto simp: o_def case_prod_beta)
    then show ?thesis
      using fold_note_event_revents [of ?evs el "waited el ms w" c] that(1)
      by (simp add: noted_def Let_def data pairs)
  qed
  then have "polled el ?r w (noted el ms w)"
    using stored_events_bound(1) [OF assms(1), of el ms] data
    by (auto simp: polled_def noted_def Let_def fold_note_event stored_events_def)
  moreover have "poller_inv el (noted el ms w)"
    using assms(2)
    by (rule poller_inv_cong) (auto simp: noted_def Let_def fold_note_event)
  ultimately show ?thesis
    using poll_result [OF assms(1), of el ms] by (auto simp: wp_returns)
qed

section \<open>Properties\<close>

text \<open>A kernel with the documented epoll behaviour, on which nothing else happens.\<close>

definition quiet_kernel :: "trace \<Rightarrow> syscall \<Rightarrow> sysret" where
  "quiet_kernel tr s = \<lparr>ret_n = 0,
     ret_err = (case s of SysEpollCtl ep op f ev c \<Rightarrow>
         if ctl_legal (interest tr ep f) op then None
         else Some (if op = EPOLL_CTL_ADD then EEXIST else ENOENT) | _ \<Rightarrow> None),
     ret_data = [], ret_events = [], ret_addr = None\<rparr>"

lemma quiet_kernel_spec: "epoll_ctl_spec quiet_kernel" "epoll_wait_spec quiet_kernel"
  by (simp_all add: epoll_ctl_spec_def epoll_wait_spec_def quiet_kernel_def)

text \<open>One loop with an empty poller and one new channel for descriptor 7.\<close>

definition one_channel :: world where
  "one_channel = (blank_world quiet_kernel)\<lparr>chans := (\<lambda>_. blank_channel\<lparr>ch_fd := 7\<rparr>),
     n_chans := 1, n_loops := 1\<rparr>"

lemma one_channel_ok:
  "poller_inv 0 one_channel" "chan_ready 0 0 one_channel" "legal_trace (trace one_channel)"
  "epoll_ctl_spec (env one_channel)" "epoll_wait_spec (env one_channel)"
  by (simp_all add: one_channel_def blank_defs poller_inv_def chans_of_def believed_def
      chan_ready_def index_consts quiet_kernel_spec)

text \<open>
  C3: enabling and disabling events on any channel of a loop. If the channel is new and another
  channel already holds its descriptor, the assertion of \<open>updateChannel\<close> fails; this is the only
  case in which anything fails. Otherwise the \<open>epoll_ctl\<close> call is legal, the channel map, the
  channel indices and the kernel agree again afterwards, and the kernel watches the descriptor
  for exactly the channel's events, or not at all when a watched channel lost its last event.
\<close>

theorem channel_registration:
  assumes "poller_inv el w" and "epoll_ctl_spec (env w)" and "c \<in> chans_of el w"
    and "legal_trace (trace w)"
    and "(op, ev) \<in> {(enableReading c, ch_events (chans w c) OR eventRead),
      (enableWriting c, ch_events (chans w c) OR eventWrite),
      (disableWriting c, ch_events (chans w c) AND NOT eventWrite),
      (disableAll c, eventNone)}"
  shows "if ch_index (chans w c) = channelNew \<and>
      po_channelMap (poller_of el w) (ch_fd (chans w c)) \<noteq> None
    then op w = Inl (AssertFailed ''channelMap should not have fd'')
    else \<exists>w'. op w = Inr ((), w') \<and> poller_inv el w' \<and> registered el c ev w w' \<and>
      legal_trace (trace w')"
proof (cases "chan_ready el c w")
  case True
  then show ?thesis
    using assms(5) set_events_inv [OF assms(1,2) True assms(4)]
    unfolding set_events_instances wp_returns by (auto simp: chan_ready_def)
next
  case False
  then have taken: "ch_index (chans w c) = channelNew"
    "po_channelMap (poller_of el w) (ch_fd (chans w c)) \<noteq> None" "ch_el (chans w c) = el"
    using assms(3) by (auto simp: chan_ready_def chans_of_def)
  then show ?thesis
    using assms(5) set_events_taken [OF taken(3,1,2)] unfolding set_events_instances by auto
qed

text \<open>Two channels for descriptor 7, the second one registered.\<close>

definition two_channels :: world where
  "two_channels = one_channel\<lparr>n_chans := 2,
     chans := (\<lambda>c. blank_channel\<lparr>ch_fd := 7, ch_index := if c = 1 then channelDel else channelNew\<rparr>),
     loops := (\<lambda>_. blank_loop\<lparr>el_poller := \<lparr>po_epollFd = 0, po_eventList = [],
       po_channelMap = (\<lambda>_. None)(7 := Some 1)\<rparr>\<rparr>)\<rparr>"

lemma two_channels_ok:
  "poller_inv 0 two_channels" "epoll_ctl_spec (env two_channels)" "legal_trace (trace two_channels)"
  "0 \<in> chans_of 0 two_channels" "ch_index (chans two_channels 0) = channelNew"
  "ch_fd (chans two_channels 0) = 7" "po_channelMap (poller_of 0 two_channels) 7 = Some 1"
  by (auto simp: two_channels_def one_channel_def blank_defs poller_inv_def chans_of_def
      believed_def index_consts quiet_kernel_spec)

theorem channel_registration_witness:
  "(\<exists>w'. enableReading 0 one_channel = Inr ((), w') \<and> poller_inv 0 w' \<and>
      registered 0 0 (ch_events (chans one_channel 0) OR eventRead) one_channel w' \<and>
      legal_trace (trace w')) \<and>
    enableReading 0 two_channels = Inl (AssertFailed ''channelMap should not have fd'')"
  using channel_registration [OF one_channel_ok(1,4) _ one_channel_ok(3), of 0 "enableReading 0"
      "ch_events (chans one_channel 0) OR eventRead"]
    channel_registration [OF two_channels_ok(1,2,4,3), of "enableReading 0"
      "ch_events (chans two_channels 0) OR eventRead"]
    one_channel_ok(2)
  by (simp add: two_channels_ok chan_ready_def)

text \<open>
  Calling \<open>disableAll\<close> on a channel that was already taken off epoll puts its descriptor
  back on, with an empty event mask: \<open>updateChannel\<close> treats a deleted channel as one to add.
\<close>

theorem disableAll_adds_again:
  assumes "poller_inv el w" and "epoll_ctl_spec (env w)" and "chan_ready el c w"
    and "legal_trace (trace w)" and "ch_index (chans w c) = channelDel"
  shows "\<exists>w'. disableAll c w = Inr ((), w') \<and> poller_inv el w' \<and>
    interest (trace w) (po_epollFd (poller_of el w)) (ch_fd (chans w c)) = None \<and>
    interest (trace w') (po_epollFd (poller_of el w)) (ch_fd (chans w c)) = Some (eventNone, c)"
proof -
  have c: "c \<in> chans_of el w"
    using assms(3) by (simp add: chan_ready_def)
  have "interest (trace w) (po_epollFd (poller_of el w)) (ch_fd (chans w c)) =
      believed el w (ch_fd (chans w c))"
    using assms(1) by (simp add: poller_inv_def)
  also have "\<dots> = None"
    using assms(5) chan_index_cases [OF assms(1) c] by (auto simp: believed_def index_consts)
  finally show ?thesis
    using set_events_inv [OF assms(1-4), of "\<lambda>_. eventNone"] assms(5)
    by (auto simp: set_events_instances wp_returns registered_def index_after_def index_consts)
qed

definition off_channel :: world where
  "off_channel = one_channel\<lparr>chans := (\<lambda>_. blank_channel\<lparr>ch_fd := 7, ch_index := channelDel\<rparr>),
     loops := (\<lambda>_. blank_loop\<lparr>el_poller := \<lparr>po_epollFd = 0, po_eventList = [],
       po_channelMap = (\<lambda>_. None)(7 := Some 0)\<rparr>\<rparr>)\<rparr>"

lemma off_channel_ok:
  "poller_inv 0 off_channel" "chan_ready 0 0 off_channel" "legal_trace (trace off_channel)"
  "epoll_ctl_spec (env off_channel)" "0 \<in> chans_of 0 off_channel"
  "ch_index (chans off_channel 0) = channelDel" "ch_fd (chans off_channel 0) = 7"
  "po_epollFd (poller_of 0 off_channel) = 0"
  by (simp_all add: off_channel_def one_channel_def blank_defs poller_inv_def chans_of_def
      believed_def chan_ready_def index_consts quiet_kernel_spec)

theorem disableAll_adds_again_witness:
  "\<exists>w'. disableAll 0 off_channel = Inr ((), w') \<and> poller_inv 0 w' \<and>
    interest (trace off_channel) 0 7 = None \<and> interest (trace w') 0 7 = Some (eventNone, 0)"
  using disableAll_adds_again [OF off_channel_ok(1,4,2,3,6)] by (simp only: off_channel_ok)

text \<open>
  Removing a registered channel never fails an assertion; it takes the descriptor out of
  the channel map and off epoll, with a legal call, and makes the channel new again.
\<close>

theorem removeChannel_unregisters:
  assumes "poller_inv el w" and "epoll_ctl_spec (env w)" and "c \<in> chans_of el w"
    and "ch_index (chans w c) \<noteq> channelNew" and "legal_trace (trace w)"
  shows "\<exists>w'. removeChannel el c w = Inr ((), w') \<and> poller_inv el w' \<and> legal_trace (trace w') \<and>
    ch_index (chans w' c) = channelNew \<and>
    po_channelMap (poller_of el w') (ch_fd (chans w c)) = None \<and>
    interest (trace w') (po_epollFd (poller_of el w)) (ch_fd (chans w c)) = None"
  using removeChannel_inv [OF assms] by (auto simp: wp_returns)

theorem removeChannel_unregisters_witness:
  "\<exists>w'. removeChannel 0 0 off_channel = Inr ((), w') \<and> poller_inv 0 w' \<and> legal_trace (trace w') \<and>
    ch_index (chans w' 0) = channelNew \<and> po_channelMap (poller_of 0 w') 7 = None \<and>
    interest (trace w') 0 7 = None"
  using removeChannel_unregisters [OF off_channel_ok(1,4,5) _ off_channel_ok(3)]
  by (simp add: off_channel_ok index_consts)

text \<open>
  C18: \<open>poll\<close> appends to the active channels exactly the channels the kernel reported, in
  order, with the reported events in their \<open>revents\<close>; it doubles the event list exactly when
  the kernel filled it, and keeps the registration invariant.
\<close>

theorem poll_reports:
  assumes "epoll_wait_spec (env w)" and "poller_inv el w"
  shows "\<exists>now w'. poll el ms w = Inr (now, w') \<and> poller_inv el w' \<and>
    polled el (ret_events (wait_result el ms w)) w w'"
  using poll_wp [OF assms, of ms] by (auto simp: wp_returns)

text \<open>A loop with room for one event, whose kernel reports that channel 0 is readable.\<close>

definition ready_kernel :: "trace \<Rightarrow> syscall \<Rightarrow> sysret" where
  "ready_kernel tr s = (case s of
       SysEpollWait ep n ms \<Rightarrow> if n = 0 then quiet_kernel tr s
         else (quiet_kernel tr s)\<lparr>ret_n := 1, ret_events := [(POLLIN, 0)]\<rparr>
     | _ \<Rightarrow> quiet_kernel tr s)"

definition one_ready :: world where
  "one_ready = off_channel\<lparr>env := ready_kernel, loops := (\<lambda>_. blank_loop\<lparr>el_poller :=
     \<lparr>po_epollFd = 0, po_eventList = [\<lparr>ev_events = 0, ev_data = 0\<rparr>],
      po_channelMap = (\<lambda>_. None)(7 := Some 0)\<rparr>\<rparr>)\<rparr>"

lemma one_ready_ok:
  "epoll_wait_spec (env one_ready)" "poller_inv 0 one_ready"
  "ret_events (wait_result 0 ms one_ready) = [(POLLIN, 0)]"
  "el_activeChannels (loops one_ready 0) = []" "length (po_eventList (poller_of 0 one_ready)) = 1"
  by (auto simp: one_ready_def off_channel_def one_channel_def blank_defs ready_kernel_def
      quiet_kernel_def epoll_wait_spec_def wait_result_def poller_inv_def chans_of_def believed_def
      index_consts)

theorem poll_reports_witness:
  "\<exists>now w'. poll 0 10000 one_ready = Inr (now, w') \<and> poller_inv 0 w' \<and>
    el_activeChannels (loops w' 0) = [0] \<and> length (po_eventList (poller_of 0 w')) = 2 \<and>
    ch_revents (chans w' 0) = POLLIN"
  using poll_reports [OF one_ready_ok(1,2), of 10000] by (auto simp: one_ready_ok polled_def)

end
