(* ===== verification/Task_Queue.thy ===== *)
theory Task_Queue
  imports World
begin

text \<open>
  The pending-task queue of an event loop (\<open>AsyncExecute\<close>, \<open>Wakeup\<close>, \<open>handleRead\<close> and
  \<open>runPendingTasks\<close> of \<open>eventloop.go\<close>), twice: as operations on the world, which the other
  components call, and as a step relation in which any number of goroutines submit tasks
  while the loop goroutine runs. In the latter the list objects are explicit, because
  \<open>runPendingTasks\<close> reads the pointer \<open>el.pendingTasks\<close> before it takes the lock.
\<close>

section \<open>Operations on the world\<close>

text \<open>The eight bytes of the \<open>uint64\<close> value 1 on a little-endian machine.\<close>

definition Wakeup :: "loop_ptr \<Rightarrow> (world, unit) go" where
  "Wakeup el =
     go_bind (go_gets (\<lambda>w. el_evtFd (loops w el))) (\<lambda>fd.
     go_bind (sys (SysWrite fd [1, 0, 0, 0, 0, 0, 0, 0])) (\<lambda>_. go_ret ()))"

definition AsyncExecute :: "loop_ptr \<Rightarrow> task \<Rightarrow> (world, unit) go" where
  "AsyncExecute el task =
     go_seq (upd_loop el (\<lambda>l. l\<lparr>el_pendingTasks := el_pendingTasks l @ [task]\<rparr>)) (Wakeup el)"

definition loop_handleRead :: "loop_ptr \<Rightarrow> (world, unit) go" where
  "loop_handleRead el =
     go_bind (go_gets (\<lambda>w. el_evtFd (loops w el))) (\<lambda>fd.
     go_bind (sys (SysRead fd 8)) (\<lambda>_. go_ret ()))"

text \<open>\<open>tkb\<close> runs a task. Tasks submitted while the loop runs go to the new list.\<close>

definition runPendingTasks :: "(task \<Rightarrow> (world, unit) go) \<Rightarrow> loop_ptr \<Rightarrow> (world, unit) go" where
  "runPendingTasks tkb el =
     go_bind (go_gets (\<lambda>w. el_pendingTasks (loops w el))) (\<lambda>pt.
     go_seq (upd_loop el (\<lambda>l. l\<lparr>el_runningPendingTasks := True\<rparr>)) (
     go_seq (upd_loop el (\<lambda>l. l\<lparr>el_pendingTasks := []\<rparr>)) (
     go_seq (go_for pt tkb)
       (upd_loop el (\<lambda>l. l\<lparr>el_runningPendingTasks := False\<rparr>)))))"

lemma wp_AsyncExecute [simp]:
  "wp E (AsyncExecute el t) Q w =
    (let s = SysWrite (el_evtFd (loops w el)) [1, 0, 0, 0, 0, 0, 0, 0] in
     Q () (w\<lparr>loops := (loops w)(el := (loops w el)\<lparr>el_pendingTasks :=
         el_pendingTasks (loops w el) @ [t]\<rparr>),
       trace := trace w @ [(s, env w (trace w) s)]\<rparr>))"
  by (simp add: AsyncExecute_def Wakeup_def Let_def)

section \<open>The queue under concurrency\<close>

text \<open>
  \<open>q_lists\<close> holds the \<open>list.List\<close> objects, \<open>q_pending\<close> is the pointer \<open>el.pendingTasks\<close>,
  \<open>q_evt\<close> the counter of the eventfd, \<open>q_waking\<close> the number of goroutines that have pushed
  their task and not yet called \<open>Wakeup\<close>. \<open>q_submitted\<close> and \<open>q_executed\<close> record the order in
  which tasks were pushed and run. The loop goroutine is in \<open>epoll_wait\<close>, between the event
  handlers and the read of the pointer, between that read and the locked swap, or at an
  element of the detached list.
\<close>

datatype loop_pc = Polling | ReadPt | SwapPt nat | RunPt nat nat

record 't queue =
  q_lists :: "nat \<Rightarrow> 't list"
  q_pending :: nat
  q_fresh :: nat
  q_evt :: nat
  q_waking :: nat
  q_pc :: loop_pc
  q_submitted :: "'t list"
  q_executed :: "'t list"

definition queue_init :: "'t queue" where
  "queue_init = \<lparr>q_lists = (\<lambda>_. []), q_pending = 0, q_fresh = 1, q_evt = 0, q_waking = 0,
     q_pc = Polling, q_submitted = [], q_executed = []\<rparr>"

text \<open>The steps of the loop goroutine.\<close>

inductive loop_step :: "'t queue \<Rightarrow> 't queue \<Rightarrow> bool" where
  woken: "q_pc s = Polling \<Longrightarrow> 0 < q_evt s \<Longrightarrow> loop_step s (s\<lparr>q_evt := 0, q_pc := ReadPt\<rparr>)"
| other_event: "q_pc s = Polling \<Longrightarrow> loop_step s (s\<lparr>q_pc := ReadPt\<rparr>)"
| read_pt: "q_pc s = ReadPt \<Longrightarrow> loop_step s (s\<lparr>q_pc := SwapPt (q_pending s)\<rparr>)"
| swap: "q_pc s = SwapPt pt \<Longrightarrow> loop_step s (s\<lparr>q_pending := q_fresh s,
      q_lists := (q_lists s)(q_fresh s := []), q_fresh := Suc (q_fresh s), q_pc := RunPt pt 0\<rparr>)"
| run: "q_pc s = RunPt pt i \<Longrightarrow> i < length (q_lists s pt) \<Longrightarrow>
    loop_step s (s\<lparr>q_executed := q_executed s @ [q_lists s pt ! i], q_pc := RunPt pt (Suc i)\<rparr>)"
| finish: "q_pc s = RunPt pt i \<Longrightarrow> length (q_lists s pt) \<le> i \<Longrightarrow>
    loop_step s (s\<lparr>q_pc := Polling\<rparr>)"

text \<open>The two steps of \<open>AsyncExecute\<close>, by any goroutine: the locked push, then the wakeup.\<close>

inductive submit_step :: "'t queue \<Rightarrow> 't queue \<Rightarrow> bool" where
  push: "submit_step s (s\<lparr>q_lists := (q_lists s)(q_pending s := q_lists s (q_pending s) @ [t]),
      q_submitted := q_submitted s @ [t], q_waking := Suc (q_waking s)\<rparr>)"
| wake: "0 < q_waking s \<Longrightarrow>
    submit_step s (s\<lparr>q_evt := Suc (q_evt s), q_waking := q_waking s - 1\<rparr>)"

inductive queue_reachable :: "'t queue \<Rightarrow> bool" where
  init: "queue_reachable queue_init"
| loop: "queue_reachable s \<Longrightarrow> loop_step s t \<Longrightarrow> queue_reachable t"
| submit: "queue_reachable s \<Longrightarrow> submit_step s t \<Longrightarrow> queue_reachable t"

text \<open>The tasks that have been pushed and not yet run, oldest first.\<close>

definition backlog :: "'t queue \<Rightarrow> 't list" where
  "backlog s = (case q_pc s of
       RunPt pt i \<Rightarrow> drop i (q_lists s pt) @ q_lists s (q_pending s)
     | _ \<Rightarrow> q_lists s (q_pending s))"

definition queue_inv :: "'t queue \<Rightarrow> bool" where
  "queue_inv s \<longleftrightarrow>
     q_submitted s = q_executed s @ backlog s \<and>
     q_pending s < q_fresh s \<and>
     (case q_pc s of SwapPt pt \<Rightarrow> pt = q_pending s
      | RunPt pt i \<Rightarrow> pt < q_fresh s \<and> pt \<noteq> q_pending s | _ \<Rightarrow> True) \<and>
     ((case q_pc s of Polling \<Rightarrow> True | RunPt _ _ \<Rightarrow> True | _ \<Rightarrow> False) \<longrightarrow>
       q_lists s (q_pending s) \<noteq> [] \<longrightarrow> 0 < q_evt s + q_waking s)"

lemma queue_inv_init: "queue_inv queue_init"
  by (simp add: queue_inv_def queue_init_def backlog_def)

lemma queue_inv_loop: "loop_step s t \<Longrightarrow> queue_inv s \<Longrightarrow> queue_inv t"
  by (induction rule: loop_step.induct)
    (auto simp: queue_inv_def backlog_def Cons_nth_drop_Suc split: loop_pc.splits)

lemma queue_inv_submit: "submit_step s t \<Longrightarrow> queue_inv s \<Longrightarrow> queue_inv t"
  by (induction rule: submit_step.induct)
    (auto simp: queue_inv_def backlog_def split: loop_pc.splits)

lemma queue_reachable_inv: "queue_reachable s \<Longrightarrow> queue_inv s"
  by (induction rule: queue_reachable.induct)
    (auto intro: queue_inv_init queue_inv_loop queue_inv_submit)

text \<open>The loop goroutine alone runs a detached list to its end and goes back to polling.\<close>

lemma run_detached:
  assumes "q_pc s = RunPt pt i" and "i \<le> length (q_lists s pt)"
  shows "loop_step\<^sup>*\<^sup>* s (s\<lparr>q_executed := q_executed s @ drop i (q_lists s pt), q_pc := Polling\<rparr>)"
  using assms
proof (induction "length (q_lists s pt) - i" arbitrary: s i)
  case 0
  then have "loop_step s (s\<lparr>q_pc := Polling\<rparr>)"
    by (intro loop_step.finish) auto
  then show ?case
    using 0 by (auto intro!: r_into_rtranclp)
next
  case (Suc n)
  let ?t = "s\<lparr>q_executed := q_executed s @ [q_lists s pt ! i], q_pc := RunPt pt (Suc i)\<rparr>"
  have i: "i < length (q_lists s pt)"
    using Suc.hyps(2) by linarith
  have "loop_step\<^sup>*\<^sup>* ?t (?t\<lparr>q_executed := q_executed ?t @ drop (Suc i) (q_lists ?t pt), q_pc := Polling\<rparr>)"
    using Suc.hyps(2) i by (intro Suc.hyps(1)) auto
  moreover have "loop_step s ?t"
    using Suc.prems(1) i by (rule loop_step.run)
  moreover have "q_executed s @ drop i (q_lists s pt) =
      (q_executed s @ [q_lists s pt ! i]) @ drop (Suc i) (q_lists s pt)"
    using i by (simp add: Cons_nth_drop_Suc)
  ultimately show ?case
    by (auto intro: converse_rtranclp_into_rtranclp)
qed

lemma one_iteration:
  assumes "q_pc s = Polling" and "queue_inv s"
  shows "\<exists>t. loop_step\<^sup>*\<^sup>* s t \<and> q_pc t = Polling \<and> q_executed t = q_submitted s \<and>
    q_lists t (q_pending t) = []"
proof -
  let ?pt = "q_pending s"
  define s1 where "s1 = s\<lparr>q_pc := ReadPt\<rparr>"
  define s2 where "s2 = s1\<lparr>q_pc := SwapPt ?pt\<rparr>"
  define s3 where "s3 = s2\<lparr>q_pending := q_fresh s2, q_lists := (q_lists s2)(q_fresh s2 := []),
    q_fresh := Suc (q_fresh s2), q_pc := RunPt ?pt 0\<rparr>"
  define s4 where "s4 = s3\<lparr>q_executed := q_executed s3 @ drop 0 (q_lists s3 ?pt), q_pc := Polling\<rparr>"
  have "loop_step s s1"
    using assms(1) loop_step.other_event by (auto simp: s1_def)
  moreover have "loop_step s1 s2"
    using loop_step.read_pt [of s1] by (simp add: s1_def s2_def)
  moreover have "loop_step s2 s3"
    using loop_step.swap [of s2 ?pt] by (simp add: s2_def s3_def)
  moreover have "loop_step\<^sup>*\<^sup>* s3 s4"
    unfolding s4_def by (rule run_detached) (simp_all add: s3_def)
  ultimately have "loop_step\<^sup>*\<^sup>* s s4"
    by (meson converse_rtranclp_into_rtranclp)
  moreover have "q_executed s4 = q_submitted s"
    using assms by (simp add: s4_def s3_def s2_def s1_def queue_inv_def backlog_def)
  ultimately show ?thesis
    by (intro exI [of _ s4]) (simp add: s4_def s3_def)
qed

section \<open>Properties\<close>

text \<open>
  C4: tasks are run exactly once and in the order in which they were submitted. However
  submitting goroutines and the loop interleave, and although the list pointer is read outside
  the lock, the submitted tasks are always the executed ones followed by the waiting ones.
\<close>

theorem tasks_exactly_once_in_order:
  assumes "queue_reachable s"
  shows "q_submitted s = q_executed s @ backlog s"
  using queue_reachable_inv [OF assms] by (simp add: queue_inv_def)

definition one_pushed :: "nat queue" where
  "one_pushed = queue_init\<lparr>q_lists := (\<lambda>_. [])(0 := [5]), q_submitted := [5], q_waking := 1\<rparr>"

lemma one_pushed_reachable: "queue_reachable one_pushed"
  using queue_reachable.submit [OF queue_reachable.init submit_step.push [of queue_init 5]]
  by (simp add: one_pushed_def queue_init_def)

theorem tasks_exactly_once_in_order_witness:
  "q_submitted one_pushed = q_executed one_pushed @ backlog one_pushed"
  by (rule tasks_exactly_once_in_order [OF one_pushed_reachable])

text \<open>
  C7: no wakeup is lost. Whenever the loop is in \<open>epoll_wait\<close> while tasks are waiting, the
  eventfd is readable or a goroutine that pushed a task is about to write it.
\<close>

theorem no_lost_wakeup:
  assumes "queue_reachable s" and "q_pc s = Polling" and "q_lists s (q_pending s) \<noteq> []"
  shows "0 < q_evt s \<or> 0 < q_waking s"
  using queue_reachable_inv [OF assms(1)] assms(2,3) by (auto simp: queue_inv_def)

theorem no_lost_wakeup_witness: "0 < q_evt one_pushed \<or> 0 < q_waking one_pushed"
  by (rule no_lost_wakeup [OF one_pushed_reachable])
    (simp_all add: one_pushed_def queue_init_def)

text \<open>
  One iteration of the loop, by itself, runs every task that had been submitted when it
  left \<open>epoll_wait\<close>, and leaves an empty queue.
\<close>

theorem iteration_runs_all:
  assumes "queue_reachable s" and "q_pc s = Polling"
  shows "\<exists>t. loop_step\<^sup>*\<^sup>* s t \<and> q_pc t = Polling \<and> q_executed t = q_submitted s \<and>
    q_lists t (q_pending t) = []"
  using assms(2) queue_reachable_inv [OF assms(1)] by (rule one_iteration)

theorem iteration_runs_all_witness:
  "\<exists>t. loop_step\<^sup>*\<^sup>* one_pushed t \<and> q_pc t = Polling \<and> q_executed t = [5] \<and>
    q_lists t (q_pending t) = []"
  using iteration_runs_all [OF one_pushed_reachable]
  by (simp add: one_pushed_def queue_init_def)

end
