(* ===== verification/Timer_Queue.thy ===== *)
theory Timer_Queue
  imports Timer_Heap Poller Task_Queue
begin

text \<open>
  \<open>timer.go\<close>: timer tasks and the timer queue of an event loop, on the world. The heap of a
  queue is the slice of the queue together with the store of the tasks. Running a task's
  callback is the parameter \<open>tcb\<close>; what the queue relies on of callbacks is the locale
  \<open>timer_client\<close>.
\<close>

section \<open>Operations\<close>

definition heap_of :: "loop_ptr \<Rightarrow> world \<Rightarrow> timerTaskHeap" where
  "heap_of el w = \<lparr>h_tasks = tq_tasks (el_tq (loops w el)), h_store = timers w\<rparr>"

definition put_heap :: "loop_ptr \<Rightarrow> timerTaskHeap \<Rightarrow> world \<Rightarrow> world" where
  "put_heap el h w =
     w\<lparr>loops := (loops w)(el := (loops w el)\<lparr>el_tq := (el_tq (loops w el))\<lparr>tq_tasks := h_tasks h\<rparr>\<rparr>),
       timers := h_store h\<rparr>"

definition with_heap :: "loop_ptr \<Rightarrow> (timerTaskHeap, 'a) go \<Rightarrow> (world, 'a) go" where
  "with_heap el m = go_zoom (heap_of el) (put_heap el) m"

definition newTimerTask :: "loop_ptr \<Rightarrow> timeoutCallback \<Rightarrow> time \<Rightarrow> duration \<Rightarrow>
    (world, timer_ptr) go" where
  "newTimerTask el cb t interval = new_timer
     \<lparr>tt_tq = el, tt_expire = t, tt_interval = interval, tt_repeat = interval > 0,
      tt_cb = cb, tt_index = -1, tt_canceled = False\<rparr>"

text \<open>\<open>t.Sub(u)\<close> saturates at the range of \<open>int64\<close>; \<open>Microseconds\<close> truncates towards zero.\<close>

definition time_Sub :: "time \<Rightarrow> time \<Rightarrow> duration" where
  "time_Sub t u = max (- (2 ^ 63)) (min (2 ^ 63 - 1) (t - u))"

definition Microseconds :: "duration \<Rightarrow> int" where
  "Microseconds d = (if d < 0 then - (- d div 1000) else d div 1000)"

definition resetTimerFd :: "int \<Rightarrow> time \<Rightarrow> (world, unit) go" where
  "resetTimerFd timerFd t =
     go_bind (sys SysNow) (\<lambda>r.
     let duration = time_Sub t (ret_n r);
         duration' = (if Microseconds duration < 100 then 100 * 1000 else duration) in
     go_bind (sys (SysTimerfdSettime timerFd duration')) (\<lambda>_. go_ret ()))"

text \<open>\<open>newTimerQueue\<close> returns the queue; \<open>NewEventloop\<close> stores it in \<open>el.tq\<close>.\<close>

definition newTimerQueue :: "loop_ptr \<Rightarrow> (world, timerQueue) go" where
  "newTimerQueue el =
     go_bind (sys SysTimerfdCreate) (\<lambda>r.
     case ret_err r of
       Some e \<Rightarrow> go_panic (PanicErr (Errno e))
     | None \<Rightarrow>
         let timerFd = ret_n r in
         go_bind (NewChannel el timerFd) (\<lambda>ch.
         go_seq (setReadCallback ch (RcTimerQueue el)) (
         go_seq (enableReading ch)
           (go_ret \<lparr>tq_timerFd = timerFd, tq_timerFdChannel = ch, tq_tasks = []\<rparr>))))"

definition insert :: "loop_ptr \<Rightarrow> timer_ptr \<Rightarrow> (world, bool) go" where
  "insert el task =
     go_bind (go_gets (\<lambda>w. (heap_of el w, tt_expire (timers w task)))) (\<lambda>(h, expire).
     go_bind (if Len h = 0 then go_ret True
              else go_bind (with_heap el Top) (\<lambda>top.
                   go_gets (\<lambda>w. expire < tt_expire (timers w top)))) (\<lambda>earliestChanged.
     go_seq (with_heap el (go_modify (heap_Push task)))
       (go_ret earliestChanged)))"

definition addTask :: "loop_ptr \<Rightarrow> timeoutCallback \<Rightarrow> time \<Rightarrow> duration \<Rightarrow>
    (world, timer_ptr) go" where
  "addTask el cb t interval =
     go_bind (newTimerTask el cb t interval) (\<lambda>tt.
     go_bind (insert el tt) (\<lambda>earliestChanged.
     go_bind (go_gets (\<lambda>w. tq_timerFd (el_tq (loops w el)))) (\<lambda>fd.
     go_seq (go_when earliestChanged (resetTimerFd fd t))
       (go_ret tt))))"

definition addTask0 :: "loop_ptr \<Rightarrow> timer_ptr \<Rightarrow> (world, unit) go" where
  "addTask0 el task =
     go_bind (insert el task) (\<lambda>earliestChanged.
     go_bind (go_gets (\<lambda>w. (tq_timerFd (el_tq (loops w el)), tt_expire (timers w task)))) (\<lambda>(fd, t).
     go_when earliestChanged (resetTimerFd fd t)))"

text \<open>\<open>cancel\<close> submits a closure, whose body is \<open>cancelTask\<close>.\<close>

definition cancel :: "loop_ptr \<Rightarrow> timer_ptr \<Rightarrow> (world, unit) go" where
  "cancel el tt = AsyncExecute el (TkCancel el tt)"

definition cancelTask :: "loop_ptr \<Rightarrow> timer_ptr \<Rightarrow> (world, unit) go" where
  "cancelTask el tt =
     go_seq (upd_timer tt (\<lambda>t. t\<lparr>tt_repeat := False\<rparr>)) (
     go_seq (upd_timer tt (\<lambda>t. t\<lparr>tt_canceled := True\<rparr>)) (
     go_bind (go_gets (\<lambda>w. tt_index (timers w tt))) (\<lambda>index.
     go_when (index > 0)
       (go_bind (with_heap el (heap_Remove index)) (\<lambda>_. go_ret ())))))"

definition Cancel :: "timer_ptr \<Rightarrow> (world, unit) go" where
  "Cancel tt = go_bind (go_gets (\<lambda>w. tt_tq (timers w tt))) (\<lambda>el. cancel el tt)"

definition run_task :: "(timeoutCallback \<Rightarrow> (world, unit) go) \<Rightarrow> timer_ptr \<Rightarrow> (world, unit) go" where
  "run_task tcb tt = go_bind (go_gets (\<lambda>w. tt_cb (timers w tt))) tcb"

definition restart :: "timer_ptr \<Rightarrow> time \<Rightarrow> (world, unit) go" where
  "restart tt t = upd_timer tt (\<lambda>task.
     if tt_repeat task then task\<lparr>tt_expire := t + tt_interval task\<rparr>
     else task\<lparr>tt_expire := 0\<rparr>)"

definition invalidTime :: time where
  "invalidTime = 0"

definition getExpired :: "loop_ptr \<Rightarrow> time \<Rightarrow> (world, timer_ptr list) go" where
  "getExpired el t = with_heap el (getAndRemoveExpired t)"

definition reinsert :: "loop_ptr \<Rightarrow> time \<Rightarrow> timer_ptr \<Rightarrow> (world, unit) go" where
  "reinsert el t v =
     go_bind (go_gets (\<lambda>w. timers w v)) (\<lambda>task.
     go_when (tt_repeat task \<and> \<not> tt_canceled task)
       (go_seq (restart v t) (go_bind (insert el v) (\<lambda>_. go_ret ()))))"

definition reset :: "loop_ptr \<Rightarrow> timer_ptr list \<Rightarrow> time \<Rightarrow> (world, unit) go" where
  "reset el expired t =
     go_seq (go_for expired (reinsert el t)) (
     go_bind (go_gets (heap_of el)) (\<lambda>h.
     go_when (Len h > 0)
       (go_bind (with_heap el Top) (\<lambda>top.
        go_bind (go_gets (\<lambda>w. (tt_expire (timers w top), tq_timerFd (el_tq (loops w el))))) (\<lambda>(nextExpire, fd).
        go_when (nextExpire > invalidTime) (resetTimerFd fd nextExpire))))))"

definition run_expired :: "(timeoutCallback \<Rightarrow> (world, unit) go) \<Rightarrow> timer_ptr \<Rightarrow> (world, unit) go" where
  "run_expired tcb v =
     go_bind (go_gets (\<lambda>w. tt_canceled (timers w v))) (\<lambda>canceled.
     go_when (\<not> canceled) (run_task tcb v))"

definition tq_handleRead :: "(timeoutCallback \<Rightarrow> (world, unit) go) \<Rightarrow> loop_ptr \<Rightarrow> time \<Rightarrow>
    (world, unit) go" where
  "tq_handleRead tcb el ts =
     go_bind (go_gets (\<lambda>w. tq_timerFd (el_tq (loops w el)))) (\<lambda>fd.
     go_bind (sys (SysRead fd 8)) (\<lambda>_.
     go_bind (sys SysNow) (\<lambda>r.
     let now = ret_n r in
     go_bind (getExpired el now) (\<lambda>expiredTask.
     go_seq (go_for expiredTask (run_expired tcb))
       (reset el expiredTask now)))))"

definition tq_shutdown :: "loop_ptr \<Rightarrow> (world, unit) go" where
  "tq_shutdown el =
     go_bind (go_gets (\<lambda>w. tq_timerFd (el_tq (loops w el)))) (\<lambda>fd.
     go_bind (sys (SysClose fd)) (\<lambda>_. go_ret ()))"

section \<open>The invariant\<close>

text \<open>The allocated tasks of the queue of \<open>el\<close>.\<close>

definition owned :: "loop_ptr \<Rightarrow> world \<Rightarrow> timer_ptr set" where
  "owned el w = {p. p < n_timers w \<and> tt_tq (timers w p) = el}"

definition timer_inv :: "loop_ptr \<Rightarrow> world \<Rightarrow> bool" where
  "timer_inv el w \<longleftrightarrow> heap_ok (owned el w) (heap_of el w) \<and>
     (\<forall>p \<in> owned el w. tt_repeat (timers w p) \<longrightarrow> 0 < tt_interval (timers w p))"

definition queued :: "loop_ptr \<Rightarrow> world \<Rightarrow> timer_ptr set" where
  "queued el w = set (tq_tasks (el_tq (loops w el)))"

abbreviation timerFd :: "loop_ptr \<Rightarrow> world \<Rightarrow> int" where
  "timerFd el w \<equiv> tq_timerFd (el_tq (loops w el))"

text \<open>The tasks of a world that differs in positions only.\<close>

definition tasks_kept :: "world \<Rightarrow> world \<Rightarrow> bool" where
  "tasks_kept w w' \<longleftrightarrow> n_timers w \<le> n_timers w' \<and>
     (\<forall>p < n_timers w. (timers w' p)\<lparr>tt_index := 0\<rparr> = (timers w p)\<lparr>tt_index := 0\<rparr>)"

lemma heap_of_simps [simp]:
  "h_tasks (heap_of el w) = tq_tasks (el_tq (loops w el))"
  "h_store (heap_of el w) = timers w"
  "heap_of el (put_heap el h w) = h"
  by (simp_all add: heap_of_def put_heap_def)

lemma put_heap_simps [simp]:
  "env (put_heap el h w) = env w" "trace (put_heap el h w) = trace w"
  "chans (put_heap el h w) = chans w" "conns (put_heap el h w) = conns w"
  "acceptors (put_heap el h w) = acceptors w" "servers (put_heap el h w) = servers w"
  "connectors (put_heap el h w) = connectors w" "clients (put_heap el h w) = clients w"
  "timers (put_heap el h w) = h_store h" "n_timers (put_heap el h w) = n_timers w"
  "n_loops (put_heap el h w) = n_loops w" "n_chans (put_heap el h w) = n_chans w"
  "n_conns (put_heap el h w) = n_conns w"
  "timerFd el' (put_heap el h w) = timerFd el' w"
  "tq_tasks (el_tq (loops (put_heap el h w) el)) = h_tasks h"
  "queued el (put_heap el h w) = set (h_tasks h)"
  by (simp_all add: put_heap_def queued_def)

lemma wp_with_heap [simp]:
  "wp E (with_heap el m) Q w = wp E m (\<lambda>a h. Q a (put_heap el h w)) (heap_of el w)"
  by (simp add: with_heap_def)

lemma wp_Top [simp]:
  "wp E Top Q h = (if h_tasks h = [] then E IndexOutOfRange else Q (hd (h_tasks h)) h)"
  by (auto simp: wp_def Top_def go_index_def go_ret_def go_panic_def hd_conv_nth)

lemma put_heap_same [simp]: "put_heap el (heap_of el w) w = w"
  by (simp add: put_heap_def heap_of_def)

lemma heap_ok_cong:
  assumes "h_tasks h' = h_tasks h"
    and "\<And>p. p \<in> own \<Longrightarrow> tt_index (h_store h' p) = tt_index (h_store h p)"
    and "\<And>p. p \<in> own \<Longrightarrow> p \<in> set (h_tasks h) \<Longrightarrow> tt_expire (h_store h' p) = tt_expire (h_store h p)"
    and "heap_ok own h"
  shows "heap_ok own h'"
proof -
  have own: "p \<in> own" if "p \<in> set (h_tasks h)" for p
    using that assms(4) by (auto simp: heap_ok_def index_coherent_def)
  have "heap_view h' = heap_view h"
    using assms(1) by (auto simp: heap_view_def own assms(3))
  moreover have "index_coherent own h'"
    using assms(4) own by (auto simp: heap_ok_def index_coherent_def task_at_def assms(1,2))
  ultimately show ?thesis
    using assms(1,4) by (simp add: heap_ok_def Len_def)
qed

lemma owned_frame:
  "store_frame own (heap_of el w) h \<Longrightarrow> owned el' (put_heap el h w) = owned el' w"
  by (simp add: owned_def store_frame_fields(2))

lemma timer_inv_put:
  assumes "store_frame (owned el w) (heap_of el w) h" and "heap_ok (owned el w) h" and "timer_inv el w"
  shows "timer_inv el (put_heap el h w)"
  using assms owned_frame [OF assms(1)] store_frame_fields [OF assms(1)]
  by (simp add: timer_inv_def)

text \<open>An operation on one queue leaves the queues of the other loops alone.\<close>

lemma timer_inv_other:
  assumes "store_frame (owned el w) (heap_of el w) h" and "el' \<noteq> el" and "timer_inv el' w"
  shows "timer_inv el' (put_heap el h w)"
proof -
  have "h_store h p = timers w p" if "p \<in> owned el' w" for p
    using that assms(1,2) by (auto simp: store_frame_def owned_def)
  then show ?thesis
    using assms(2,3) heap_ok_cong [of "heap_of el' (put_heap el h w)" "heap_of el' w" "owned el' w"]
    by (simp add: timer_inv_def owned_frame [OF assms(1)]) (simp add: put_heap_def)
qed

lemma tasks_kept_refl [simp]: "tasks_kept w w"
  by (simp add: tasks_kept_def)

lemma tasks_kept_trans: "tasks_kept w w1 \<Longrightarrow> tasks_kept w1 w2 \<Longrightarrow> tasks_kept w w2"
  by (auto simp: tasks_kept_def)

lemma tasks_kept_put: "store_frame own (heap_of el w) h \<Longrightarrow> tasks_kept w (put_heap el h w)"
  by (simp add: tasks_kept_def store_frame_def)

lemma tasks_kept_fields:
  assumes "tasks_kept w w'" and "p < n_timers w"
  shows "tt_expire (timers w' p) = tt_expire (timers w p)"
    and "tt_tq (timers w' p) = tt_tq (timers w p)"
    and "tt_canceled (timers w' p) = tt_canceled (timers w p)"
    and "tt_repeat (timers w' p) = tt_repeat (timers w p)"
    and "tt_cb (timers w' p) = tt_cb (timers w p)"
    and "tt_interval (timers w' p) = tt_interval (timers w p)"
proof -
  have "store_frame UNIV \<lparr>h_tasks = [], h_store = (\<lambda>_. timers w p)\<rparr>
      \<lparr>h_tasks = [], h_store = (\<lambda>_. timers w' p)\<rparr>"
    using assms by (simp add: tasks_kept_def store_frame_def)
  from store_frame_fields [OF this]
  show "tt_expire (timers w' p) = tt_expire (timers w p)"
    "tt_tq (timers w' p) = tt_tq (timers w p)"
    "tt_canceled (timers w' p) = tt_canceled (timers w p)"
    "tt_repeat (timers w' p) = tt_repeat (timers w p)"
    "tt_cb (timers w' p) = tt_cb (timers w p)"
    "tt_interval (timers w' p) = tt_interval (timers w p)"
    by simp_all
qed

lemma timer_inv_queued: "timer_inv el w \<Longrightarrow> queued el w \<subseteq> owned el w"
  by (auto simp: timer_inv_def heap_ok_def index_coherent_def queued_def)

lemma timer_inv_index:
  "timer_inv el w \<Longrightarrow> p \<in> owned el w \<Longrightarrow> p \<notin> queued el w \<Longrightarrow> tt_index (timers w p) = -1"
  by (auto simp: timer_inv_def heap_ok_def index_coherent_def queued_def)

text \<open>Changing fields of a task that the order of the heap does not read.\<close>

lemma timer_inv_upd_timer:
  assumes "timer_inv el w" and "\<And>t. tt_index (f t) = tt_index t" and "\<And>t. tt_tq (f t) = tt_tq t"
    and "\<And>t. tt_interval (f t) = tt_interval t" and "\<And>t. tt_repeat (f t) \<Longrightarrow> tt_repeat t"
    and "p \<in> queued el w \<Longrightarrow> tt_expire (f (timers w p)) = tt_expire (timers w p)"
  shows "timer_inv el (w\<lparr>timers := (timers w)(p := f (timers w p))\<rparr>)"
proof -
  have "owned el (w\<lparr>timers := (timers w)(p := f (timers w p))\<rparr>) = owned el w"
    using assms(3) by (auto simp: owned_def)
  moreover have "heap_ok (owned el w) (heap_of el (w\<lparr>timers := (timers w)(p := f (timers w p))\<rparr>))"
    by (rule heap_ok_cong [of _ "heap_of el w"])
      (use assms in \<open>auto simp: timer_inv_def queued_def\<close>)
  ultimately show ?thesis
    using assms(1,4,5) by (auto simp: timer_inv_def)
qed

lemma timer_inv_trace [simp]: "timer_inv el (w\<lparr>trace := tr\<rparr>) = timer_inv el w"
  by (simp add: timer_inv_def owned_def heap_of_def)

lemma owned_trace [simp]: "owned el (w\<lparr>trace := tr\<rparr>) = owned el w"
  by (simp add: owned_def)

lemma queued_trace [simp]: "queued el (w\<lparr>trace := tr\<rparr>) = queued el w"
  by (simp add: queued_def)

lemma tasks_kept_trace [simp]: "tasks_kept w (w'\<lparr>trace := tr\<rparr>) = tasks_kept w w'"
  by (simp add: tasks_kept_def)

section \<open>Arming the timer\<close>

text \<open>How far ahead \<open>resetTimerFd\<close> arms the timer.\<close>

definition arm_delay :: "time \<Rightarrow> time \<Rightarrow> duration" where
  "arm_delay t now =
     (if Microseconds (time_Sub t now) < 100 then 100 * 1000 else time_Sub t now)"

definition arm_calls :: "int \<Rightarrow> time \<Rightarrow> world \<Rightarrow> trace" where
  "arm_calls fd t w =
     (let r = env w (trace w) SysNow; s = SysTimerfdSettime fd (arm_delay t (ret_n r)) in
      [(SysNow, r), (s, env w (trace w @ [(SysNow, r)]) s)])"

lemma wp_resetTimerFd [simp]:
  "wp E (resetTimerFd fd t) Q w = Q () (w\<lparr>trace := trace w @ arm_calls fd t w\<rparr>)"
  by (simp add: resetTimerFd_def arm_delay_def arm_calls_def Let_def)

lemma arm_delay_bounds: "100000 \<le> arm_delay t now" "t - now < 2 ^ 63 \<Longrightarrow> t - now \<le> arm_delay t now"
proof -
  have "100000 \<le> d" if "\<not> Microseconds d < 100" for d
    using that by (auto simp: Microseconds_def split: if_splits)
  then show 1: "100000 \<le> arm_delay t now"
    by (auto simp: arm_delay_def)
  assume "t - now < 2 ^ 63"
  then have le: "t - now \<le> time_Sub t now"
    by (simp add: time_Sub_def)
  have "time_Sub t now < 100000" if "Microseconds (time_Sub t now) < 100"
    using that by (auto simp: Microseconds_def split: if_splits)
  then show "t - now \<le> arm_delay t now"
    using le by (force simp: arm_delay_def)
qed

text \<open>The last setting of a timer in a trace: the clock value read before it, and the delay.\<close>

fun arm_step :: "int \<Rightarrow> syscall \<times> sysret \<Rightarrow> time \<times> (time \<times> duration) option \<Rightarrow>
    time \<times> (time \<times> duration) option" where
  "arm_step fd (SysNow, r) (c, a) = (ret_n r, a)"
| "arm_step fd (SysTimerfdSettime f d, r) (c, a) = (c, if f = fd then Some (c, d) else a)"
| "arm_step fd _ s = s"

definition last_arm :: "int \<Rightarrow> trace \<Rightarrow> (time \<times> duration) option" where
  "last_arm fd tr = snd (fold (arm_step fd) tr (0, None))"

lemma last_arm_calls [simp]:
  "last_arm fd (tr @ arm_calls fd t w) =
     Some (ret_n (env w (trace w) SysNow), arm_delay t (ret_n (env w (trace w) SysNow)))"
  by (cases "fold (arm_step fd) tr (0, None)") (simp add: last_arm_def arm_calls_def Let_def)

fun sets_timer :: "syscall \<Rightarrow> bool" where
  "sets_timer (SysTimerfdSettime f d) = True"
| "sets_timer _ = False"

lemma last_arm_snoc [simp]: "\<not> sets_timer s \<Longrightarrow> last_arm fd (tr @ [(s, r)]) = last_arm fd tr"
  by (cases s; cases "fold (arm_step fd) tr (0, None)") (auto simp: last_arm_def)


text \<open>
  \<open>armed\<close>: when there are tasks, the last setting of the timer was made for the earliest one.
  \<open>armable\<close> is the weaker statement that holds while \<open>handleRead\<close> is at work: if it was not,
  then \<open>reset\<close> is going to set the timer. Both speak of what was last asked of the kernel:
  \<open>resetTimerFd\<close> only writes a log line when \<open>timerfd_settime\<close> fails (as it does for an invalid
  descriptor or time), and the timer then keeps its old setting.
\<close>

abbreviation top_expire :: "loop_ptr \<Rightarrow> world \<Rightarrow> time" where
  "top_expire el w \<equiv> tt_expire (timers w (hd (tq_tasks (el_tq (loops w el)))))"

definition armed_for :: "loop_ptr \<Rightarrow> time \<Rightarrow> world \<Rightarrow> bool" where
  "armed_for el t w \<longleftrightarrow> (case last_arm (timerFd el w) (trace w) of
       None \<Rightarrow> False | Some (now, d) \<Rightarrow> d = arm_delay t now)"

definition armed :: "loop_ptr \<Rightarrow> world \<Rightarrow> bool" where
  "armed el w \<longleftrightarrow> queued el w = {} \<or> armed_for el (top_expire el w) w"

definition armable :: "loop_ptr \<Rightarrow> world \<Rightarrow> bool" where
  "armable el w \<longleftrightarrow> queued el w = {} \<or> armed_for el (top_expire el w) w \<or> invalidTime < top_expire el w"

lemma armed_armable: "armed el w \<Longrightarrow> armable el w"
  by (auto simp: armed_def armable_def)

lemma top_expire_least:
  assumes "timer_inv el w" and "p \<in> queued el w"
  shows "top_expire el w \<le> tt_expire (timers w p)"
  using heap_ok_top [of "owned el w" "heap_of el w" p] assms
  by (simp add: timer_inv_def queued_def)

lemma queued_top: "queued el w \<noteq> {} \<Longrightarrow> hd (tq_tasks (el_tq (loops w el))) \<in> queued el w"
  by (simp add: queued_def)

text \<open>The earliest expiration depends on the set of tasks only.\<close>

lemma top_expire_eqI:
  assumes "timer_inv el w" and "p \<in> queued el w" and "tt_expire (timers w p) = t"
    and "\<And>q. q \<in> queued el w \<Longrightarrow> t \<le> tt_expire (timers w q)"
  shows "top_expire el w = t"
proof -
  have "queued el w \<noteq> {}"
    using assms(2) by auto
  then show ?thesis
    using assms(4) [OF queued_top] top_expire_least [OF assms(1,2)] assms(3) by simp
qed

section \<open>Inserting\<close>

text \<open>A task of the queue that is not in the heap.\<close>

definition idle_task :: "loop_ptr \<Rightarrow> timer_ptr \<Rightarrow> world \<Rightarrow> bool" where
  "idle_task el p w \<longleftrightarrow> p \<in> owned el w \<and> p \<notin> queued el w"

lemma insert_result:
  "insert el p w =
     Inr (queued el w = {} \<or> tt_expire (timers w p) < top_expire el w,
          put_heap el (heap_Push p (heap_of el w)) w)"
  by (cases "tq_tasks (el_tq (loops w el))")
    (auto simp: insert_def go_defs Len_def queued_def with_heap_def Top_def)

lemma insert_correct:
  assumes "timer_inv el w" and "idle_task el p w"
  defines "w' \<equiv> put_heap el (heap_Push p (heap_of el w)) w"
  shows "timer_inv el w'" and "queued el w' = Set.insert p (queued el w)" and "tasks_kept w w'"
    and "top_expire el w' = (if queued el w = {} \<or> tt_expire (timers w p) < top_expire el w
                             then tt_expire (timers w p) else top_expire el w)"
    and "\<And>el'. el' \<noteq> el \<Longrightarrow> timer_inv el' w \<Longrightarrow> timer_inv el' w'"
proof -
  let ?h = "heap_Push p (heap_of el w)"
  have push: "heap_ok (owned el w) ?h" "store_frame (owned el w) (heap_of el w) ?h"
    "mset (h_tasks ?h) = add_mset p (mset (h_tasks (heap_of el w)))"
    using assms(1,2) heap_Push_correct [of "owned el w" "heap_of el w" p]
    by (auto simp: timer_inv_def idle_task_def queued_def)
  show inv: "timer_inv el w'"
    unfolding w'_def using push(2,1) assms(1) by (rule timer_inv_put)
  show q: "queued el w' = Set.insert p (queued el w)"
    using mset_eq_setD [of "h_tasks ?h" "p # h_tasks (heap_of el w)"] push(3)
    by (simp add: w'_def) (simp add: queued_def)
  show "tasks_kept w w'"
    unfolding w'_def using push(2) by (rule tasks_kept_put)
  have e: "tt_expire (timers w' q) = tt_expire (timers w q)" for q
    using store_frame_fields(1) [OF push(2), of q] by (simp add: w'_def)
  have le: "top_expire el w \<le> tt_expire (timers w q)" if "q \<in> queued el w" for q
    using assms(1) that by (rule top_expire_least)
  show "top_expire el w' = (if queued el w = {} \<or> tt_expire (timers w p) < top_expire el w
      then tt_expire (timers w p) else top_expire el w)"
  proof (cases "queued el w = {} \<or> tt_expire (timers w p) < top_expire el w")
    case True
    then have "top_expire el w' = tt_expire (timers w p)"
      using le by (intro top_expire_eqI [OF inv, of p]) (fastforce simp: q e)+
    with True show ?thesis by simp
  next
    case False
    then have "top_expire el w' = top_expire el w"
      using le queued_top [of el w]
      by (intro top_expire_eqI [OF inv, of "hd (tq_tasks (el_tq (loops w el)))"]) (auto simp: q e)
    with False show ?thesis by simp
  qed
  show "timer_inv el' w'" if "el' \<noteq> el" "timer_inv el' w" for el'
    unfolding w'_def using push(2) that by (rule timer_inv_other)
qed


section \<open>Adding and cancelling\<close>

text \<open>What the operations of the timer queue leave alone.\<close>

definition without_tasks :: "eventloop \<Rightarrow> eventloop" where
  "without_tasks l = l\<lparr>el_tq := (el_tq l)\<lparr>tq_tasks := []\<rparr>\<rparr>"

definition timer_frame :: "loop_ptr \<Rightarrow> world \<Rightarrow> world \<Rightarrow> bool" where
  "timer_frame el w w' \<longleftrightarrow>
     env w' = env w \<and> chans w' = chans w \<and> conns w' = conns w \<and> acceptors w' = acceptors w \<and>
     servers w' = servers w \<and> connectors w' = connectors w \<and> clients w' = clients w \<and>
     n_loops w' = n_loops w \<and> n_chans w' = n_chans w \<and> n_conns w' = n_conns w \<and>
     inert_ext (trace w) (trace w') \<and>
     (\<forall>e. without_tasks (loops w' e) = without_tasks (loops w e)) \<and>
     (\<forall>e. e \<noteq> el \<longrightarrow> loops w' e = loops w e)"

lemma timer_frame_refl [simp]: "timer_frame el w w"
  by (simp add: timer_frame_def)

lemma timer_frame_trans: "timer_frame el w w1 \<Longrightarrow> timer_frame el w1 w2 \<Longrightarrow> timer_frame el w w2"
  by (auto simp: timer_frame_def dest: inert_ext_trans)

lemma without_tasks_fields:
  assumes "without_tasks l' = without_tasks l"
  shows "el_poller l' = el_poller l" "tq_timerFd (el_tq l') = tq_timerFd (el_tq l)"
    and "el_pendingTasks l' = el_pendingTasks l" "el_evtFd l' = el_evtFd l"
    and "tq_timerFdChannel (el_tq l') = tq_timerFdChannel (el_tq l)"
    and "el_wakeupChannel l' = el_wakeupChannel l" "el_activeChannels l' = el_activeChannels l"
    and "el_quit l' = el_quit l"
  using arg_cong [OF assms, of el_poller] arg_cong [OF assms, of "\<lambda>l. tq_timerFd (el_tq l)"]
    arg_cong [OF assms, of el_pendingTasks] arg_cong [OF assms, of el_evtFd]
    arg_cong [OF assms, of "\<lambda>l. tq_timerFdChannel (el_tq l)"]
    arg_cong [OF assms, of el_wakeupChannel] arg_cong [OF assms, of el_activeChannels]
    arg_cong [OF assms, of el_quit]
  by (simp_all add: without_tasks_def)

lemma timer_frame_fields:
  assumes "timer_frame el w w'"
  shows "el_poller (loops w' e) = el_poller (loops w e)" "timerFd e w' = timerFd e w"
    and "el_pendingTasks (loops w' e) = el_pendingTasks (loops w e)"
    and "el_quit (loops w' e) = el_quit (loops w e)"
    and "el_activeChannels (loops w' e) = el_activeChannels (loops w e)"
proof -
  have "without_tasks (loops w' e) = without_tasks (loops w e)"
    using assms by (simp add: timer_frame_def)
  then show "el_poller (loops w' e) = el_poller (loops w e)" "timerFd e w' = timerFd e w"
    "el_pendingTasks (loops w' e) = el_pendingTasks (loops w e)"
    "el_quit (loops w' e) = el_quit (loops w e)"
    "el_activeChannels (loops w' e) = el_activeChannels (loops w e)"
    by (rule without_tasks_fields)+
qed

lemma timer_frame_poller_inv:
  assumes "timer_frame el w w'" and "poller_inv e w"
  shows "poller_inv e w'"
proof -
  have "interest (trace w') = interest (trace w)"
    using assms(1) by (simp add: timer_frame_def inert_ext_interest)
  then show ?thesis
    using assms(1) timer_frame_fields(1) [OF assms(1)]
    by (intro poller_inv_cong [OF assms(2)]) (simp_all add: timer_frame_def)
qed

lemma timer_frame_put [simp]: "timer_frame el w (put_heap el h w)"
  by (simp add: timer_frame_def) (simp add: put_heap_def without_tasks_def)

lemma timer_frame_timers [simp]:
  "timer_frame el w (w'\<lparr>timers := ts\<rparr>) = timer_frame el w w'"
  "timer_frame el w (w'\<lparr>n_timers := n\<rparr>) = timer_frame el w w'"
  by (simp_all add: timer_frame_def)

lemma timer_frame_trace [intro]:
  "inert_ext (trace w') tr \<Longrightarrow> timer_frame el w w' \<Longrightarrow> timer_frame el w (w'\<lparr>trace := tr\<rparr>)"
  by (auto simp: timer_frame_def dest: inert_ext_trans)

lemma inert_arm_calls [simp]: "inert_ext tr (tr @ arm_calls fd t w)"
  by (simp add: arm_calls_def Let_def inert_ext_def inert_def)

text \<open>The effect of adding the idle task \<open>p\<close> to the queue and arming the timer for it.\<close>

definition added :: "loop_ptr \<Rightarrow> timer_ptr \<Rightarrow> world \<Rightarrow> world \<Rightarrow> bool" where
  "added el p w w' \<longleftrightarrow>
     timer_inv el w' \<and> queued el w' = Set.insert p (queued el w) \<and> tasks_kept w w' \<and>
     timer_frame el w w' \<and> n_timers w' = n_timers w \<and>
     (\<forall>e. e \<noteq> el \<longrightarrow> timer_inv e w \<longrightarrow> timer_inv e w') \<and>
     trace w' = trace w @ (if queued el w = {} \<or> tt_expire (timers w p) < top_expire el w
       then arm_calls (timerFd el w) (tt_expire (timers w p)) w else []) \<and>
     (armed el w \<longrightarrow> armed el w') \<and> (armable el w \<longrightarrow> armable el w')"

lemma arm_calls_put [simp]: "arm_calls fd t (put_heap el h w) = arm_calls fd t w"
  by (simp add: arm_calls_def)

lemma armed_for_calls [simp]:
  "armed_for el t (w\<lparr>trace := tr @ arm_calls (timerFd el w) t v\<rparr>)"
  by (simp add: armed_for_def)

lemma armed_for_put [simp]: "armed_for el t (put_heap el h w) = armed_for el t w"
  by (simp add: armed_for_def)

lemma insert_and_arm:
  assumes "timer_inv el w" and "idle_task el p w"
  shows "wp no_panic
    (go_bind (insert el p) (\<lambda>b. go_when b (resetTimerFd (timerFd el w) (tt_expire (timers w p)))))
    (\<lambda>_. added el p w) w"
proof -
  let ?w = "put_heap el (heap_Push p (heap_of el w)) w"
  let ?t = "tt_expire (timers w p)" and ?first = "queued el w = {} \<or> tt_expire (timers w p) < top_expire el w"
  let ?w' = "?w\<lparr>trace := trace w @ arm_calls (timerFd el w) ?t w\<rparr>"
  note ins = insert_correct [OF assms]
  have "added el p w ?w'" if ?first
  proof -
    have "armed_for el (top_expire el ?w) ?w'"
      using ins(4) that armed_for_calls [of el ?t "trace w" ?w w] by simp
    then show ?thesis
      using ins that by (simp add: added_def armed_def armable_def timer_frame_trace)
  qed
  moreover have "added el p w ?w" if "\<not> ?first"
    using ins that by (simp add: added_def armed_def armable_def)
  ultimately show ?thesis
    by (simp add: wp_eq [where m = "insert el p", OF insert_result])
qed


lemma addTask0_correct:
  "timer_inv el w \<Longrightarrow> idle_task el p w \<Longrightarrow> wp no_panic (addTask0 el p) (\<lambda>_. added el p w) w"
proof -
  assume a: "timer_inv el w" "idle_task el p w"
  have "tt_expire (h_store (heap_Push p (heap_of el w)) p) = tt_expire (timers w p)"
    using a heap_Push_correct(2) [of "owned el w" "heap_of el w" p]
    by (auto simp: timer_inv_def idle_task_def queued_def dest: store_frame_fields(1) [where p = p])
  then show ?thesis
    using insert_and_arm [OF a]
    by (simp add: addTask0_def wp_eq [where m = "insert el p", OF insert_result])
qed

text \<open>A new task belongs to its queue and is idle; everything else is as before.\<close>

definition with_task :: "timerTask \<Rightarrow> world \<Rightarrow> world" where
  "with_task t w = w\<lparr>timers := (timers w)(n_timers w := t), n_timers := Suc (n_timers w)\<rparr>"

lemma with_task_sel [simp]:
  "env (with_task t w) = env w" "trace (with_task t w) = trace w" "loops (with_task t w) = loops w"
  "chans (with_task t w) = chans w" "conns (with_task t w) = conns w"
  "n_timers (with_task t w) = Suc (n_timers w)" "queued el (with_task t w) = queued el w"
  "timers (with_task t w) = (timers w)(n_timers w := t)" "timer_frame el w (with_task t w)"
  "tasks_kept w (with_task t w)" "arm_calls fd e (with_task t w) = arm_calls fd e w"
  "acceptors (with_task t w) = acceptors w" "servers (with_task t w) = servers w"
  "connectors (with_task t w) = connectors w" "clients (with_task t w) = clients w"
  "n_conns (with_task t w) = n_conns w"
  by (simp_all add: with_task_def queued_def tasks_kept_def arm_calls_def)

lemma wp_newTimerTask [simp]:
  "wp E (newTimerTask el cb t iv) Q w = Q (n_timers w) (with_task
     \<lparr>tt_tq = el, tt_expire = t, tt_interval = iv, tt_repeat = iv > 0, tt_cb = cb,
      tt_index = -1, tt_canceled = False\<rparr> w)"
  by (simp add: newTimerTask_def with_task_def)

lemma owned_with_task:
  "owned el (with_task t w) = owned el w \<union> (if tt_tq t = el then {n_timers w} else {})"
  by (auto simp: owned_def)

lemma fresh_not_queued: "timer_inv el w \<Longrightarrow> n_timers w \<notin> queued el w"
  using timer_inv_queued [of el w] by (auto simp: owned_def)

lemma timer_inv_with_task:
  assumes "timer_inv el w" and "tt_index t = -1" and "tt_repeat t \<Longrightarrow> 0 < tt_interval t"
  shows "timer_inv el (with_task t w)"
proof -
  have "heap_ok (owned el w) (heap_of el (with_task t w))"
    by (rule heap_ok_cong [of _ "heap_of el w"])
      (use assms(1) in \<open>auto simp: timer_inv_def owned_def\<close>)
  moreover have "index_coherent (owned el w) h \<longleftrightarrow> index_coherent (owned el (with_task t w)) h"
    if "h = heap_of el (with_task t w)" for h
    using that assms fresh_not_queued [OF assms(1)] timer_inv_queued [OF assms(1)]
    by (auto simp: index_coherent_def owned_with_task queued_def)
  moreover have "\<forall>p \<in> owned el (with_task t w). tt_repeat (timers (with_task t w) p) \<longrightarrow>
      0 < tt_interval (timers (with_task t w) p)"
    using assms(1,3) by (auto simp: timer_inv_def owned_def)
  ultimately show ?thesis
    by (simp add: timer_inv_def heap_ok_def)
qed

lemma idle_with_task: "timer_inv el w \<Longrightarrow> tt_tq t = el \<Longrightarrow> idle_task el (n_timers w) (with_task t w)"
  by (simp add: idle_task_def owned_with_task fresh_not_queued)

lemma top_expire_with_task:
  "timer_inv el w \<Longrightarrow> queued el w \<noteq> {} \<Longrightarrow> top_expire el (with_task t w) = top_expire el w"
  using fresh_not_queued [of el w] queued_top [of el w] by auto

lemma armed_with_task:
  assumes "timer_inv el w"
  shows "armed el (with_task t w) = armed el w" "armable el (with_task t w) = armable el w"
proof -
  have "armed_for el e (with_task t w) = armed_for el e w" for e
    by (simp add: armed_for_def)
  then show "armed el (with_task t w) = armed el w" "armable el (with_task t w) = armable el w"
    using top_expire_with_task [OF assms] unfolding armed_def armable_def with_task_sel(7) by metis+
qed

lemma addTask_correct:
  assumes "timer_inv el w"
  defines "task \<equiv> \<lambda>cb t iv. \<lparr>tt_tq = el, tt_expire = t, tt_interval = iv, tt_repeat = iv > 0,
    tt_cb = cb, tt_index = -1, tt_canceled = False\<rparr>"
  shows "wp no_panic (addTask el cb t iv)
    (\<lambda>tt w'. tt = n_timers w \<and> added el tt (with_task (task cb t iv) w) w') w"
proof -
  define w1 where "w1 = with_task (task cb t iv) w"
  have t: "tt_expire (timers w1 (n_timers w)) = t"
    by (simp add: w1_def task_def)
  have "timer_inv el w1" "idle_task el (n_timers w) w1"
    using assms(1)
    by (auto simp: w1_def task_def intro!: timer_inv_with_task idle_with_task)
  from insert_and_arm [OF this]
  moreover have "newTimerTask el cb t iv w = Inr (n_timers w, w1)"
    by (simp add: newTimerTask_def new_timer_def w1_def task_def with_task_def)
  ultimately show ?thesis
    unfolding t w1_def [symmetric]
    by (simp add: addTask_def wp_eq [where m = "newTimerTask el cb t iv"]
        wp_eq [where m = "insert el _", OF insert_result] t
        del: wp_newTimerTask split: if_splits)
qed

text \<open>
  The closure of \<open>cancel\<close>. A task behind the first one is taken out of the heap; the first one,
  and a task that is not in the heap, is only marked.
\<close>

definition cancelled :: "loop_ptr \<Rightarrow> timer_ptr \<Rightarrow> world \<Rightarrow> world \<Rightarrow> bool" where
  "cancelled el p w w' \<longleftrightarrow>
     timer_inv el w' \<and> timer_frame el w w' \<and> trace w' = trace w \<and> n_timers w' = n_timers w \<and>
     (\<forall>e. e \<noteq> el \<longrightarrow> timer_inv e w \<longrightarrow> timer_inv e w') \<and>
     tt_canceled (timers w' p) \<and> \<not> tt_repeat (timers w' p) \<and>
     (\<forall>q. q \<noteq> p \<longrightarrow> (timers w' q)\<lparr>tt_index := 0\<rparr> = (timers w q)\<lparr>tt_index := 0\<rparr>) \<and>
     (\<forall>q. tt_expire (timers w' q) = tt_expire (timers w q) \<and> tt_tq (timers w' q) = tt_tq (timers w q)) \<and>
     queued el w' = (if tt_index (timers w p) > 0 then queued el w - {p} else queued el w)"

lemma heap_ok_hd_index: "heap_ok own h \<Longrightarrow> h_tasks h \<noteq> [] \<Longrightarrow> tt_index (h_store h (hd (h_tasks h))) = 0"
  by (cases "h_tasks h")
    (auto simp: heap_ok_def index_coherent_def task_at_def dest: spec [of _ "0::nat"])

definition marked :: "timer_ptr \<Rightarrow> world \<Rightarrow> world" where
  "marked p w = w\<lparr>timers := (timers w)(p := (timers w p)\<lparr>tt_repeat := False, tt_canceled := True\<rparr>)\<rparr>"

lemma timer_inv_marked: "timer_inv e w \<Longrightarrow> timer_inv e (marked p w)"
  unfolding marked_def
  by (rule timer_inv_upd_timer [where f = "\<lambda>t. t\<lparr>tt_repeat := False, tt_canceled := True\<rparr>"]) auto

lemma marked_sel [simp]:
  "env (marked p w) = env w" "trace (marked p w) = trace w" "loops (marked p w) = loops w"
  "n_timers (marked p w) = n_timers w" "queued el (marked p w) = queued el w"
  "timer_frame el w (marked p w)" "owned el (marked p w) = owned el w"
  "timers (marked p w) = (timers w)(p := (timers w p)\<lparr>tt_repeat := False, tt_canceled := True\<rparr>)"
  by (simp_all add: marked_def queued_def owned_def set_eq_iff)

lemma cancelTask_correct:
  assumes "timer_inv el w" and "p \<in> owned el w"
  shows "wp no_panic (cancelTask el p) (\<lambda>_. cancelled el p w) w"
proof -
  let ?w = "marked p w" and ?i = "tt_index (timers w p)"
  have inv: "timer_inv el ?w"
    using assms(1) by (rule timer_inv_marked)
  have "cancelled el p w ?w" if "\<not> ?i > 0"
    using that inv by (simp add: cancelled_def timer_inv_marked)
  moreover have "wp no_panic (with_heap el (heap_Remove ?i)) (\<lambda>_. cancelled el p w) ?w" if i: "?i > 0"
  proof -
    have "nat ?i < length (tq_tasks (el_tq (loops w el)))" "tq_tasks (el_tq (loops w el)) ! nat ?i = p"
      using heap_ok_index [of "owned el ?w" "heap_of el ?w" p] inv i assms(2)
      by (simp_all add: timer_inv_def)
    then obtain x h where r: "heap_Remove ?i (heap_of el ?w) = Inr (x, h)" "x = p"
      and h: "heap_ok (owned el ?w) h" "store_frame (owned el ?w) (heap_of el ?w) h"
      "mset (tq_tasks (el_tq (loops w el))) = add_mset p (mset (h_tasks h))"
      using heap_Remove_correct [of "owned el ?w" "heap_of el ?w" "nat ?i"] inv i
      by (auto simp: timer_inv_def wp_returns)
    have "distinct (tq_tasks (el_tq (loops w el)))"
      using heap_ok_distinct [of "owned el w" "heap_of el w"] assms(1) by (simp add: timer_inv_def)
    then have "set (h_tasks h) = queued el w - {p}"
      using h(3) unfolding queued_def
      by (metis Diff_insert_absorb distinct.simps(2) list.simps(15) mset.simps(2) mset_eq_imp_distinct_iff mset_eq_setD)
    moreover have "(h_store h q)\<lparr>tt_index := 0\<rparr> = (timers ?w q)\<lparr>tt_index := 0\<rparr>" for q
      using h(2) by (simp add: store_frame_def)
    moreover have "timer_inv e (put_heap el h ?w)" if "e \<noteq> el" "timer_inv e w" for e
      using h(2) that by (intro timer_inv_other) (auto simp: timer_inv_marked)
    ultimately have "cancelled el p w (put_heap el h ?w)"
      using i store_frame_fields [OF h(2)] timer_frame_trans [of el w ?w]
      by (simp add: cancelled_def timer_inv_put [OF h(2,1) inv])
    then show ?thesis
      by (simp add: wp_eq [where m = "heap_Remove ?i", OF r(1)])
  qed
  moreover have "wp no_panic (cancelTask el p) (\<lambda>_. cancelled el p w) w =
      (if ?i > 0 then wp no_panic (with_heap el (heap_Remove ?i)) (\<lambda>_. cancelled el p w) ?w
       else cancelled el p w ?w)"
    by (simp add: cancelTask_def marked_def)
  ultimately show ?thesis
    by simp
qed


lemma cancelled_armed:
  assumes "cancelled el p w w'" and "timer_inv el w"
  shows "armed el w \<Longrightarrow> armed el w'" "armable el w \<Longrightarrow> armable el w'"
proof -
  let ?top = "hd (tq_tasks (el_tq (loops w el)))"
  have fields: "timer_inv el w'" "trace w' = trace w" "timerFd el w' = timerFd el w"
    "\<And>q. tt_expire (timers w' q) = tt_expire (timers w q)"
    using assms(1) by (auto simp: cancelled_def timer_frame_fields(2))
  then have af: "armed_for el t w' = armed_for el t w" for t
    by (simp add: armed_for_def)
  have top: "top_expire el w' = top_expire el w" if "queued el w \<noteq> {}"
  proof -
    have "tt_index (timers w ?top) = 0"
      using heap_ok_hd_index [of "owned el w" "heap_of el w"] assms(2) that
      by (simp add: timer_inv_def queued_def)
    then have "?top \<in> queued el w'" "queued el w' \<subseteq> queued el w"
      using assms(1) queued_top [OF that] by (auto simp: cancelled_def split: if_splits)
    then show ?thesis
      using top_expire_least [OF assms(2)] fields(4)
      by (intro top_expire_eqI [OF fields(1), of ?top]) auto
  qed
  have sub: "queued el w = {} \<Longrightarrow> queued el w' = {}"
    using assms(1) by (simp add: cancelled_def split: if_splits)
  show "armed el w \<Longrightarrow> armed el w'" "armable el w \<Longrightarrow> armable el w'"
    using top sub unfolding armed_def armable_def af by metis+
qed

lemma cancelled_owned:
  assumes "cancelled el p w w'"
  shows "owned e w' = owned e w"
  using assms by (auto simp: cancelled_def owned_def)

section \<open>Handling expiration\<close>

text \<open>The repeating tasks that were not cancelled start again after the interval.\<close>

definition again :: "timerTask \<Rightarrow> bool" where
  "again t \<longleftrightarrow> tt_repeat t \<and> \<not> tt_canceled t"

definition restarted :: "time \<Rightarrow> timerTask \<Rightarrow> timerTask" where
  "restarted now t = (if again t then t\<lparr>tt_expire := now + tt_interval t\<rparr> else t)"

text \<open>The world after the tasks of \<open>ps\<close> have been looked at by the loop of \<open>reset\<close>.\<close>

definition reset_upto :: "loop_ptr \<Rightarrow> time \<Rightarrow> timer_ptr set \<Rightarrow> world \<Rightarrow> world \<Rightarrow> bool" where
  "reset_upto el now ps w w' \<longleftrightarrow>
     timer_inv el w' \<and> timer_frame el w w' \<and> trace w' = trace w \<and> n_timers w' = n_timers w \<and>
     queued el w' = queued el w \<union> {p \<in> ps. again (timers w p)} \<and>
     (\<forall>p. (timers w' p)\<lparr>tt_index := 0\<rparr> =
        (if p \<in> ps then restarted now (timers w p) else timers w p)\<lparr>tt_index := 0\<rparr>) \<and>
     (0 \<le> now \<longrightarrow> armable el w \<longrightarrow> armable el w') \<and>
     (\<forall>e. e \<noteq> el \<longrightarrow> timer_inv e w \<longrightarrow> timer_inv e w')"

lemma timer_inv_restart:
  assumes "timer_inv e w" and "p \<notin> queued e w"
  shows "timer_inv e (w\<lparr>timers := (timers w)(p := restarted t (timers w p))\<rparr>)"
  using assms by (intro timer_inv_upd_timer [where f = "restarted t"]) (auto simp: restarted_def split: if_splits)

lemma reinsert_step:
  assumes "timer_inv el w" and "idle_task el p w"
  shows "wp no_panic (reinsert el t p) (\<lambda>_. reset_upto el t {p} w) w"
proof (cases "again (timers w p)")
  case False
  then show ?thesis
    using assms(1) by (auto simp: reinsert_def again_def reset_upto_def restarted_def)
next
  case True
  define w1 where "w1 = w\<lparr>timers := (timers w)(p := restarted t (timers w p))\<rparr>"
  define w2 where "w2 = put_heap el (heap_Push p (heap_of el w1)) w1"
  have sel: "queued e w1 = queued e w" "owned el w1 = owned el w" "trace w1 = trace w"
    "loops w1 = loops w" "timers w1 = (timers w)(p := restarted t (timers w p))" for e
    by (auto simp: w1_def queued_def owned_def restarted_def)
  have pos: "0 < tt_interval (timers w p)"
    using assms True by (auto simp: timer_inv_def idle_task_def again_def)
  have w1: "timer_inv el w1" "idle_task el p w1"
    using assms timer_inv_restart [of el w p] by (auto simp: w1_def idle_task_def queued_def owned_def restarted_def)
  have foreign: "p \<notin> queued e w" if "e \<noteq> el" "timer_inv e w" for e
    using timer_inv_queued [OF that(2)] that(1) assms(2) by (auto simp: idle_task_def owned_def)
  note ins = insert_correct [OF w1, folded w2_def]
  have top: "top_expire el w1 = top_expire el w" if "queued el w \<noteq> {}"
    using queued_top [OF that] assms(2) by (auto simp: sel idle_task_def)
  have af: "armed_for el e w2 = armed_for el e w" for e
    by (simp add: w2_def armed_for_def sel)
  have exp: "tt_expire (timers w1 p) = t + tt_interval (timers w p)"
    using True by (simp add: sel(5) restarted_def)
  have "armable el w2" if "0 \<le> t" "armable el w"
  proof (cases "queued el w = {} \<or> tt_expire (timers w1 p) < top_expire el w1")
    case True
    then have "top_expire el w2 = t + tt_interval (timers w p)"
      using ins(4) by (simp only: sel(1) exp if_True)
    then show ?thesis
      using that pos by (simp only: armable_def invalidTime_def) linarith
  next
    case False
    then have "top_expire el w2 = top_expire el w" "queued el w \<noteq> {}"
      using ins(4) top by (simp_all only: sel(1) if_False) auto
    then show ?thesis
      using that(2) by (simp only: armable_def af) blast
  qed
  moreover have "timer_inv e w2" if "e \<noteq> el" "timer_inv e w" for e
    using that foreign timer_inv_restart [of e w p t] by (intro ins(5)) (auto simp: w1_def)
  moreover have "(timers w2 q)\<lparr>tt_index := 0\<rparr> =
      (if q = p then restarted t (timers w p) else timers w q)\<lparr>tt_index := 0\<rparr>" for q
    using heap_Push_correct(2) [of "owned el w1" "heap_of el w1" p] w1
    by (simp add: w2_def timer_inv_def idle_task_def queued_def store_frame_def sel)
  moreover have "timer_frame el w w2" "trace w2 = trace w" "n_timers w2 = n_timers w"
    by (simp_all add: w2_def w1_def timer_frame_trans [OF _ timer_frame_put])
  moreover have "queued el w2 = queued el w \<union> {q \<in> {p}. again (timers w q)}"
    using True ins(2) by (auto simp: sel)
  ultimately have "reset_upto el t {p} w w2"
    using ins(1) by (simp add: reset_upto_def)
  moreover have "reinsert el t p w = Inr ((), w2)"
    using True insert_result [of el p w1]
    by (simp add: reinsert_def restart_def upd_timer_def go_defs again_def restarted_def w1_def w2_def)
  ultimately show ?thesis
    by (simp add: wp_def)
qed


lemma same_but_index:
  assumes "a\<lparr>tt_index := 0\<rparr> = b\<lparr>tt_index := 0\<rparr>"
  shows "again a = again b" "tt_tq a = tt_tq b" "tt_expire a = tt_expire b"
    and "(restarted t a)\<lparr>tt_index := 0\<rparr> = (restarted t b)\<lparr>tt_index := 0\<rparr>"
proof -
  have f: "tt_repeat a = tt_repeat b" "tt_canceled a = tt_canceled b" "tt_interval a = tt_interval b"
    and "tt_tq a = tt_tq b" "tt_expire a = tt_expire b"
    using arg_cong [OF assms, of tt_repeat] arg_cong [OF assms, of tt_canceled]
      arg_cong [OF assms, of tt_interval] arg_cong [OF assms, of tt_tq]
      arg_cong [OF assms, of tt_expire] by simp_all
  then show "again a = again b" "tt_tq a = tt_tq b" "tt_expire a = tt_expire b"
    by (simp_all add: again_def)
  have "a\<lparr>tt_expire := e, tt_index := 0\<rparr> = b\<lparr>tt_expire := e, tt_index := 0\<rparr>" for e
    using assms by (cases a; cases b) simp
  then show "(restarted t a)\<lparr>tt_index := 0\<rparr> = (restarted t b)\<lparr>tt_index := 0\<rparr>"
    using f assms by (simp add: restarted_def again_def)
qed

lemma restarted_tq [simp]: "tt_tq (restarted t a) = tt_tq a"
  by (simp add: restarted_def)

lemma reset_upto_other:
  assumes "reset_upto el t {p} w w1" and "q \<noteq> p"
  shows "(timers w1 q)\<lparr>tt_index := 0\<rparr> = (timers w q)\<lparr>tt_index := 0\<rparr>"
  using assms by (simp add: reset_upto_def)

lemma reset_upto_idle:
  assumes "reset_upto el t {p} w w1" and "q \<noteq> p" and "idle_task el q w"
  shows "idle_task el q w1"
  using assms same_but_index(2) [OF reset_upto_other [OF assms(1,2)]]
  by (auto simp: reset_upto_def idle_task_def owned_def)

lemma reset_upto_Cons:
  assumes "reset_upto el t {p} w w1" and "reset_upto el t Q w1 w2" and "p \<notin> Q"
  shows "reset_upto el t (Set.insert p Q) w w2"
proof -
  have other: "(timers w1 q)\<lparr>tt_index := 0\<rparr> = (timers w q)\<lparr>tt_index := 0\<rparr>" if "q \<in> Q" for q
    using that assms(1,3) by (auto intro: reset_upto_other)
  have ag: "again (timers w1 q) = again (timers w q)" if "q \<in> Q" for q
    using same_but_index(1) [OF other [OF that]] .
  have "queued el w2 = queued el w \<union> {q \<in> Set.insert p Q. again (timers w q)}"
    using assms(1,2) ag by (auto simp: reset_upto_def)
  moreover have "(timers w2 q)\<lparr>tt_index := 0\<rparr> =
      (if q \<in> Set.insert p Q then restarted t (timers w q) else timers w q)\<lparr>tt_index := 0\<rparr>" for q
    using assms same_but_index(4) [OF other] by (auto simp: reset_upto_def)
  ultimately show ?thesis
    using assms(1,2) timer_frame_trans [of el w w1 w2] by (simp add: reset_upto_def)
qed

lemma reset_loop:
  assumes "timer_inv el w" and "distinct ps" and "\<And>p. p \<in> set ps \<Longrightarrow> idle_task el p w"
  shows "wp no_panic (go_for ps (reinsert el t)) (\<lambda>_. reset_upto el t (set ps) w) w"
  using assms
proof (induction ps arbitrary: w)
  case Nil
  then show ?case
    by (simp add: reset_upto_def)
next
  case (Cons p ps)
  have "wp no_panic (reinsert el t p) (\<lambda>_. reset_upto el t {p} w) w"
    using Cons.prems by (intro reinsert_step) auto
  moreover have "wp no_panic (go_for ps (reinsert el t)) (\<lambda>_. reset_upto el t (set (p # ps)) w) w1"
    if w1: "reset_upto el t {p} w w1" for w1
  proof -
    have "wp no_panic (go_for ps (reinsert el t)) (\<lambda>_. reset_upto el t (set ps) w1) w1"
    proof (rule Cons.IH)
      show "timer_inv el w1"
        using w1 by (simp add: reset_upto_def)
      show "idle_task el q w1" if "q \<in> set ps" for q
        using that Cons.prems(2,3) by (intro reset_upto_idle [OF w1]) auto
    qed (use Cons.prems(2) in simp)
    then show ?thesis
      using Cons.prems(2) reset_upto_Cons [OF w1] by (auto elim: wp_mono)
  qed
  ultimately show ?case
    by (auto elim: wp_mono)
qed

text \<open>\<open>reset\<close> ends with the timer armed for the earliest task.\<close>

definition reset_done :: "loop_ptr \<Rightarrow> time \<Rightarrow> timer_ptr set \<Rightarrow> world \<Rightarrow> world \<Rightarrow> bool" where
  "reset_done el t ps w w' \<longleftrightarrow>
     (\<exists>w1 tr. reset_upto el t ps w w1 \<and> w' = w1\<lparr>trace := tr\<rparr> \<and> inert_ext (trace w) tr) \<and>
     (0 \<le> t \<longrightarrow> armable el w \<longrightarrow> armed el w')"

lemma reset_correct:
  assumes "timer_inv el w" and "distinct ps" and "\<And>p. p \<in> set ps \<Longrightarrow> idle_task el p w"
  shows "wp no_panic (reset el ps t) (\<lambda>_. reset_done el t (set ps) w) w"
proof -
  have "reset_done el t (set ps) w w1"
    if "reset_upto el t (set ps) w w1" "queued el w1 = {} \<or> \<not> invalidTime < top_expire el w1" for w1
  proof -
    have "armed el w1" if "0 \<le> t" "armable el w"
    proof -
      have "armable el w1"
        using \<open>reset_upto el t (set ps) w w1\<close> that by (simp add: reset_upto_def)
      then show ?thesis
        using \<open>queued el w1 = {} \<or> \<not> invalidTime < top_expire el w1\<close>
        by (auto simp: armed_def armable_def)
    qed
    moreover have "w1 = w1\<lparr>trace := trace w1\<rparr>" "inert_ext (trace w) (trace w1)"
      using that(1) by (simp_all add: reset_upto_def)
    ultimately show ?thesis
      using that(1) unfolding reset_done_def by blast
  qed
  moreover have "reset_done el t (set ps) w (w1\<lparr>trace := trace w1 @ arm_calls (timerFd el w1) (top_expire el w1) w1\<rparr>)"
    if "reset_upto el t (set ps) w w1" for w1
  proof -
    have "trace w1 = trace w"
      using that by (simp add: reset_upto_def)
    then show ?thesis
      unfolding reset_done_def armed_def using that by (auto intro!: exI [of _ w1])
  qed
  ultimately have "wp no_panic (go_bind (go_gets (heap_of el)) (\<lambda>h.
     go_when (Len h > 0)
       (go_bind (with_heap el Top) (\<lambda>top.
        go_bind (go_gets (\<lambda>w. (tt_expire (timers w top), tq_timerFd (el_tq (loops w el))))) (\<lambda>(nextExpire, fd).
        go_when (nextExpire > invalidTime) (resetTimerFd fd nextExpire)))))) (\<lambda>_. reset_done el t (set ps) w) w1"
    if "reset_upto el t (set ps) w w1" for w1
    using that by (simp add: Len_def queued_def)
  note tail = this
  show ?thesis
    unfolding reset_def wp_seq by (rule wp_mono [OF reset_loop [OF assms, of t] tail])
qed


text \<open>What \<open>getExpired\<close> takes out of the queue, and what it leaves.\<close>

definition taken :: "loop_ptr \<Rightarrow> time \<Rightarrow> timer_ptr list \<Rightarrow> world \<Rightarrow> world \<Rightarrow> bool" where
  "taken el now ret w w' \<longleftrightarrow>
     timer_inv el w' \<and> timer_frame el w w' \<and> trace w' = trace w \<and> n_timers w' = n_timers w \<and>
     tasks_kept w w' \<and> distinct ret \<and> sorted (map (\<lambda>p. tt_expire (timers w p)) ret) \<and>
     set ret = {p \<in> queued el w. tt_expire (timers w p) \<le> now} \<and>
     queued el w' = {p \<in> queued el w. now < tt_expire (timers w p)} \<and>
     (0 \<le> now \<longrightarrow> armable el w') \<and> (\<forall>p \<in> set ret. idle_task el p w') \<and>
     (\<forall>e. e \<noteq> el \<longrightarrow> timer_inv e w \<longrightarrow> timer_inv e w')"

lemma getExpired_correct:
  assumes "timer_inv el w"
  shows "wp no_panic (getExpired el now) (\<lambda>ret. taken el now ret w) w"
proof -
  obtain ret h where get: "getAndRemoveExpired now (heap_of el w) = Inr (ret, h)"
    and split: "expired_split (owned el w) now (heap_of el w) ret h"
    using getAndRemoveExpired_correct [of "owned el w" "heap_of el w" now] assms
    by (auto simp: timer_inv_def)
  let ?w = "put_heap el h w"
  have frame: "store_frame (owned el w) (heap_of el w) h" and inv: "timer_inv el ?w"
    using split assms by (auto simp: expired_split_def intro: timer_inv_put)
  have ms: "mset (tq_tasks (el_tq (loops w el))) = mset (ret @ h_tasks h)"
    using split by (simp add: expired_split_def)
  have "distinct (tq_tasks (el_tq (loops w el)))"
    using heap_ok_distinct [of "owned el w" "heap_of el w"] assms by (simp add: timer_inv_def)
  then have d: "distinct (ret @ h_tasks h)"
    using ms mset_eq_imp_distinct_iff by blast
  have u: "queued el w = set ret \<union> set (h_tasks h)"
    using mset_eq_setD [OF ms] by (simp add: queued_def)
  have q: "set ret = {p \<in> queued el w. tt_expire (timers w p) \<le> now}"
    "queued el ?w = {p \<in> queued el w. now < tt_expire (timers w p)}"
    using split u by (auto simp: expired_split_def)
  have "armable el ?w" if "0 \<le> now"
  proof (cases "queued el ?w = {}")
    case False
    then have "now < top_expire el ?w"
      using queued_top [of el ?w] split by (simp add: expired_split_def store_frame_fields(1) [OF frame])
    then show ?thesis
      using that by (simp add: armable_def invalidTime_def)
  qed (simp add: armable_def)
  moreover have "idle_task el p ?w" if "p \<in> set ret" for p
    using that d u timer_inv_queued [OF assms] owned_frame [OF frame, of el] by (auto simp: idle_task_def)
  moreover have "timer_inv e ?w" if "e \<noteq> el" "timer_inv e w" for e
    using frame that by (rule timer_inv_other)
  ultimately have "taken el now ret w ?w"
    using inv d q split tasks_kept_put [OF frame] by (simp add: taken_def expired_split_def)
  then show ?thesis
    using wp_eq [where m = "getAndRemoveExpired now", OF get] by (simp add: getExpired_def)
qed

text \<open>
  The contract of user callbacks towards the timer queue of the loop they run on: they may add
  tasks, but tasks that exist keep their fields and stay in or out of the queue (cancelling is
  asynchronous), and the timer stays armed for what they add.
\<close>

definition callback_frame :: "loop_ptr \<Rightarrow> world \<Rightarrow> world \<Rightarrow> bool" where
  "callback_frame el w w' \<longleftrightarrow>
     env w' = env w \<and> timer_inv el w' \<and> tasks_kept w w' \<and> timerFd el w' = timerFd el w \<and>
     (\<forall>p \<in> owned el w. p \<in> queued el w' \<longleftrightarrow> p \<in> queued el w) \<and>
     (armed el w \<longrightarrow> armed el w') \<and> (armable el w \<longrightarrow> armable el w')"

lemma owned_kept: "tasks_kept w w' \<Longrightarrow> p \<in> owned el w \<Longrightarrow> p \<in> owned el w'"
  by (auto simp: owned_def tasks_kept_fields(2)) (auto simp: tasks_kept_def)

lemma callback_frame_refl: "timer_inv el w \<Longrightarrow> callback_frame el w w"
  by (simp add: callback_frame_def)

lemma callback_frame_trans:
  "callback_frame el w w1 \<Longrightarrow> callback_frame el w1 w2 \<Longrightarrow> callback_frame el w w2"
  unfolding callback_frame_def using owned_kept tasks_kept_trans by metis

lemma callback_frame_idle:
  "callback_frame el w w' \<Longrightarrow> idle_task el p w \<Longrightarrow> idle_task el p w'"
  by (auto simp: callback_frame_def idle_task_def intro: owned_kept)

text \<open>The callbacks of the tasks that are to be run, in the order in which they are run.\<close>

definition due :: "timer_ptr list \<Rightarrow> world \<Rightarrow> timeoutCallback list" where
  "due ret w = map (\<lambda>p. tt_cb (timers w p)) (filter (\<lambda>p. \<not> tt_canceled (timers w p)) ret)"

text \<open>The effect of \<open>handleRead\<close> on the tasks that existed before.\<close>

definition handled :: "loop_ptr \<Rightarrow> time \<Rightarrow> world \<Rightarrow> world \<Rightarrow> bool" where
  "handled el now w w' \<longleftrightarrow>
     timer_inv el w' \<and> (0 \<le> now \<longrightarrow> armed el w') \<and>
     (\<forall>p \<in> owned el w.
        (p \<in> queued el w' \<longleftrightarrow>
           p \<in> queued el w \<and> (now < tt_expire (timers w p) \<or> again (timers w p))) \<and>
        (timers w' p)\<lparr>tt_index := 0\<rparr> =
          (if p \<in> queued el w \<and> tt_expire (timers w p) \<le> now then restarted now (timers w p)
           else timers w p)\<lparr>tt_index := 0\<rparr>)"

text \<open>The clock value \<open>handleRead\<close> works with, and the world in which it has read it.\<close>

definition after_read :: "loop_ptr \<Rightarrow> world \<Rightarrow> world" where
  "after_read el w = (let s = SysRead (timerFd el w) 8; tr = trace w @ [(s, env w (trace w) s)] in
     w\<lparr>trace := tr @ [(SysNow, env w tr SysNow)]\<rparr>)"

definition read_clock :: "loop_ptr \<Rightarrow> world \<Rightarrow> time" where
  "read_clock el w = (let s = SysRead (timerFd el w) 8 in
     ret_n (env w (trace w @ [(s, env w (trace w) s)]) SysNow))"

lemma after_read_sel [simp]:
  "env (after_read el w) = env w" "timers (after_read el w) = timers w"
  "n_timers (after_read el w) = n_timers w" "queued e (after_read el w) = queued e w"
  "owned e (after_read el w) = owned e w" "timer_inv e (after_read el w) = timer_inv e w"
  "loops (after_read el w) = loops w" "timer_frame e w (after_read el w)"
  by (auto simp: after_read_def Let_def inert_def)

lemma tq_handleRead_unfold:
  "tq_handleRead tcb el ts w =
     go_bind (getExpired el (read_clock el w)) (\<lambda>expired.
       go_seq (go_for expired (run_expired tcb)) (reset el expired (read_clock el w))) (after_read el w)"
  by (simp add: tq_handleRead_def go_defs sys_def Let_def after_read_def read_clock_def)

text \<open>The three phases of \<open>handleRead\<close>, put together.\<close>

lemma handled_phases:
  assumes "taken el now ret w w1" and "callback_frame el w1 w2" and "reset_done el now (set ret) w2 w3"
    and "timer_inv el w"
  shows "handled el now w w3"
proof -
  obtain v tr where v: "reset_upto el now (set ret) w2 v" and w3: "w3 = v\<lparr>trace := tr\<rparr>"
    using assms(3) by (auto simp: reset_done_def)
  have "timer_inv el w3" "0 \<le> now \<longrightarrow> armed el w3"
    using v assms(1-3) by (auto simp: w3 reset_upto_def reset_done_def taken_def callback_frame_def)
  moreover have "(p \<in> queued el w3 \<longleftrightarrow> p \<in> queued el w \<and> (now < tt_expire (timers w p) \<or> again (timers w p))) \<and>
      (timers w3 p)\<lparr>tt_index := 0\<rparr> = (if p \<in> queued el w \<and> tt_expire (timers w p) \<le> now
        then restarted now (timers w p) else timers w p)\<lparr>tt_index := 0\<rparr>" if p: "p \<in> owned el w" for p
  proof -
    have k: "tasks_kept w w1" "tasks_kept w1 w2" and p1: "p \<in> owned el w1"
      using assms(1,2) p by (auto simp: taken_def callback_frame_def intro: owned_kept)
    then have e: "(timers w2 p)\<lparr>tt_index := 0\<rparr> = (timers w p)\<lparr>tt_index := 0\<rparr>"
      using tasks_kept_trans [OF k] p by (simp add: tasks_kept_def owned_def)
    have "p \<in> queued el w2 \<longleftrightarrow> p \<in> queued el w \<and> now < tt_expire (timers w p)"
      using assms(1,2) p1 by (simp add: taken_def callback_frame_def)
    moreover have "p \<in> set ret \<longleftrightarrow> p \<in> queued el w \<and> tt_expire (timers w p) \<le> now"
      using assms(1) by (simp add: taken_def)
    ultimately show ?thesis
      using v same_but_index [OF e] e by (auto simp: w3 reset_upto_def)
  qed
  ultimately show ?thesis
    by (simp add: handled_def)
qed

text \<open>None of the phases gives a task to another queue.\<close>

lemma taken_owned: "taken el now ret w w' \<Longrightarrow> owned e w' = owned e w"
  by (auto simp: taken_def owned_def tasks_kept_fields(2))

lemma reset_done_owned:
  assumes "reset_done el t ps w w'"
  shows "owned e w' = owned e w"
proof -
  obtain v tr where v: "reset_upto el t ps w v" "w' = v\<lparr>trace := tr\<rparr>"
    using assms by (auto simp: reset_done_def)
  have "tt_tq (timers v p) = tt_tq (if p \<in> ps then restarted t (timers w p) else timers w p)" for p
    using v(1) by (intro same_but_index(2)) (simp add: reset_upto_def)
  then have "tt_tq (timers v p) = tt_tq (timers w p)" for p
    by (simp split: if_splits)
  then show ?thesis
    using v by (simp add: owned_def reset_upto_def)
qed

locale timer_client =
  fixes tcb :: "timeoutCallback \<Rightarrow> (world, unit) go"
    and el :: loop_ptr
    and E :: "panic \<Rightarrow> bool"
    and I :: "world \<Rightarrow> bool"
    and P :: "timer_ptr set"
  assumes callback: "I w \<Longrightarrow> timer_inv el w \<Longrightarrow>
      wp E (tcb cb) (\<lambda>_ w'. I w' \<and> callback_frame el w w') w"
    and frame: "I w \<Longrightarrow> timer_frame el w w' \<Longrightarrow> n_timers w' = n_timers w \<Longrightarrow>
      (\<And>e. timer_inv e w \<Longrightarrow> timer_inv e w') \<Longrightarrow> owned el w' = owned el w \<Longrightarrow>
      queued el w' \<subseteq> queued el w \<union> P \<Longrightarrow> I w'"
begin

lemma run_expired_step:
  assumes "I w" and "timer_inv el w"
  shows "wp E (run_expired tcb p) (\<lambda>_ w'. I w' \<and> callback_frame el w w') w"
  using assms callback by (simp add: run_expired_def run_task_def callback_frame_refl)

lemma run_expired_loop:
  assumes "I w" and "timer_inv el w"
  shows "wp E (go_for ps (run_expired tcb)) (\<lambda>_ w'. I w' \<and> callback_frame el w w') w"
proof (rule wp_for)
  fix p v
  assume "I v \<and> callback_frame el w v"
  then have "wp E (run_expired tcb p) (\<lambda>_ w'. I w' \<and> callback_frame el v w') v"
    by (intro run_expired_step) (auto simp: callback_frame_def)
  then show "wp E (run_expired tcb p) (\<lambda>_ w'. I w' \<and> callback_frame el w w') v"
    using \<open>I v \<and> callback_frame el w v\<close> by (auto elim: wp_mono intro: callback_frame_trans)
qed (simp add: assms callback_frame_refl)

text \<open>Cancelled tasks are skipped; the flags cannot change while the callbacks run.\<close>

lemma run_expired_due:
  assumes "I w" and "timer_inv el w" and "\<forall>p \<in> set ps. p < n_timers w"
  shows "go_for ps (run_expired tcb) w = go_for (due ps w) tcb w"
  using assms
proof (induction ps arbitrary: w)
  case (Cons p ps)
  have step: "callback_frame el w v \<and> I v" if "run_expired tcb p w = Inr (a, v)" for a v
    using run_expired_step [OF Cons.prems(1,2), of p] that by (simp add: wp_def)
  have "go_for ps (run_expired tcb) v = go_for (due ps w) tcb v"
    if r: "run_expired tcb p w = Inr (a, v)" for a v
  proof -
    have k: "tasks_kept w v" and v: "I v" "timer_inv el v"
      using step [OF r] by (auto simp: callback_frame_def)
    have n: "\<forall>q \<in> set ps. q < n_timers v"
      using Cons.prems(3) k by (auto simp: tasks_kept_def)
    have "due ps v = due ps w"
      unfolding due_def using Cons.prems(3) tasks_kept_fields [OF k]
      by (auto intro!: map_cong filter_cong)
    then show ?thesis
      using Cons.IH [OF v n] by simp
  qed
  then have "go_for (p # ps) (run_expired tcb) w = go_seq (run_expired tcb p) (go_for (due ps w) tcb) w"
    by (auto intro: go_seq_cong)
  also have "\<dots> = go_for (due (p # ps) w) tcb w"
    by (simp add: due_def run_expired_def run_task_def go_seq_def go_bind_def go_gets_def
        go_when_def go_ret_def)
  finally show ?case .
qed (simp add: due_def)

lemma handleRead_correct:
  assumes "I w" and "timer_inv el w" and "queued el w \<subseteq> P"
  shows "wp E (tq_handleRead tcb el ts) (\<lambda>_ w'. I w' \<and> handled el (read_clock el w) w w') w"
proof -
  let ?now = "read_clock el w" and ?w = "after_read el w"
  have I0: "I ?w" "timer_inv el ?w"
    using assms by (auto intro: frame [OF assms(1)])
  have taken: "handled el ?now w w3"
    if "taken el ?now ret ?w w1" "callback_frame el w1 w2" "reset_done el ?now (set ret) w2 w3" for ret w1 w2 w3
    using handled_phases [OF that I0(2)] by (simp add: handled_def)
  have reset: "wp E (reset el ret ?now) (\<lambda>_ w'. I w' \<and> handled el ?now w w') w2"
    if t: "taken el ?now ret ?w w1" and c: "callback_frame el w1 w2" and i: "I w2" for ret w1 w2
  proof -
    have "wp no_panic (reset el ret ?now) (\<lambda>_. reset_done el ?now (set ret) w2) w2"
      using t c by (intro reset_correct) (auto simp: taken_def callback_frame_def
          intro: callback_frame_idle [OF c])
    moreover have "I w'" if d: "reset_done el ?now (set ret) w2 w'" for w'
    proof (rule frame [OF i])
      show "timer_inv e w'" if "timer_inv e w2" for e
        using d that by (cases "e = el") (auto simp: reset_done_def reset_upto_def)
      have "set ret \<subseteq> P"
        using t assms(3) by (auto simp: taken_def)
      then show "queued el w' \<subseteq> queued el w2 \<union> P"
        using d by (auto simp: reset_done_def reset_upto_def)
    qed (use d reset_done_owned [OF d] in \<open>auto simp: reset_done_def reset_upto_def\<close>)
    ultimately show ?thesis
      using taken [OF t c] by (auto elim: wp_mono)
  qed
  have "wp E (go_seq (go_for ret (run_expired tcb)) (reset el ret ?now))
      (\<lambda>_ w'. I w' \<and> handled el ?now w w') w1" if t: "taken el ?now ret ?w w1" for ret w1
  proof -
    have "timer_inv e w1" if "timer_inv e ?w" for e
      using t that by (cases "e = el") (auto simp: taken_def)
    moreover have "owned el w1 = owned el ?w" "queued el w1 \<subseteq> queued el ?w \<union> P"
      using t taken_owned [OF t] by (auto simp: taken_def)
    ultimately have "I w1" "timer_inv el w1"
      using t I0 by (auto simp: taken_def intro: frame [OF I0(1)])
    then show ?thesis
      unfolding wp_seq by (rule wp_mono [OF run_expired_loop]) (auto intro: reset [OF t])
  qed
  then have "wp E (go_bind (getExpired el ?now) (\<lambda>expired. go_seq (go_for expired (run_expired tcb))
      (reset el expired ?now))) (\<lambda>_ w'. I w' \<and> handled el ?now w w') ?w"
    using getExpired_correct [OF I0(2), of ?now] by (auto elim: wp_mono)
  then show ?thesis
    by (simp only: wp_def tq_handleRead_unfold)
qed

end


section \<open>Properties\<close>

text \<open>
  C17: scheduling. \<open>addTask\<close> never panics; it returns a new task with the given fields, which is
  now in the queue, and changes no other task. The timer is set exactly when the new task is
  earlier than all queued ones, and it stays armed for the earliest task.
\<close>

theorem addTask_schedules:
  assumes "timer_inv el w"
  shows "wp no_panic (addTask el cb t interval) (\<lambda>tt w'.
    tt = n_timers w \<and> timer_inv el w' \<and> queued el w' = Set.insert tt (queued el w) \<and>
    (timers w' tt)\<lparr>tt_index := 0\<rparr> = \<lparr>tt_tq = el, tt_expire = t, tt_interval = interval,
      tt_repeat = interval > 0, tt_cb = cb, tt_index = 0, tt_canceled = False\<rparr> \<and>
    tasks_kept w w' \<and>
    trace w' = trace w @ (if \<forall>p \<in> queued el w. t < tt_expire (timers w p)
      then arm_calls (timerFd el w) t w else []) \<and>
    (armed el w \<longrightarrow> armed el w')) w"
proof -
  let ?t = "\<lparr>tt_tq = el, tt_expire = t, tt_interval = interval, tt_repeat = interval > 0,
    tt_cb = cb, tt_index = -1, tt_canceled = False\<rparr>"
  let ?w = "with_task ?t w" and ?p = "n_timers w"
  have first: "(queued el w = {} \<or> t < top_expire el ?w) = (\<forall>p \<in> queued el w. t < tt_expire (timers w p))"
    using top_expire_least [OF assms] queued_top [of el w] top_expire_with_task [OF assms, of ?t] by force
  have "tasks_kept w w' \<and> (timers w' ?p)\<lparr>tt_index := 0\<rparr> = ?t\<lparr>tt_index := 0\<rparr> \<and>
      trace w' = trace w @ (if \<forall>p \<in> queued el w. t < tt_expire (timers w p)
        then arm_calls (timerFd el w) t w else []) \<and> (armed el w \<longrightarrow> armed el w') \<and>
      timer_inv el w' \<and> queued el w' = Set.insert ?p (queued el w)" if a: "added el ?p ?w w'" for w'
  proof -
    have k: "tasks_kept ?w w'"
      using a by (simp add: added_def)
    then have "(timers w' ?p)\<lparr>tt_index := 0\<rparr> = (timers ?w ?p)\<lparr>tt_index := 0\<rparr>"
      unfolding tasks_kept_def with_task_sel(6) by blast
    moreover have "trace w' = trace w @ (if queued el w = {} \<or> t < top_expire el ?w
        then arm_calls (timerFd el w) t w else [])"
      using a unfolding added_def by (simp del: with_task_sel(8)) (simp add: with_task_sel(8))
    ultimately show ?thesis
      using a tasks_kept_trans [OF with_task_sel(10) k] armed_with_task [OF assms, of ?t]
      unfolding first by (simp add: added_def)
  qed
  then show ?thesis
    by (intro wp_mono [OF addTask_correct [OF assms, of cb t interval]]) auto
qed

text \<open>
  C23: the timer is never set to fire early, nor later than asked by more than the minimum of
  100 microseconds: the delay reaches from the time read to the expiration time, or is that
  minimum. The bound is the range of \<open>time.Duration\<close>.
\<close>

theorem resetTimerFd_bounds:
  assumes "t - ret_n (env w (trace w) SysNow) < 2 ^ 63"
  shows "\<exists>d r. resetTimerFd fd t w =
      Inr ((), w\<lparr>trace := trace w @ [(SysNow, env w (trace w) SysNow), (SysTimerfdSettime fd d, r)]\<rparr>) \<and>
    100000 \<le> d \<and> t \<le> ret_n (env w (trace w) SysNow) + d \<and>
    d \<le> max 100000 (t - ret_n (env w (trace w) SysNow))"
proof -
  let ?now = "ret_n (env w (trace w) SysNow)"
  have "arm_delay t ?now \<le> max 100000 (t - ?now)"
    by (auto simp: arm_delay_def time_Sub_def Microseconds_def split: if_splits)
  moreover have "\<exists>r. resetTimerFd fd t w = Inr ((), w\<lparr>trace := trace w @
      [(SysNow, env w (trace w) SysNow), (SysTimerfdSettime fd (arm_delay t ?now), r)]\<rparr>)"
    using wp_resetTimerFd [of no_panic fd t "\<lambda>_ w'. w' = w\<lparr>trace := trace w @ arm_calls fd t w\<rparr>" w]
    by (auto simp: wp_returns arm_calls_def Let_def)
  ultimately show ?thesis
    using arm_delay_bounds [of t ?now] assms by fastforce
qed

text \<open>
  C24: cancelling. The closure of \<open>cancel\<close> marks the task and stops its repetition, keeps the
  invariant and the arming of the timer, and removes the task from the queue unless it is the
  first one (\<open>tt.index > 0\<close>), which stays queued until it expires.
\<close>

theorem cancelTask_marks_and_removes:
  assumes "timer_inv el w" and "p \<in> owned el w"
  shows "wp no_panic (cancelTask el p) (\<lambda>_ w'. timer_inv el w' \<and>
    tt_canceled (timers w' p) \<and> \<not> tt_repeat (timers w' p) \<and>
    queued el w' = (if p = hd (tq_tasks (el_tq (loops w el))) then queued el w else queued el w - {p}) \<and>
    (\<forall>q. q \<noteq> p \<longrightarrow> (timers w' q)\<lparr>tt_index := 0\<rparr> = (timers w q)\<lparr>tt_index := 0\<rparr>) \<and>
    trace w' = trace w \<and> (armed el w \<longrightarrow> armed el w')) w"
proof -
  have ok: "heap_ok (owned el w) (heap_of el w)"
    using assms(1) by (simp add: timer_inv_def)
  have "(if tt_index (timers w p) > 0 then queued el w - {p} else queued el w) =
      (if p = hd (tq_tasks (el_tq (loops w el))) then queued el w else queued el w - {p})"
  proof (cases "p \<in> queued el w")
    case True
    then have "tq_tasks (el_tq (loops w el)) \<noteq> []"
      by (auto simp: queued_def)
    moreover obtain i where i: "i < length (tq_tasks (el_tq (loops w el)))" "tq_tasks (el_tq (loops w el)) ! i = p"
      using True by (auto simp: queued_def in_set_conv_nth)
    moreover have "tt_index (timers w p) = int i"
      using ok i by (auto simp: heap_ok_def index_coherent_def task_at_def)
    ultimately show ?thesis
      using nth_eq_iff_index_eq [OF heap_ok_distinct [OF ok], of i 0] by (auto simp: hd_conv_nth)
  next
    case False
    then show ?thesis
      using timer_inv_index [OF assms(1,2)] by simp
  qed
  note removed = this
  show ?thesis
  proof (rule wp_mono [OF cancelTask_correct [OF assms]])
    fix a w'
    assume c: "cancelled el p w w'"
    show "timer_inv el w' \<and> tt_canceled (timers w' p) \<and> \<not> tt_repeat (timers w' p) \<and>
      queued el w' = (if p = hd (tq_tasks (el_tq (loops w el))) then queued el w else queued el w - {p}) \<and>
      (\<forall>q. q \<noteq> p \<longrightarrow> (timers w' q)\<lparr>tt_index := 0\<rparr> = (timers w q)\<lparr>tt_index := 0\<rparr>) \<and>
      trace w' = trace w \<and> (armed el w \<longrightarrow> armed el w')"
      using cancelled_armed(1) [OF c assms(1)] c removed by (simp add: cancelled_def)
  qed
qed

section \<open>Witnesses\<close>

text \<open>A loop with two tasks, of which the first repeats, and a timer armed for it.\<close>

definition two_timers :: world where
  "two_timers = (blank_world quiet_kernel)\<lparr>
     n_loops := 1, n_timers := 2,
     timers := (\<lambda>_. blank_timer)
       (0 := blank_timer\<lparr>tt_expire := 5, tt_index := 0, tt_interval := 7, tt_repeat := True\<rparr>,
        1 := blank_timer\<lparr>tt_expire := 9, tt_index := 1, tt_cb := ToUser 1\<rparr>),
     loops := (\<lambda>_. blank_loop)(0 := blank_loop\<lparr>el_tq := \<lparr>tq_timerFd = 3, tq_timerFdChannel = 0, tq_tasks = [0, 1]\<rparr>\<rparr>),
     trace := [(SysNow, \<lparr>ret_n = 0, ret_err = None, ret_data = [], ret_events = [], ret_addr = None\<rparr>),
       (SysTimerfdSettime 3 100000, \<lparr>ret_n = 0, ret_err = None, ret_data = [], ret_events = [], ret_addr = None\<rparr>)]\<rparr>"

lemma two_timers_owned: "owned 0 two_timers = {0, 1}"
  by (auto simp: owned_def two_timers_def blank_defs)

lemma two_timers_queued: "queued 0 two_timers = {0, 1}"
  and two_timers_top: "hd (tq_tasks (el_tq (loops two_timers 0))) = 0"
  and two_timers_n: "n_timers two_timers = 2"
  by (simp_all add: queued_def two_timers_def)

lemma two_timers_inv: "timer_inv 0 two_timers"
  unfolding timer_inv_def two_timers_owned
  by (auto simp: two_timers_def heap_ok_def index_coherent_def task_at_def heap_order_def edge_def
      heap_view_def Len_def blank_defs less_Suc_eq)

lemma two_timers_armed: "armed 0 two_timers"
  by (simp add: armed_def armed_for_def last_arm_def two_timers_def arm_delay_def time_Sub_def
      Microseconds_def blank_defs)

theorem addTask_schedules_witness:
  "wp no_panic (addTask 0 (ToUser 2) 3 0) (\<lambda>tt w'. tt = 2 \<and> queued 0 w' = {0, 1, 2}) two_timers"
  by (rule wp_mono [OF addTask_schedules [OF two_timers_inv]])
    (auto simp: two_timers_queued two_timers_n)

theorem resetTimerFd_bounds_witness:
  "\<exists>d r. resetTimerFd 3 5 two_timers = Inr ((), two_timers\<lparr>trace := trace two_timers @
      [(SysNow, env two_timers (trace two_timers) SysNow), (SysTimerfdSettime 3 d, r)]\<rparr>) \<and>
    100000 \<le> d \<and> 5 \<le> ret_n (env two_timers (trace two_timers) SysNow) + d \<and>
    d \<le> max 100000 (5 - ret_n (env two_timers (trace two_timers) SysNow))"
  by (rule resetTimerFd_bounds) (simp add: two_timers_def blank_defs quiet_kernel_def)

theorem cancelTask_marks_and_removes_witness:
  "wp no_panic (cancelTask 0 1) (\<lambda>_ w'. queued 0 w' = {0} \<and> tt_canceled (timers w' 1)) two_timers"
  by (rule wp_mono [OF cancelTask_marks_and_removes [OF two_timers_inv]])
    (auto simp: two_timers_owned two_timers_queued two_timers_top)

end
