(* ===== verification/Eventloop.thy ===== *)
theory Eventloop
  imports Timer_Queue
begin

text \<open>
  \<open>eventloop.go\<close>: construction of an event loop, the scheduling interface, the loop itself,
  stopping and destruction. The function values the loop calls are run by the parameters
  \<open>rcb\<close>, \<open>ecb\<close> and \<open>tkb\<close>; \<open>System\<close> supplies them. The loop takes a bound on the number of its
  iterations, and returns \<open>False\<close> when the bound is used up.
\<close>

section \<open>Construction\<close>

definition createEventFd :: "(world, int) go" where
  "createEventFd = go_bind (sys SysEventfd) (\<lambda>r. case ret_err r of
       Some e \<Rightarrow> go_panic (PanicErr (Errno e))
     | None \<Rightarrow> go_ret (ret_n r))"

text \<open>
  The error of \<open>newPoller\<close> is dropped. The poller is nil then, and the first registration,
  which is in \<open>newTimerQueue\<close>, dereferences it.
\<close>

definition NewEventloop :: "string \<Rightarrow> (world, loop_ptr) go" where
  "NewEventloop name =
     go_bind (new_loop (blank_loop\<lparr>el_id := name, el_looping := 0, el_quit := 0,
       el_activeChannels := [], el_pendingTasks := [], el_runningPendingTasks := False\<rparr>)) (\<lambda>el.
     go_bind newPoller (\<lambda>p. case p of
       Inl _ \<Rightarrow> go_bind (sys SysTimerfdCreate) (\<lambda>r. case ret_err r of
           Some e \<Rightarrow> go_panic (PanicErr (Errno e)) | None \<Rightarrow> go_panic NilDereference)
     | Inr p \<Rightarrow>
         go_seq (upd_loop el (\<lambda>l. l\<lparr>el_poller := p\<rparr>)) (
         go_bind (newTimerQueue el) (\<lambda>tq.
         go_seq (upd_loop el (\<lambda>l. l\<lparr>el_tq := tq\<rparr>)) (
         go_bind createEventFd (\<lambda>evtFd.
         go_seq (upd_loop el (\<lambda>l. l\<lparr>el_evtFd := evtFd\<rparr>)) (
         go_bind (NewChannel el evtFd) (\<lambda>ch.
         go_seq (upd_loop el (\<lambda>l. l\<lparr>el_wakeupChannel := ch\<rparr>)) (
         go_seq (setReadCallback ch (RcWakeup el)) (
         go_seq (enableReading ch)
           (go_ret el)))))))))))"

section \<open>Scheduling\<close>

definition time_Now :: "(world, time) go" where
  "time_Now = go_bind (sys SysNow) (\<lambda>r. go_ret (ret_n r))"

definition Schedule :: "loop_ptr \<Rightarrow> timeoutCallback \<Rightarrow> time \<Rightarrow> (world, timer_ptr) go" where
  "Schedule el callback t = addTask el callback t 0"

definition AsyncSchedule :: "loop_ptr \<Rightarrow> timeoutCallback \<Rightarrow> time \<Rightarrow> (world, timer_ptr) go" where
  "AsyncSchedule el callback t =
     go_bind (newTimerTask el callback t 0) (\<lambda>tt.
     go_seq (AsyncExecute el (TkAddTask0 el tt)) (go_ret tt))"

definition ScheduleDelay :: "loop_ptr \<Rightarrow> timeoutCallback \<Rightarrow> duration \<Rightarrow> (world, timer_ptr) go" where
  "ScheduleDelay el callback d = go_bind time_Now (\<lambda>now. addTask el callback (now + d) 0)"

definition AsyncScheduleDelay :: "loop_ptr \<Rightarrow> timeoutCallback \<Rightarrow> duration \<Rightarrow> (world, timer_ptr) go" where
  "AsyncScheduleDelay el callback d =
     go_bind time_Now (\<lambda>now.
     go_bind (newTimerTask el callback (now + d) 0) (\<lambda>tt.
     go_seq (AsyncExecute el (TkAddTask0 el tt)) (go_ret tt)))"

definition ScheduleAtFixRate :: "loop_ptr \<Rightarrow> timeoutCallback \<Rightarrow> duration \<Rightarrow> (world, timer_ptr) go" where
  "ScheduleAtFixRate el callback interval =
     go_bind time_Now (\<lambda>t. addTask el callback (t + interval) interval)"

definition AsyncScheduleAtFixRate :: "loop_ptr \<Rightarrow> timeoutCallback \<Rightarrow> duration \<Rightarrow>
    (world, timer_ptr) go" where
  "AsyncScheduleAtFixRate el callback interval =
     go_bind time_Now (\<lambda>t.
     go_bind (newTimerTask el callback (t + interval) interval) (\<lambda>tt.
     go_seq (AsyncExecute el (TkAddTask0 el tt)) (go_ret tt)))"

section \<open>The loop\<close>

definition pollTimeoutMills :: int where
  "pollTimeoutMills = 10000"

definition Stop :: "loop_ptr \<Rightarrow> (world, unit) go" where
  "Stop el = upd_loop el (\<lambda>l. l\<lparr>el_quit := 1\<rparr>)"

definition AsyncStop :: "loop_ptr \<Rightarrow> (world, unit) go" where
  "AsyncStop el = go_seq (upd_loop el (\<lambda>l. l\<lparr>el_quit := 1\<rparr>)) (Wakeup el)"

definition destroy :: "loop_ptr \<Rightarrow> (world, unit) go" where
  "destroy el =
     go_bind (go_gets (\<lambda>w. el_evtFd (loops w el))) (\<lambda>fd.
     go_bind (sys (SysClose fd)) (\<lambda>_.
     tq_shutdown el))"

text \<open>One iteration of the \<open>for\<close> loop, after the test of \<open>quit\<close>.\<close>

definition loop_body ::
  "(readCallback \<Rightarrow> time \<Rightarrow> (world, unit) go) \<Rightarrow> (eventCallback \<Rightarrow> (world, unit) go) \<Rightarrow>
   (task \<Rightarrow> (world, unit) go) \<Rightarrow> loop_ptr \<Rightarrow> (world, unit) go" where
  "loop_body rcb ecb tkb el =
     go_seq (upd_loop el (\<lambda>l. l\<lparr>el_activeChannels := []\<rparr>)) (
     go_bind (poll el pollTimeoutMills) (\<lambda>retTs.
     go_bind (go_gets (\<lambda>w. el_activeChannels (loops w el))) (\<lambda>active.
     go_seq (go_for active (\<lambda>channel. handleEvent rcb ecb channel retTs))
       (runPendingTasks tkb el))))"

primrec iterate ::
  "(readCallback \<Rightarrow> time \<Rightarrow> (world, unit) go) \<Rightarrow> (eventCallback \<Rightarrow> (world, unit) go) \<Rightarrow>
   (task \<Rightarrow> (world, unit) go) \<Rightarrow> loop_ptr \<Rightarrow> nat \<Rightarrow> (world, bool) go" where
  "iterate rcb ecb tkb el 0 =
     go_bind (go_gets (\<lambda>w. el_quit (loops w el))) (\<lambda>quit. go_ret (quit \<noteq> 0))"
| "iterate rcb ecb tkb el (Suc n) =
     go_bind (go_gets (\<lambda>w. el_quit (loops w el))) (\<lambda>quit.
     if quit \<noteq> 0 then go_ret True
     else go_seq (loop_body rcb ecb tkb el) (iterate rcb ecb tkb el n))"

definition Loop ::
  "(readCallback \<Rightarrow> time \<Rightarrow> (world, unit) go) \<Rightarrow> (eventCallback \<Rightarrow> (world, unit) go) \<Rightarrow>
   (task \<Rightarrow> (world, unit) go) \<Rightarrow> loop_ptr \<Rightarrow> nat \<Rightarrow> (world, bool) go" where
  "Loop rcb ecb tkb el fuel =
     go_seq (upd_loop el (\<lambda>l. l\<lparr>el_looping := 1\<rparr>)) (
     go_seq (upd_loop el (\<lambda>l. l\<lparr>el_quit := 0\<rparr>)) (
     go_bind (iterate rcb ecb tkb el fuel) (\<lambda>stopped.
     if \<not> stopped then go_ret False
     else go_seq (upd_loop el (\<lambda>l. l\<lparr>el_looping := 0\<rparr>)) (
          go_seq (destroy el) (go_ret True)))))"

text \<open>The loop's own \<open>updateChannel\<close> and \<open>removeChannel\<close> pass the call on to its poller.\<close>

definition loop_updateChannel :: "loop_ptr \<Rightarrow> chan_ptr \<Rightarrow> (world, unit) go" where
  "loop_updateChannel el c = updateChannel el c"

definition loop_removeChannel :: "loop_ptr \<Rightarrow> chan_ptr \<Rightarrow> (world, unit) go" where
  "loop_removeChannel el c = removeChannel el c"


section \<open>A new loop\<close>

text \<open>The open descriptors, and a kernel that hands out only descriptors that are not open.\<close>

fun fd_step :: "syscall \<times> sysret \<Rightarrow> int set \<Rightarrow> int set" where
  "fd_step (SysEpollCreate1, r) fds = (if ret_err r = None then Set.insert (ret_n r) fds else fds)"
| "fd_step (SysEventfd, r) fds = (if ret_err r = None then Set.insert (ret_n r) fds else fds)"
| "fd_step (SysTimerfdCreate, r) fds = (if ret_err r = None then Set.insert (ret_n r) fds else fds)"
| "fd_step (SysSocket f t p, r) fds = (if ret_err r = None then Set.insert (ret_n r) fds else fds)"
| "fd_step (SysAccept4 f g, r) fds = (if ret_err r = None then Set.insert (ret_n r) fds else fds)"
| "fd_step (SysClose f, r) fds = (if ret_err r = None then fds - {f} else fds)"
| "fd_step _ fds = fds"

definition open_fds :: "trace \<Rightarrow> int set" where
  "open_fds tr = fold fd_step tr {}"

lemma open_fds_snoc [simp]: "open_fds (tr @ [x]) = fd_step x (open_fds tr)"
  by (simp add: open_fds_def)

fun makes_fd :: "syscall \<Rightarrow> bool" where
  "makes_fd SysEpollCreate1 = True"
| "makes_fd SysEventfd = True"
| "makes_fd SysTimerfdCreate = True"
| "makes_fd (SysSocket f t p) = True"
| "makes_fd (SysAccept4 f g) = True"
| "makes_fd _ = False"

definition fresh_fds :: "(trace \<Rightarrow> syscall \<Rightarrow> sysret) \<Rightarrow> bool" where
  "fresh_fds e \<longleftrightarrow> (\<forall>tr s. makes_fd s \<longrightarrow> ret_err (e tr s) = None \<longrightarrow> ret_n (e tr s) \<notin> open_fds tr)"

text \<open>The objects of a world belong to its loops.\<close>

definition stores_ok :: "world \<Rightarrow> bool" where
  "stores_ok w \<longleftrightarrow> (\<forall>c < n_chans w. ch_el (chans w c) < n_loops w) \<and>
     (\<forall>p < n_timers w. tt_tq (timers w p) < n_loops w)"

lemma poller_inv_new_chan:
  assumes "poller_inv el w" and "ch_index x = channelNew"
  shows "poller_inv el (w\<lparr>chans := (chans w)(n_chans w := x), n_chans := Suc (n_chans w)\<rparr>)"
proof -
  let ?w = "w\<lparr>chans := (chans w)(n_chans w := x), n_chans := Suc (n_chans w)\<rparr>"
  have "c \<in> chans_of el w \<Longrightarrow> c \<noteq> n_chans w \<and> c \<in> chans_of el ?w" for c
    by (auto simp: chans_of_def)
  moreover have "c \<in> chans_of el ?w \<Longrightarrow> c = n_chans w \<or> c \<noteq> n_chans w \<and> c \<in> chans_of el w" for c
    by (auto simp: chans_of_def less_Suc_eq)
  moreover have "believed el ?w fd = believed el w fd" for fd
    using assms(1) by (auto simp: poller_inv_def believed_def chans_of_def split: option.splits)
  ultimately show ?thesis
    using assms unfolding poller_inv_def by (fastforce simp del: split_paired_All)
qed

text \<open>Enabling reading on a channel that has just been made.\<close>

definition reading_enabled :: "loop_ptr \<Rightarrow> chan_ptr \<Rightarrow> world \<Rightarrow> world" where
  "reading_enabled el c w = after_ctl el EPOLL_CTL_ADD c eventRead channelAdd (Some c) w"

lemma reading_enabled_sel [simp]:
  "env (reading_enabled el c w) = env w" "timers (reading_enabled el c w) = timers w"
  "conns (reading_enabled el c w) = conns w" "n_loops (reading_enabled el c w) = n_loops w"
  "n_chans (reading_enabled el c w) = n_chans w" "n_timers (reading_enabled el c w) = n_timers w"
  "n_conns (reading_enabled el c w) = n_conns w"
  "chans (reading_enabled el c w) =
     (chans w)(c := (chans w c)\<lparr>ch_events := eventRead, ch_index := channelAdd\<rparr>)"
  "loops (reading_enabled el c w) = (loops w)(el := (loops w el)\<lparr>el_poller := (poller_of el w)\<lparr>po_channelMap :=
     (po_channelMap (poller_of el w))(ch_fd (chans w c) := Some c)\<rparr>\<rparr>)"
  "open_fds (trace (reading_enabled el c w)) = open_fds (trace w)"
  "connectors (reading_enabled el c w) = connectors w"
  by (simp_all add: reading_enabled_def after_ctl_def ctl_call_def)

lemma enableReading_new:
  assumes "poller_inv el w" and "epoll_ctl_spec (env w)" and "legal_trace (trace w)"
    and "c \<in> chans_of el w" and "ch_index (chans w c) = channelNew" and "ch_events (chans w c) = eventNone"
    and "po_channelMap (poller_of el w) (ch_fd (chans w c)) = None"
  shows "enableReading c w = Inr ((), reading_enabled el c w)"
    and "poller_inv el (reading_enabled el c w)" "legal_trace (trace (reading_enabled el c w))"
    and "interest (trace (reading_enabled el c w)) (po_epollFd (poller_of el w)) (ch_fd (chans w c)) =
      Some (eventRead, c)"
proof -
  have neq: "channelNew \<noteq> channelAdd" "channelAdd \<noteq> channelDel"
    by (simp_all add: index_consts)
  have ev: "eventNone OR eventRead = eventRead"
    by (simp add: eventNone_def eventRead_def)
  have "set_events c (\<lambda>e. e OR eventRead) w = Inr ((), reading_enabled el c w)"
    using assms set_events_result [of w c el "\<lambda>e. e OR eventRead"] neq
    by (simp add: chans_of_def index_after_def ev reading_enabled_def)
  then show "enableReading c w = Inr ((), reading_enabled el c w)"
    by (simp add: set_events_instances)
  have "chan_ready el c w"
    using assms by (simp add: chan_ready_def)
  from set_events_inv [OF assms(1,2) this assms(3), of "\<lambda>e. e OR eventRead"]
  show "poller_inv el (reading_enabled el c w)" "legal_trace (trace (reading_enabled el c w))"
    "interest (trace (reading_enabled el c w)) (po_epollFd (poller_of el w)) (ch_fd (chans w c)) =
      Some (eventRead, c)"
    using \<open>set_events c _ w = _\<close> neq assms(5,6)
    by (simp_all add: wp_def registered_def index_after_def ev)
qed


definition with_reader :: "loop_ptr \<Rightarrow> int \<Rightarrow> readCallback \<Rightarrow> world \<Rightarrow> world" where
  "with_reader el fd cb w = w\<lparr>n_chans := Suc (n_chans w), chans := (chans w)(n_chans w :=
       \<lparr>ch_ele = None, ch_el = el, ch_fd = fd, ch_events = eventNone, ch_revents = 0,
        ch_index = channelNew, ch_readCallback = Some cb, ch_writeCallback = None,
        ch_errorCallback = None, ch_closeCallback = None, ch_evtHandling = False\<rparr>)\<rparr>"

definition set_loop :: "loop_ptr \<Rightarrow> (eventloop \<Rightarrow> eventloop) \<Rightarrow> world \<Rightarrow> world" where
  "set_loop el f w = w\<lparr>loops := (loops w)(el := f (loops w el))\<rparr>"

definition add_call :: "syscall \<Rightarrow> world \<Rightarrow> world" where
  "add_call s w = w\<lparr>trace := trace w @ [(s, env w (trace w) s)]\<rparr>"

lemmas step_defs = with_reader_def set_loop_def add_call_def

lemma swap_updates:
  "w\<lparr>n_chans := n, chans := f\<rparr> = w\<lparr>chans := f, n_chans := n\<rparr>"
  "w\<lparr>loops := g, chans := f\<rparr> = w\<lparr>chans := f, loops := g\<rparr>"
  "w\<lparr>n_chans := n, loops := g\<rparr> = w\<lparr>loops := g, n_chans := n\<rparr>" for w :: world
  by simp_all

lemma poller_inv_set_loop:
  "poller_inv el w \<Longrightarrow> (\<And>l. el_poller (f l) = el_poller l) \<Longrightarrow> poller_inv el (set_loop el f w)"
  by (rule poller_inv_cong) (simp_all add: set_loop_def)

lemma poller_inv_add_call:
  "poller_inv el w \<Longrightarrow> inert s \<Longrightarrow> poller_inv el (add_call s w)"
  by (rule poller_inv_cong) (simp_all add: add_call_def inert_step)

text \<open>A new channel that reads: made, then registered.\<close>

lemma open_reader:
  fixes el :: loop_ptr and fd :: int and cb :: readCallback and w :: world
  defines "w1 \<equiv> with_reader el fd cb w" and "c \<equiv> n_chans w"
  assumes "poller_inv el w" and "epoll_ctl_spec (env w)" and "legal_trace (trace w)"
    and "po_channelMap (poller_of el w) fd = None"
  shows "enableReading c w1 = Inr ((), reading_enabled el c w1)"
    and "poller_inv el (reading_enabled el c w1)" "legal_trace (trace (reading_enabled el c w1))"
    and "interest (trace (reading_enabled el c w1)) (po_epollFd (poller_of el w)) fd =
      Some (eventRead, c)"
proof -
  have "poller_inv el w1"
    using poller_inv_new_chan [OF assms(3)] by (simp add: w1_def with_reader_def swap_updates)
  moreover have "c \<in> chans_of el w1"
    by (simp add: w1_def c_def with_reader_def chans_of_def)
  moreover have "ch_index (chans w1 c) = channelNew" "ch_events (chans w1 c) = eventNone"
    "ch_fd (chans w1 c) = fd" "env w1 = env w" "trace w1 = trace w" "loops w1 = loops w"
    by (simp_all add: w1_def c_def with_reader_def)
  ultimately show "enableReading c w1 = Inr ((), reading_enabled el c w1)"
    "poller_inv el (reading_enabled el c w1)" "legal_trace (trace (reading_enabled el c w1))"
    "interest (trace (reading_enabled el c w1)) (po_epollFd (poller_of el w)) fd = Some (eventRead, c)"
    using enableReading_new [of el w1 c] assms(4-6) by simp_all
qed

lemma newTimerQueue_result:
  fixes el :: loop_ptr and w :: world
  defines "r \<equiv> env w (trace w) SysTimerfdCreate" and "w1 \<equiv> add_call SysTimerfdCreate w"
  assumes "poller_inv el w" and "epoll_ctl_spec (env w)" and "legal_trace (trace w)"
    and "po_channelMap (poller_of el w) (ret_n r) = None" and "ret_err r = None"
  shows "newTimerQueue el w =
      Inr (\<lparr>tq_timerFd = ret_n r, tq_timerFdChannel = n_chans w, tq_tasks = []\<rparr>,
           reading_enabled el (n_chans w) (with_reader el (ret_n r) (RcTimerQueue el) w1))"
proof -
  have w1: "poller_inv el w1" "env w1 = env w" "loops w1 = loops w" "n_chans w1 = n_chans w"
    "legal_trace (trace w1)"
    using assms by (simp_all add: w1_def add_call_def poller_inv_add_call [unfolded add_call_def]
        inert_def legal_call_def)
  have "enableReading (n_chans w) (with_reader el (ret_n r) (RcTimerQueue el) w1) =
      Inr ((), reading_enabled el (n_chans w) (with_reader el (ret_n r) (RcTimerQueue el) w1))"
    using open_reader(1) [OF w1(1) _ w1(5), of "ret_n r" "RcTimerQueue el"] assms(4,6) by (simp add: w1)
  moreover have "newTimerQueue el w = go_seq (enableReading (n_chans w)) (go_ret
      \<lparr>tq_timerFd = ret_n r, tq_timerFdChannel = n_chans w, tq_tasks = []\<rparr>)
      (with_reader el (ret_n r) (RcTimerQueue el) w1)"
    using assms(7)
    by (simp add: newTimerQueue_def NewChannel_def setReadCallback_def world_defs go_defs Let_def
        step_defs w1_def r_def)
  ultimately show ?thesis
    by (simp add: go_defs)
qed


text \<open>The state of the loop when \<open>NewEventloop\<close> has the poller, and when it has the timer queue.\<close>

definition with_poller :: "string \<Rightarrow> world \<Rightarrow> world" where
  "with_poller name w = (let r = env w (trace w) SysEpollCreate1 in
     w\<lparr>n_loops := Suc (n_loops w), trace := trace w @ [(SysEpollCreate1, r)],
       loops := (loops w)(n_loops w := blank_loop\<lparr>el_id := name, el_poller :=
         \<lparr>po_epollFd = ret_n r, po_eventList = replicate 16 \<lparr>ev_events = 0, ev_data = 0\<rparr>,
          po_channelMap = (\<lambda>_. None)\<rparr>\<rparr>)\<rparr>)"

lemma with_poller_sel [simp]:
  "env (with_poller name w) = env w" "timers (with_poller name w) = timers w"
  "chans (with_poller name w) = chans w" "n_timers (with_poller name w) = n_timers w"
  "n_chans (with_poller name w) = n_chans w"
  "po_channelMap (poller_of (n_loops w) (with_poller name w)) = (\<lambda>_. None)"
  "el_pendingTasks (loops (with_poller name w) (n_loops w)) = []"
  "el_quit (loops (with_poller name w) (n_loops w)) = 0"
  by (simp_all add: with_poller_def add_call_def Let_def blank_loop_def)

lemma with_poller_inv:
  assumes "stores_ok w" and "ret_err (env w (trace w) SysEpollCreate1) = None"
  shows "poller_inv (n_loops w) (with_poller name w)"
proof -
  have "chans_of (n_loops w) (with_poller name w) = {}"
    using assms(1) by (auto simp: chans_of_def stores_ok_def)
  moreover have "believed (n_loops w) (with_poller name w) fd = None" for fd
    by (simp add: believed_def)
  moreover have "interest (trace (with_poller name w)) (po_epollFd (poller_of (n_loops w) (with_poller name w))) = (\<lambda>_. None)"
    using assms(2) by (simp add: with_poller_def add_call_def Let_def)
  ultimately show ?thesis
    by (simp add: poller_inv_def)
qed

definition with_timers :: "string \<Rightarrow> world \<Rightarrow> world" where
  "with_timers name w = (let el = n_loops w; v = with_poller name w;
       fd = ret_n (env v (trace v) SysTimerfdCreate) in
     set_loop el (\<lambda>l. l\<lparr>el_tq := \<lparr>tq_timerFd = fd, tq_timerFdChannel = n_chans w, tq_tasks = []\<rparr>\<rparr>)
       (reading_enabled el (n_chans w)
         (with_reader el fd (RcTimerQueue el) (add_call SysTimerfdCreate v))))"

definition with_wakeup :: "string \<Rightarrow> world \<Rightarrow> world" where
  "with_wakeup name w = (let el = n_loops w; v = with_timers name w; c = n_chans v;
       fd = ret_n (env v (trace v) SysEventfd) in
     reading_enabled el c (with_reader el fd (RcWakeup el)
       (set_loop el (\<lambda>l. l\<lparr>el_wakeupChannel := c\<rparr>)
         (set_loop el (\<lambda>l. l\<lparr>el_evtFd := fd\<rparr>) (add_call SysEventfd v)))))"

lemma with_wakeup_connectors: "connectors (with_wakeup name w) = connectors w"
  by (simp add: with_wakeup_def with_timers_def with_poller_def step_defs Let_def)

definition creates :: "(trace \<Rightarrow> syscall \<Rightarrow> sysret) \<Rightarrow> bool" where
  "creates e \<longleftrightarrow> (\<forall>tr. \<forall>s \<in> {SysEpollCreate1, SysEventfd, SysTimerfdCreate}. ret_err (e tr s) = None)"

lemma with_timers_ok:
  fixes name :: string and w :: world
  assumes "stores_ok w" and "epoll_ctl_spec (env w)" and "legal_trace (trace w)" and "creates (env w)"
  defines "el \<equiv> n_loops w" and "v \<equiv> with_timers name w" and "u \<equiv> with_poller name w"
  shows "poller_inv el v" and "legal_trace (trace v)"
    and "po_channelMap (poller_of el v) = [timerFd el v \<mapsto> n_chans w]"
    and "timerFd el v \<in> open_fds (trace v)"
    and "interest (trace v) (po_epollFd (poller_of el v)) (timerFd el v) = Some (eventRead, n_chans w)"
    and "newTimerQueue el u = Inr (el_tq (loops v el), reading_enabled el (n_chans w)
      (with_reader el (timerFd el v) (RcTimerQueue el) (add_call SysTimerfdCreate u)))"
proof -
  let ?r = "env u (trace u) SysTimerfdCreate" and ?a = "add_call SysTimerfdCreate u"
  let ?b = "reading_enabled el (n_chans w) (with_reader el (ret_n ?r) (RcTimerQueue el) ?a)"
  have ok: "ret_err (env w tr s) = None" if "s \<in> {SysEpollCreate1, SysEventfd, SysTimerfdCreate}" for tr s
    using assms(4) that by (auto simp: creates_def)
  have u: "poller_inv el u" "legal_trace (trace u)" "epoll_ctl_spec (env u)"
    "po_channelMap (poller_of el u) = (\<lambda>_. None)"
    using assms with_poller_inv [OF assms(1)] ok
    by (simp_all add: u_def el_def with_poller_def add_call_def Let_def legal_call_def)
  have a: "poller_inv el ?a" "legal_trace (trace ?a)" "epoll_ctl_spec (env ?a)"
    "po_channelMap (poller_of el ?a) (ret_n ?r) = None" "n_chans ?a = n_chans w"
    using u poller_inv_add_call [OF u(1), of SysTimerfdCreate]
    by (simp_all add: add_call_def inert_def legal_call_def u_def)
  note b = open_reader [OF a(1,3,2,4), of "RcTimerQueue el", unfolded a(5)]
  have v: "v = set_loop el (\<lambda>l. l\<lparr>el_tq := \<lparr>tq_timerFd = ret_n ?r, tq_timerFdChannel = n_chans w, tq_tasks = []\<rparr>\<rparr>) ?b"
    by (simp add: v_def with_timers_def Let_def el_def u_def)
  have fd: "timerFd el v = ret_n ?r" "trace v = trace ?b" "poller_of el v = poller_of el ?b"
    by (simp_all add: v set_loop_def)
  show "poller_inv el v"
    unfolding v by (rule poller_inv_set_loop [OF b(2)]) simp
  show "legal_trace (trace v)"
    using b(3) by (simp add: fd)
  show "po_channelMap (poller_of el v) = [timerFd el v \<mapsto> n_chans w]"
    using u(4) a(5) unfolding fd by (simp add: with_reader_def add_call_def u_def)
  show "interest (trace v) (po_epollFd (poller_of el v)) (timerFd el v) = Some (eventRead, n_chans w)"
    using b(4) unfolding fd by (simp add: with_reader_def)
  show "timerFd el v \<in> open_fds (trace v)"
    using ok [of SysTimerfdCreate] unfolding fd by (simp add: with_reader_def add_call_def u_def)
  show "newTimerQueue el u = Inr (el_tq (loops v el), reading_enabled el (n_chans w)
      (with_reader el (timerFd el v) (RcTimerQueue el) ?a))"
    using newTimerQueue_result [OF u(1,3,2)] u(4) ok [of SysTimerfdCreate] a(5)
    by (simp add: fd v set_loop_def u_def add_call_def)
qed


text \<open>
  What a new loop looks like: nothing is queued, the timer descriptor and the eventfd are
  different, watched for reading, and their channels call the right handlers.
\<close>

definition new_loop_ok :: "loop_ptr \<Rightarrow> world \<Rightarrow> bool" where
  "new_loop_ok el w \<longleftrightarrow>
     poller_inv el w \<and> timer_inv el w \<and> armed el w \<and> legal_trace (trace w) \<and>
     el_pendingTasks (loops w el) = [] \<and> queued el w = {} \<and> el_quit (loops w el) = 0 \<and>
     (\<forall>(fd, c, cb) \<in> {(timerFd el w, tq_timerFdChannel (el_tq (loops w el)), RcTimerQueue el),
                      (el_evtFd (loops w el), el_wakeupChannel (loops w el), RcWakeup el)}.
        po_channelMap (poller_of el w) fd = Some c \<and>
        interest (trace w) (po_epollFd (poller_of el w)) fd = Some (eventRead, c) \<and>
        ch_readCallback (chans w c) = Some cb)"

lemma with_wakeup_ok:
  assumes "stores_ok w" and "epoll_ctl_spec (env w)" and "legal_trace (trace w)"
    and "creates (env w)" and "fresh_fds (env w)"
  shows "new_loop_ok (n_loops w) (with_wakeup name w)"
    and "NewEventloop name w = Inr (n_loops w, with_wakeup name w)"
proof -
  let ?el = "n_loops w" and ?u = "with_poller name w" and ?v = "with_timers name w" and ?w = "with_wakeup name w"
  let ?r = "env ?v (trace ?v) SysEventfd" and ?c = "n_chans ?v"
  let ?a = "set_loop ?el (\<lambda>l. l\<lparr>el_wakeupChannel := ?c\<rparr>)
    (set_loop ?el (\<lambda>l. l\<lparr>el_evtFd := ret_n ?r\<rparr>) (add_call SysEventfd ?v))"
  have ok: "ret_err (env w tr s) = None" if "s \<in> {SysEpollCreate1, SysEventfd, SysTimerfdCreate}" for tr s
    using assms(4) that by (auto simp: creates_def)
  note v = with_timers_ok [OF assms(1-4), of name]
  have env: "env ?v = env w" "n_chans ?v = Suc (n_chans w)" "timers ?v = timers w" "n_timers ?v = n_timers w"
    "tq_tasks (el_tq (loops ?v ?el)) = []" "tq_timerFdChannel (el_tq (loops ?v ?el)) = n_chans w"
    "ch_readCallback (chans ?v (n_chans w)) = Some (RcTimerQueue ?el)"
    "el_pendingTasks (loops ?v ?el) = []" "el_quit (loops ?v ?el) = 0"
    by (simp_all add: with_timers_def Let_def step_defs)
  have fds: "ret_n ?r \<noteq> timerFd ?el ?v"
    using v(4) assms(5) ok [of SysEventfd] unfolding fresh_fds_def env(1)
    by (metis insertCI makes_fd.simps(2))
  then have "poller_inv ?el ?a" "legal_trace (trace ?a)" "epoll_ctl_spec (env ?a)"
    "po_channelMap (poller_of ?el ?a) (ret_n ?r) = None" "n_chans ?a = ?c"
    using v assms(2) env(1)
    by (auto intro!: poller_inv_set_loop poller_inv_add_call simp: inert_def)
      (simp_all add: set_loop_def add_call_def legal_call_def)
  note w = open_reader [OF this(1,3,2,4), of "RcWakeup ?el", unfolded this(5)]
  have w_eq: "?w = reading_enabled ?el ?c (with_reader ?el (ret_n ?r) (RcWakeup ?el) ?a)"
    by (simp add: with_wakeup_def Let_def)
  have "owned ?el ?w = {}"
    using assms(1) env by (auto simp: w_eq step_defs owned_def stores_ok_def)
  moreover have empty: "queued ?el ?w = {}" "tq_tasks (el_tq (loops ?w ?el)) = []"
    using env by (simp_all add: w_eq step_defs queued_def)
  ultimately have "timer_inv ?el ?w" "armed ?el ?w"
    by (auto simp: timer_inv_def armed_def intro: heap_ok_empty)
  moreover have "interest (trace ?w) (po_epollFd (poller_of ?el ?w)) (timerFd ?el ?w) = Some (eventRead, n_chans w)"
    using w(2) v(3) env \<open>ret_n ?r \<noteq> timerFd ?el ?v\<close>
    unfolding w_eq [symmetric] poller_inv_def
    by (simp add: believed_def) (simp add: w_eq step_defs with_timers_def Let_def)
  ultimately show "new_loop_ok ?el ?w"
    using w v(3) env empty(1) fds [symmetric] unfolding w_eq [symmetric] new_loop_ok_def
    by (simp add: w_eq step_defs)
  have "NewEventloop name w = go_bind (newTimerQueue ?el) (\<lambda>tq.
       go_seq (upd_loop ?el (\<lambda>l. l\<lparr>el_tq := tq\<rparr>)) (
       go_bind createEventFd (\<lambda>evtFd.
       go_seq (upd_loop ?el (\<lambda>l. l\<lparr>el_evtFd := evtFd\<rparr>)) (
       go_bind (NewChannel ?el evtFd) (\<lambda>ch.
       go_seq (upd_loop ?el (\<lambda>l. l\<lparr>el_wakeupChannel := ch\<rparr>)) (
       go_seq (setReadCallback ch (RcWakeup ?el)) (
       go_seq (enableReading ch) (go_ret ?el)))))))) ?u"
    using ok [of SysEpollCreate1]
    by (simp add: NewEventloop_def newPoller_def go_defs world_defs with_poller_def add_call_def Let_def
        blank_loop_def)
  also have "\<dots> = go_bind createEventFd (\<lambda>evtFd.
       go_seq (upd_loop ?el (\<lambda>l. l\<lparr>el_evtFd := evtFd\<rparr>)) (
       go_bind (NewChannel ?el evtFd) (\<lambda>ch.
       go_seq (upd_loop ?el (\<lambda>l. l\<lparr>el_wakeupChannel := ch\<rparr>)) (
       go_seq (setReadCallback ch (RcWakeup ?el)) (
       go_seq (enableReading ch) (go_ret ?el)))))) ?v"
    by (simp add: v(6) go_bind_def go_seq_def upd_loop_def go_modify_def)
      (simp add: with_timers_def Let_def set_loop_def)
  also have "\<dots> = go_seq (enableReading ?c) (go_ret ?el) (with_reader ?el (ret_n ?r) (RcWakeup ?el) ?a)"
    using ok [of SysEventfd] env(1)
    by (simp add: go_defs world_defs createEventFd_def NewChannel_def setReadCallback_def
        step_defs swap_updates Let_def)
  finally show "NewEventloop name w = Inr (n_loops w, ?w)"
    using w(1) by (simp add: w_eq go_defs)
qed


section \<open>Iterating\<close>

text \<open>The world in which the loop starts, and the one it leaves.\<close>

definition started :: "loop_ptr \<Rightarrow> world \<Rightarrow> world" where
  "started el w = set_loop el (\<lambda>l. l\<lparr>el_looping := 1, el_quit := 0\<rparr>) w"

definition destroyed :: "loop_ptr \<Rightarrow> world \<Rightarrow> world" where
  "destroyed el w = add_call (SysClose (timerFd el w)) (add_call (SysClose (el_evtFd (loops w el)))
     (set_loop el (\<lambda>l. l\<lparr>el_looping := 0\<rparr>) w))"

lemma Loop_unfold:
  "Loop rcb ecb tkb el n w = (case iterate rcb ecb tkb el n (started el w) of
     Inl e \<Rightarrow> Inl e | Inr (stopped, v) \<Rightarrow> Inr (if stopped then (True, destroyed el v) else (False, v)))"
  by (auto simp: Loop_def go_defs world_defs started_def destroyed_def set_loop_def add_call_def
      destroy_def tq_shutdown_def Let_def split: sum.splits)

section \<open>Properties\<close>

text \<open>
  C12: \<open>NewEventloop\<close> returns a loop in a consistent state: the invariants of the poller and of
  the timer queue hold, nothing is pending, and the kernel watches the timer descriptor and
  the eventfd, two different descriptors, for reading, with the channels that call
  \<open>timerQueue.handleRead\<close> and \<open>Eventloop.handleRead\<close>.
\<close>

theorem NewEventloop_consistent:
  assumes "stores_ok w" and "epoll_ctl_spec (env w)" and "legal_trace (trace w)"
    and "creates (env w)" and "fresh_fds (env w)"
  shows "wp no_panic (NewEventloop name) (\<lambda>el w'. el = n_loops w \<and> new_loop_ok el w') w"
  using with_wakeup_ok [OF assms, of name] by (simp add: wp_def)

text \<open>A kernel whose descriptors are larger than every number it has returned before.\<close>

definition counting_kernel :: "trace \<Rightarrow> syscall \<Rightarrow> sysret" where
  "counting_kernel tr s = (quiet_kernel tr s)\<lparr>ret_n :=
     (if makes_fd s then 1 + (\<Sum>x \<leftarrow> tr. \<bar>ret_n (snd x)\<bar>) else 0)\<rparr>"

lemma open_fds_bound: "fd \<in> open_fds tr \<Longrightarrow> \<bar>fd\<bar> \<le> (\<Sum>x \<leftarrow> tr. \<bar>ret_n (snd x)\<bar>)"
proof (induction tr rule: rev_induct)
  case (snoc x tr)
  obtain s r where x: "x = (s, r)"
    by force
  have "fd \<in> open_fds tr \<or> fd = ret_n r"
    using snoc.prems by (cases s) (auto simp: x split: if_splits)
  moreover have "0 \<le> (\<Sum>x \<leftarrow> tr. \<bar>ret_n (snd x)\<bar>)"
    by (rule sum_list_nonneg) auto
  ultimately show ?case
    using snoc.IH by (auto simp: x)
qed (simp add: open_fds_def)

lemma counting_kernel_ok:
  "epoll_ctl_spec counting_kernel" "creates counting_kernel" "fresh_fds counting_kernel"
proof -
  show "epoll_ctl_spec counting_kernel" "creates counting_kernel"
    by (simp_all add: epoll_ctl_spec_def creates_def counting_kernel_def quiet_kernel_def)
  have "1 + (\<Sum>x \<leftarrow> tr. \<bar>ret_n (snd x)\<bar>) \<notin> open_fds tr" for tr
    using open_fds_bound [of "1 + (\<Sum>x \<leftarrow> tr. \<bar>ret_n (snd x)\<bar>)" tr] by auto
  then show "fresh_fds counting_kernel"
    by (simp add: fresh_fds_def counting_kernel_def)
qed

theorem NewEventloop_consistent_witness:
  "wp no_panic (NewEventloop ''boss'') (\<lambda>el w'. el = 0 \<and> new_loop_ok el w') (blank_world counting_kernel)"
  using NewEventloop_consistent [of "blank_world counting_kernel"] counting_kernel_ok
  by (simp add: stores_ok_def blank_world_def)

text \<open>
  A stop that was requested before \<open>Loop\<close> is called has no effect: \<open>Loop\<close> clears \<open>quit\<close>
  first, and behaves as if it had never been set.
\<close>

theorem Loop_forgets_earlier_stop:
  "go_seq (Stop el) (Loop rcb ecb tkb el n) w = Loop rcb ecb tkb el n w"
proof -
  have "started el (w\<lparr>loops := (loops w)(el := (loops w el)\<lparr>el_quit := 1\<rparr>)\<rparr>) = started el w"
    by (simp add: started_def set_loop_def)
  then show ?thesis
    by (simp add: Loop_unfold Stop_def upd_loop_def go_seq_def go_bind_def go_modify_def)
qed

end
