(* ===== verification/Socket.thy ===== *)
theory Socket
  imports World
begin

text \<open>
  \<open>socket.go\<close>: the socket operations, the conversions between \<open>unix.Sockaddr\<close> and the
  addresses of package \<open>net\<close>, and the decimal printers; with them the conversions that
  \<open>tcp_server.go\<close> keeps for itself (\<open>SockaddrToTCPAddr\<close>, \<open>itod\<close>) and \<open>parseProtoAddr\<close> of
  \<open>acceptor.go\<close>. The functions of package \<open>net\<close> that the code calls on addresses are written
  out; what depends on the machine (the resolver, the interfaces) is the record \<open>resolver\<close>.
\<close>

section \<open>Package net\<close>

type_synonym ip = "byte list"

abbreviation v4InV6Prefix :: "byte list" where
  "v4InV6Prefix \<equiv> [0, 0, 0, 0, 0, 0, 0, 0, 0, 0, 0xff, 0xff]"

definition IPv4zero :: ip where "IPv4zero = v4InV6Prefix @ [0, 0, 0, 0]"
definition IPv6zero :: ip where "IPv6zero = replicate 16 0"

definition To4 :: "ip \<Rightarrow> ip option" where
  "To4 ip = (if length ip = 4 then Some ip
     else if length ip = 16 \<and> take 12 ip = v4InV6Prefix then Some (drop 12 ip) else None)"

definition To16 :: "ip \<Rightarrow> ip option" where
  "To16 ip = (if length ip = 4 then Some (v4InV6Prefix @ ip)
     else if length ip = 16 then Some ip else None)"

definition ip_Equal :: "ip \<Rightarrow> ip \<Rightarrow> bool" where
  "ip_Equal ip x = (if length ip = length x then ip = x
     else if length ip = 4 \<and> length x = 16 then take 12 x = v4InV6Prefix \<and> ip = drop 12 x
     else if length ip = 16 \<and> length x = 4 then take 12 ip = v4InV6Prefix \<and> drop 12 ip = x
     else False)"

text \<open>Printing: dotted decimal, and colon hexadecimal with the longest run of zeros left out.\<close>

definition hex_digit :: "nat \<Rightarrow> char" where
  "hex_digit d = (if d < 10 then digit d else char_of (87 + d))"

fun hex :: "nat \<Rightarrow> string" where
  "hex n = (if n < 16 then [hex_digit n] else hex (n div 16) @ [hex_digit (n mod 16)])"

declare hex.simps [simp del]

fun groups16 :: "byte list \<Rightarrow> nat list" where
  "groups16 (a # b # bs) = (256 * unat a + unat b) # groups16 bs"
| "groups16 _ = []"

definition zero_run :: "nat list \<Rightarrow> nat \<Rightarrow> nat" where
  "zero_run gs i = length (takeWhile (\<lambda>g. g = 0) (drop i gs))"

definition longest_zeros :: "nat list \<Rightarrow> nat \<times> nat" where
  "longest_zeros gs = fold (\<lambda>i (a, l). if zero_run gs i \<ge> 2 \<and> zero_run gs i > l then (i, zero_run gs i) else (a, l))
     [0..<length gs] (0, 0)"

fun join :: "string \<Rightarrow> string list \<Rightarrow> string" where
  "join sep [] = []"
| "join sep [x] = x"
| "join sep (x # xs) = x @ sep @ join sep xs"

definition ip6_String :: "ip \<Rightarrow> string" where
  "ip6_String ip = (let gs = groups16 ip; (a, l) = longest_zeros gs in
     if l = 0 then join '':'' (map hex gs)
     else join '':'' (map hex (take a gs)) @ ''::'' @ join '':'' (map hex (drop (a + l) gs)))"

definition ip_String :: "ip \<Rightarrow> string" where
  "ip_String ip = (if ip = [] then ''<nil>''
     else if length ip \<noteq> 4 \<and> length ip \<noteq> 16
     then ''?'' @ concat (map (\<lambda>b. [hex_digit (unat b div 16), hex_digit (unat b mod 16)]) ip)
     else case To4 ip of
       Some p4 \<Rightarrow> join ''.'' (map (\<lambda>b. decimal (unat b)) p4)
     | None \<Rightarrow> ip6_String ip)"

definition JoinHostPort :: "string \<Rightarrow> string \<Rightarrow> string" where
  "JoinHostPort host port =
     (if CHR '':'' \<in> set host then ''['' @ host @ '']:'' @ port else host @ '':'' @ port)"

fun tcpAddr_String :: "tcpAddr option \<Rightarrow> string" where
  "tcpAddr_String None = ''<nil>''"
| "tcpAddr_String (Some a) = (let ip = (if ta_IP a = [] then [] else ip_String (ta_IP a)) in
     JoinHostPort (if ta_Zone a \<noteq> [] then ip @ ''%'' @ ta_Zone a else ip) (Itoa (ta_Port a)))"

text \<open>The method \<open>String\<close> of a \<open>net.Addr\<close>; on the nil interface the call panics.\<close>

definition addr_String :: "net_addr option \<Rightarrow> ('s, string) go" where
  "addr_String a = (case a of
       None \<Rightarrow> go_panic NilDereference
     | Some (TCPAddr t) \<Rightarrow> go_ret (tcpAddr_String t)
     | Some (UnixAddr name n) \<Rightarrow> go_ret name)"

definition addr_text :: "net_addr \<Rightarrow> string" where
  "addr_text a = (case a of TCPAddr t \<Rightarrow> tcpAddr_String t | UnixAddr name n \<Rightarrow> name)"

lemma addr_String_Some [simp]: "addr_String (Some a) = go_ret (addr_text a)"
  by (cases a) (simp_all add: addr_String_def addr_text_def)

section \<open>Decimal printing\<close>

text \<open>\<open>xs[i] = x\<close>, and the conversion \<open>string(bytes)\<close>.\<close>

definition go_store :: "'a list \<Rightarrow> int \<Rightarrow> 'a \<Rightarrow> ('s, 'a list) go" where
  "go_store xs i x =
     (if 0 \<le> i \<and> i < int (length xs) then go_ret (xs[nat i := x]) else go_panic IndexOutOfRange)"

lemma wp_store [simp]:
  "wp E (go_store xs i x) Q s =
     (if 0 \<le> i \<and> i < int (length xs) then Q (xs[nat i := x]) s else E IndexOutOfRange)"
  by (simp add: go_store_def)

definition string_of :: "byte list \<Rightarrow> string" where
  "string_of bs = map (\<lambda>b. char_of (unat b)) bs"

lemma word_div_10_less: "10 \<le> v \<Longrightarrow> unat (v div 10) < unat v" for v :: uint64
proof -
  assume "10 \<le> v"
  then have "10 \<le> unat v"
    by (simp add: word_le_nat_alt)
  then show ?thesis
    by (simp add: unat_div)
qed

function uint2decimal_loop :: "byte list \<Rightarrow> int \<Rightarrow> uint64 \<Rightarrow> ('s, string) go" where
  "uint2decimal_loop bs i val =
     (if val \<ge> 10 then
        let q = val div 10 in
        go_bind (go_store bs i (ucast (48 + val - q * 10))) (\<lambda>bs. uint2decimal_loop bs (i - 1) q)
      else
        go_bind (go_store bs i (ucast (48 + val))) (\<lambda>bs.
        go_bind (go_slice bs i (int (length bs))) (\<lambda>s. go_ret (string_of s))))"
  by pat_completeness auto
termination
  by (relation "measure (\<lambda>(bs, i, val). unat val)") (auto simp: word_div_10_less)

declare uint2decimal_loop.simps [simp del]

definition uint2decimalStr :: "uint64 \<Rightarrow> ('s, string) go" where
  "uint2decimalStr val =
     (if val = 0 then go_ret ''0''
      else go_bind (go_make 0 20) (\<lambda>bs. uint2decimal_loop bs (int (length bs) - 1) val))"

function itod_loop :: "byte list \<Rightarrow> int \<Rightarrow> uint64 \<Rightarrow> ('s, string) go" where
  "itod_loop b bp i =
     (if i > 0 then
        go_bind (go_store b (bp - 1) (ucast (i mod 10) + 48)) (\<lambda>b. itod_loop b (bp - 1) (i div 10))
      else go_bind (go_slice b bp (int (length b))) (\<lambda>s. go_ret (string_of s)))"
  by pat_completeness auto
termination
  by (relation "measure (\<lambda>(b, bp, i). unat i)") (auto simp: unat_div word_gt_0 unat_gt_0)

declare itod_loop.simps [simp del]

definition itod :: "uint64 \<Rightarrow> ('s, string) go" where
  "itod i = (if i = 0 then go_ret ''0'' else itod_loop (replicate 32 0) 32 i)"

section \<open>Socket addresses\<close>

definition ip6ZoneToString :: "resolver \<Rightarrow> uint32 \<Rightarrow> ('s, string) go" where
  "ip6ZoneToString rs zone =
     (if zone = 0 then go_ret []
      else case InterfaceByIndex rs (uint zone) of
        Some name \<Rightarrow> go_ret name
      | None \<Rightarrow> uint2decimalStr (ucast zone))"

definition SockaddrToTCPOrUnixAddr :: "resolver \<Rightarrow> sockaddr option \<Rightarrow> ('s, net_addr option) go" where
  "SockaddrToTCPOrUnixAddr rs sa = (case sa of
       Some (SockaddrInet4 port addr) \<Rightarrow>
         go_ret (Some (TCPAddr (Some \<lparr>ta_IP = addr, ta_Port = port, ta_Zone = []\<rparr>)))
     | Some (SockaddrInet6 port zone addr) \<Rightarrow>
         go_bind (ip6ZoneToString rs zone) (\<lambda>z.
         go_ret (Some (TCPAddr (Some \<lparr>ta_IP = addr, ta_Port = port, ta_Zone = z\<rparr>))))
     | Some (SockaddrUnix name) \<Rightarrow> go_ret (Some (UnixAddr name ''unix''))
     | _ \<Rightarrow> go_ret None)"

definition determineTCPProto :: "string \<Rightarrow> tcpAddr \<Rightarrow> goerror + string" where
  "determineTCPProto proto addr =
     (if To4 (ta_IP addr) \<noteq> None then Inr ''tcp4''
      else if To16 (ta_IP addr) \<noteq> None then Inr ''tcp6''
      else if proto \<in> {''tcp'', ''tcp4'', ''tcp6''} then Inr proto
      else Inl ErrUnsupportedTCPProtocol)"

abbreviation (input) AF_INET :: int where "AF_INET \<equiv> 2"
abbreviation (input) AF_INET6 :: int where "AF_INET6 \<equiv> 10"

definition ipToSockaddrInet4 :: "ip \<Rightarrow> int \<Rightarrow> goerror + sockaddr" where
  "ipToSockaddrInet4 ip port =
     (let ip = (if length ip = 0 then IPv4zero else ip) in
      case To4 ip of
        None \<Rightarrow> Inl (AddrError ''non-IPv4 address'' ip)
      | Some ip4 \<Rightarrow> Inr (SockaddrInet4 port (copy_at 0 ip4 [0, 0, 0, 0])))"

definition ipToSockaddrInet6 :: "resolver \<Rightarrow> ip \<Rightarrow> int \<Rightarrow> string \<Rightarrow> goerror + sockaddr" where
  "ipToSockaddrInet6 rs ip port zone =
     (let ip = (if length ip = 0 \<or> ip_Equal ip IPv4zero then IPv6zero else ip) in
      case To16 ip of
        None \<Rightarrow> Inl (AddrError ''non-IPv6 address'' ip)
      | Some ip6 \<Rightarrow>
          let addr = copy_at 0 ip6 (replicate 16 0) in
          case InterfaceByName rs zone of
            None \<Rightarrow> Inr (SockaddrInet6 port 0 addr)
          | Some index \<Rightarrow> Inr (SockaddrInet6 port (word_of_int index) addr))"

definition ipToSockaddr :: "resolver \<Rightarrow> int \<Rightarrow> ip \<Rightarrow> int \<Rightarrow> string \<Rightarrow> goerror + sockaddr" where
  "ipToSockaddr rs family ip port zone =
     (if family = AF_INET then ipToSockaddrInet4 ip port
      else if family = AF_INET6 then ipToSockaddrInet6 rs ip port zone
      else Inl (AddrError ''invalid address family'' ip))"

text \<open>The named results \<open>sa\<close>, \<open>family\<close>, \<open>tcpAddr\<close> and \<open>ipv6only\<close>, or the error.\<close>

definition GetTCPSockAddr :: "resolver \<Rightarrow> string \<Rightarrow> string \<Rightarrow>
    goerror + (sockaddr \<times> int \<times> tcpAddr \<times> bool)" where
  "GetTCPSockAddr rs proto addr =
     (case ResolveTCPAddr rs proto addr of
        Inl err \<Rightarrow> Inl err
      | Inr tcpAddr \<Rightarrow>
          (case determineTCPProto proto tcpAddr of
             Inl err \<Rightarrow> Inl err
           | Inr tcpVersion \<Rightarrow>
               if tcpVersion = ''tcp4'' then
                 map_sum (\<lambda>e. e) (\<lambda>sa. (sa, AF_INET, tcpAddr, False))
                   (ipToSockaddr rs AF_INET (ta_IP tcpAddr) (ta_Port tcpAddr) [])
               else if tcpVersion = ''tcp6'' \<or> tcpVersion = ''tcp'' then
                 map_sum (\<lambda>e. e) (\<lambda>sa. (sa, AF_INET6, tcpAddr, tcpVersion = ''tcp6''))
                   (ipToSockaddr rs AF_INET6 (ta_IP tcpAddr) (ta_Port tcpAddr) (ta_Zone tcpAddr))
               else Inl ErrUnsupportedProtocol))"

text \<open>The conversions of \<open>tcp_server.go\<close>.\<close>

definition IP6ZoneToString :: "resolver \<Rightarrow> int \<Rightarrow> ('s, string) go" where
  "IP6ZoneToString rs zone =
     (if zone = 0 then go_ret []
      else case InterfaceByIndex rs zone of
        Some name \<Rightarrow> go_ret name
      | None \<Rightarrow> itod (word_of_int zone))"

definition SockaddrToIPAndZone :: "resolver \<Rightarrow> sockaddr option \<Rightarrow> ('s, ip \<times> string) go" where
  "SockaddrToIPAndZone rs sa = (case sa of
       Some (SockaddrInet4 port addr) \<Rightarrow>
         go_ret (copy_at 12 addr ((replicate 16 0)[10 := 0xff, 11 := 0xff]), [])
     | Some (SockaddrInet6 port zone addr) \<Rightarrow>
         go_bind (IP6ZoneToString rs (uint zone)) (\<lambda>z. go_ret (copy_at 0 addr (replicate 16 0), z))
     | _ \<Rightarrow> go_ret ([], []))"

definition SockaddrToTCPAddr :: "resolver \<Rightarrow> sockaddr option \<Rightarrow> ('s, tcpAddr option) go" where
  "SockaddrToTCPAddr rs sa =
     go_bind (SockaddrToIPAndZone rs sa) (\<lambda>(ip, zone). case sa of
       Some (SockaddrInet4 port _) \<Rightarrow> go_ret (Some \<lparr>ta_IP = ip, ta_Port = port, ta_Zone = []\<rparr>)
     | Some (SockaddrInet6 port _ _) \<Rightarrow> go_ret (Some \<lparr>ta_IP = ip, ta_Port = port, ta_Zone = zone\<rparr>)
     | _ \<Rightarrow> go_ret None)"

section \<open>Sockets\<close>

text \<open>The flags of \<open>socket\<close> and \<open>accept4\<close>, and the socket options.\<close>

abbreviation (input) SOCK_STREAM :: int where "SOCK_STREAM \<equiv> 1"
abbreviation (input) SOCK_NONBLOCK :: int where "SOCK_NONBLOCK \<equiv> 0x800"
abbreviation (input) SOCK_CLOEXEC :: int where "SOCK_CLOEXEC \<equiv> 0x80000"
abbreviation (input) IPPROTO_TCP :: int where "IPPROTO_TCP \<equiv> 6"
abbreviation (input) SOL_SOCKET :: int where "SOL_SOCKET \<equiv> 1"
abbreviation (input) SO_REUSEADDR :: int where "SO_REUSEADDR \<equiv> 2"
abbreviation (input) SO_ERROR :: int where "SO_ERROR \<equiv> 4"
abbreviation (input) TCP_NODELAY :: int where "TCP_NODELAY \<equiv> 1"
abbreviation (input) SOMAXCONN :: int where "SOMAXCONN \<equiv> 0x1000"

definition sys_error :: "sysret \<Rightarrow> goerror option" where
  "sys_error r = map_option Errno (ret_err r)"

definition sysSocket :: "int \<Rightarrow> int \<Rightarrow> int \<Rightarrow> (world, goerror + int) go" where
  "sysSocket family sotype proto =
     go_bind (sys (SysSocket family (or (or sotype SOCK_NONBLOCK) SOCK_CLOEXEC) proto)) (\<lambda>r.
     go_ret (case ret_err r of None \<Rightarrow> Inr (ret_n r) | Some e \<Rightarrow> Inl (Errno e)))"

text \<open>A \<open>socket\<close> is its descriptor.\<close>

definition newSocket :: "(world, int) go" where
  "newSocket =
     go_bind (sysSocket AF_INET SOCK_STREAM IPPROTO_TCP) (\<lambda>r.
     case r of Inl err \<Rightarrow> go_panic (PanicErr err) | Inr fd \<Rightarrow> go_ret fd)"

definition socket_bind :: "int \<Rightarrow> string \<Rightarrow> string \<Rightarrow> (world, goerror + sockaddr) go" where
  "socket_bind fd network addr =
     go_bind (go_gets net) (\<lambda>rs.
     case GetTCPSockAddr rs network addr of
       Inl err \<Rightarrow> go_ret (Inl err)
     | Inr (sa, _, _, _) \<Rightarrow>
         go_bind (sys (SysBind fd sa)) (\<lambda>r.
         case ret_err r of
           Some e \<Rightarrow> go_panic (PanicErr (Errno e))
         | None \<Rightarrow> go_ret (Inr sa)))"

definition accept :: "int \<Rightarrow> (world, goerror + (int \<times> net_addr option)) go" where
  "accept fd =
     go_bind (sys (SysAccept4 fd (or SOCK_NONBLOCK SOCK_CLOEXEC))) (\<lambda>r.
     case ret_err r of
       Some e \<Rightarrow>
         if e \<in> {EINTR, EAGAIN, ECONNABORTED} then go_ret (Inl (Errno e))
         else go_ret (Inl ErrAcceptSocket)
     | None \<Rightarrow>
         go_bind (go_gets net) (\<lambda>rs.
         go_bind (SockaddrToTCPOrUnixAddr rs (ret_addr r)) (\<lambda>remoteAddr.
         go_ret (Inr (ret_n r, remoteAddr)))))"

definition socket_close :: "int \<Rightarrow> (world, goerror option) go" where
  "socket_close fd = go_bind (sys (SysClose fd)) (\<lambda>r. go_ret (sys_error r))"

definition socket_listen :: "int \<Rightarrow> (world, unit) go" where
  "socket_listen fd =
     go_bind (sys (SysListen fd SOMAXCONN)) (\<lambda>r.
     case ret_err r of Some e \<Rightarrow> go_panic (PanicErr (Errno e)) | None \<Rightarrow> go_ret ())"

definition setReuseAddr :: "int \<Rightarrow> bool \<Rightarrow> (world, goerror option) go" where
  "setReuseAddr fd f =
     go_bind (sys (SysSetsockoptInt fd SOL_SOCKET SO_REUSEADDR (if \<not> f then 0 else 1))) (\<lambda>r.
     go_ret (sys_error r))"

definition setTcpNoDelay :: "int \<Rightarrow> bool \<Rightarrow> (world, goerror option) go" where
  "setTcpNoDelay fd f =
     go_bind (sys (SysSetsockoptInt fd IPPROTO_TCP TCP_NODELAY (if \<not> f then 0 else 1))) (\<lambda>r.
     go_ret (sys_error r))"

text \<open>\<open>GetLocalAddr\<close> of \<open>tcp_client.go\<close>.\<close>

definition GetLocalAddr :: "int \<Rightarrow> (world, goerror + net_addr option) go" where
  "GetLocalAddr fd =
     go_bind (sys (SysGetsockname fd)) (\<lambda>r.
     case ret_err r of
       Some e \<Rightarrow> go_ret (Inl (Errno e))
     | None \<Rightarrow>
         go_bind (go_gets net) (\<lambda>rs.
         go_bind (SockaddrToTCPOrUnixAddr rs (ret_addr r)) (\<lambda>a. go_ret (Inr a))))"

section \<open>Addresses in configuration strings\<close>

text \<open>
  \<open>strings.ToLower\<close> on ASCII text, \<open>strings.Contains\<close>, and \<open>strings.Split\<close> with a separator
  that is not empty.
\<close>

definition lower_char :: "char \<Rightarrow> char" where
  "lower_char c = (let n = (of_char c :: nat) in if 65 \<le> n \<and> n \<le> 90 then char_of (n + 32) else c)"

definition ToLower :: "string \<Rightarrow> string" where
  "ToLower s = map lower_char s"

definition strings_Contains :: "string \<Rightarrow> string \<Rightarrow> bool" where
  "strings_Contains s t \<longleftrightarrow> 0 \<le> bytes_Index s t"

function strings_Split :: "string \<Rightarrow> string \<Rightarrow> string list" where
  "strings_Split s sep =
     (let k = bytes_Index s sep in
      if sep = [] \<or> k < 0 then [s]
      else take (nat k) s # strings_Split (drop (nat k + length sep) s) sep)"
  by pat_completeness auto
termination
proof (relation "measure (\<lambda>(s, sep). length s)")
  fix s sep :: string and k
  assume "k = bytes_Index s sep" "\<not> (sep = [] \<or> k < 0)"
  then show "((drop (nat k + length sep) s, sep), s, sep) \<in> measure (\<lambda>(s, sep). length s)"
    using bytes_Index_le [of s sep] by (cases sep) auto
qed simp

declare strings_Split.simps [simp del]

text \<open>The two index expressions are in range, because the separator occurs.\<close>

definition parseProtoAddr :: "string \<Rightarrow> string \<times> string" where
  "parseProtoAddr addr =
     (let address = ToLower addr in
      if strings_Contains address ''://''
      then let pair = strings_Split address ''://'' in (pair ! 0, pair ! 1)
      else (''tcp'', address))"

section \<open>The decimal printers\<close>

lemma unat_lt_20: "unat v < 10 ^ 20" for v :: uint64
  using unsigned_less [of v, where ?'a = nat] by simp

lemma digit_byte:
  fixes v :: uint64
  assumes "unat v < 10"
  shows "char_of (unat (ucast (48 + v) :: byte)) = digit (unat v)"
proof -
  have "unat (48 + v) = 48 + unat v"
    using assms by (subst unat_plus_if') auto
  then show ?thesis
    using assms by (simp add: digit_def unsigned_ucast_eq take_bit_nat_eq_self)
qed

lemma last_digit: "v - v div 10 * 10 = v mod 10" for v :: uint64
  by (simp add: minus_div_mult_eq_mod)

lemma unat_mod_10: "unat (v mod 10) = unat v mod 10" "unat (v div 10) = unat v div 10" for v :: uint64
  by (simp_all add: unat_mod unat_div)

lemma word_ge_10: "10 \<le> v \<longleftrightarrow> 10 \<le> unat v" for v :: uint64
  by (simp add: word_le_nat_alt)

lemma string_of_Cons: "string_of (b # bs) = char_of (unat b) # string_of bs"
  by (simp add: string_of_def)

lemma uint2decimal_loop_result:
  "i < int (length bs) \<Longrightarrow> int (length (decimal (unat val))) \<le> i + 1 \<Longrightarrow>
   uint2decimal_loop bs i val s = Inr (decimal (unat val) @ string_of (drop (nat i + 1) bs), s)"
proof (induction bs i val rule: uint2decimal_loop.induct)
  case (1 bs i val)
  have i: "0 \<le> i"
    using 1(3) decimal_nonempty(2) [of "unat val"] by linarith
  show ?case
  proof (cases "10 \<le> val")
    case True
    let ?d = "ucast (48 + val - val div 10 * 10) :: byte"
    let ?bs = "bs[nat i := ?d]"
    have dec: "decimal (unat val) = decimal (unat val div 10) @ [digit (unat val mod 10)]"
      using True by (simp add: word_ge_10 decimal.simps [of "unat val"])
    have d: "char_of (unat ?d) = digit (unat val mod 10)"
      using digit_byte [of "val mod 10"] by (simp add: last_digit unat_mod_10 add_diff_eq [symmetric])
    have drop: "drop (nat i) ?bs = ?d # drop (nat i + 1) bs"
      using 1(2) i by (simp add: Cons_nth_drop_Suc [symmetric])
    have "uint2decimal_loop ?bs (i - 1) (val div 10) s =
        Inr (decimal (unat (val div 10)) @ string_of (drop (nat (i - 1) + 1) ?bs), s)"
      using 1(2,3) i True decimal_nonempty(2) [of "unat val div 10"]
      by (intro 1(1)) (auto simp: dec unat_mod_10)
    moreover have "0 < i"
      using 1(3) unfolding dec by (cases "decimal (unat val div 10)") auto
    ultimately show ?thesis
      using True i 1(2) by (simp add: uint2decimal_loop.simps [of bs] go_defs go_store_def Let_def dec
          unat_mod_10 drop d string_of_Cons nat_diff_distrib)
  next
    case False
    let ?d = "ucast (48 + val) :: byte"
    have "unat val < 10"
      using False by (simp add: word_ge_10)
    then have dec: "decimal (unat val) = [digit (unat val)]" "char_of (unat ?d) = digit (unat val)"
      by (simp_all add: decimal.simps [of "unat val"] digit_byte)
    have "drop (nat i) (bs[nat i := ?d]) = ?d # drop (nat i + 1) bs"
      using 1(2) i by (simp add: Cons_nth_drop_Suc [symmetric])
    then show ?thesis
      using False i 1(2) by (simp add: uint2decimal_loop.simps [of bs] go_defs go_store_def dec string_of_Cons
          nat_diff_distrib)
  qed
qed

lemma uint2decimalStr_result: "uint2decimalStr val s = Inr (decimal (unat val), s)"
  using length_decimal [OF unat_lt_20, of val] uint2decimal_loop_result [of 19 "replicate 20 0" val s]
  by (simp add: uint2decimalStr_def go_defs decimal_0 string_of_def)

lemma itod_loop_result:
  "bp \<le> int (length b) \<Longrightarrow> 0 \<le> bp \<Longrightarrow> (i \<noteq> 0 \<Longrightarrow> int (length (decimal (unat i))) \<le> bp) \<Longrightarrow>
   itod_loop b bp i s = Inr ((if i = 0 then [] else decimal (unat i)) @ string_of (drop (nat bp) b), s)"
proof (induction b bp i rule: itod_loop.induct)
  case (1 b bp i)
  show ?case
  proof (cases "i = 0")
    case True
    then show ?thesis
      using 1(2,3) by (simp add: itod_loop.simps [of b] go_defs nat_diff_distrib)
  next
    case False
    let ?d = "ucast (i mod 10) + 48 :: byte"
    let ?b = "b[nat (bp - 1) := ?d]"
    have bp: "0 < bp" "int (length (decimal (unat i))) \<le> bp"
      using 1(4) False decimal_nonempty(2) [of "unat i"] by linarith+
    have dec: "decimal (unat i) = (if i div 10 = 0 then [] else decimal (unat i div 10)) @ [digit (unat i mod 10)]"
      using unat_eq_zero [of "i div 10"] by (auto simp: decimal.simps [of "unat i"] unat_mod_10)
    have m: "unat (ucast (i mod 10) :: byte) = unat i mod 10"
      by (simp add: unsigned_ucast_eq unat_mod_10 take_bit_nat_eq_self)
    have "unat ?d = unat i mod 10 + 48"
      using mod_less_divisor [of 10 "unat i"] by (subst unat_add_lem [THEN iffD1]) (auto simp: m simp del: mod_less_divisor)
    then have d: "char_of (unat ?d) = digit (unat i mod 10)"
      by (simp add: digit_def add.commute)
    have drop: "drop (nat (bp - 1)) ?b = ?d # drop (nat bp) b"
      using 1(2) bp by (simp add: Cons_nth_drop_Suc [symmetric] nat_diff_distrib Suc_nat_eq_nat_zadd1)
    have "itod_loop ?b (bp - 1) (i div 10) s =
        Inr ((if i div 10 = 0 then [] else decimal (unat (i div 10))) @ string_of (drop (nat (bp - 1)) ?b), s)"
      using 1(2) bp False by (intro 1(1)) (auto simp: dec unat_mod_10 word_gt_0 split: if_splits)
    then show ?thesis
      using False bp 1(2) by (simp add: itod_loop.simps [of b] go_defs go_store_def word_gt_0 dec
          unat_mod_10 drop d string_of_Cons)
  qed
qed

lemma itod_result: "itod i s = Inr (decimal (unat i), s)"
proof -
  have "length (decimal (unat i)) \<le> 20"
    by (rule length_decimal [OF unat_lt_20]) simp
  then show ?thesis
    using itod_loop_result [of 32 "replicate 32 0" i s]
    by (simp add: itod_def go_defs decimal_0 string_of_def)
qed
section \<open>Conversions\<close>

text \<open>
  What the \<open>net\<close> package promises of interfaces: one that has a name has a positive index, and
  the index leads back to the name.
\<close>

definition zone_stable :: "resolver \<Rightarrow> string \<Rightarrow> bool" where
  "zone_stable rs z \<longleftrightarrow> (case InterfaceByName rs z of
     None \<Rightarrow> True | Some i \<Rightarrow> 0 < i \<and> i < 2 ^ 32 \<and> InterfaceByIndex rs i = Some z)"

lemma To4_cases:
  assumes "length ip \<in> {4, 16}"
  obtains (v4) p where "To4 ip = Some p" "length p = 4" "ip = p \<or> ip = v4InV6Prefix @ p"
    | (v6) "To4 ip = None" "length ip = 16" "\<not> ip_Equal ip IPv4zero"
proof (cases "To4 ip")
  case None
  then have "length ip = 16" "take 12 ip \<noteq> v4InV6Prefix"
    using assms by (auto simp: To4_def split: if_splits)
  moreover from this have "\<not> ip_Equal ip IPv4zero"
    by (auto simp: ip_Equal_def IPv4zero_def)
  ultimately show ?thesis
    using None v6 by blast
next
  case (Some p)
  show ?thesis
  proof (rule v4 [OF Some])
    show "length p = 4"
      using Some assms by (auto simp: To4_def split: if_splits)
    have "take 12 ip = v4InV6Prefix \<Longrightarrow> ip = v4InV6Prefix @ drop 12 ip"
      using append_take_drop_id [of 12 ip] by presburger
    then show "ip = p \<or> ip = v4InV6Prefix @ p"
      using Some assms by (auto simp only: To4_def option.inject option.distinct split: if_splits)
  qed
qed

text \<open>The number under which the zone is stored.\<close>

definition zone_id :: "resolver \<Rightarrow> string \<Rightarrow> uint32" where
  "zone_id rs z = (case InterfaceByName rs z of None \<Rightarrow> 0 | Some i \<Rightarrow> word_of_int i)"

lemma zone_id_back:
  assumes "zone_stable rs z"
  shows "ip6ZoneToString rs (zone_id rs z) s = Inr (if InterfaceByName rs z = None then [] else z, s)"
    and "IP6ZoneToString rs (uint (zone_id rs z)) s = Inr (if InterfaceByName rs z = None then [] else z, s)"
proof -
  have u: "uint (word_of_int i :: uint32) = i" if "0 < i" "i < 2 ^ 32" for i
    using that by (simp add: uint_word_of_int)
  have "(word_of_int i :: uint32) \<noteq> 0" if "0 < i" "i < 2 ^ 32" for i
    using u [OF that] that by auto
  with u show "ip6ZoneToString rs (zone_id rs z) s = Inr (if InterfaceByName rs z = None then [] else z, s)"
    "IP6ZoneToString rs (uint (zone_id rs z)) s = Inr (if InterfaceByName rs z = None then [] else z, s)"
    using assms
    by (auto simp: zone_stable_def zone_id_def ip6ZoneToString_def IP6ZoneToString_def go_defs split: option.splits)
qed

text \<open>
  The address that a socket address can express: a missing IP becomes the unspecified address, of
  IPv4 for the network tcp4 and of IPv6 otherwise; the zone of an IPv4 address is dropped, and so is
  a zone that names no interface, also one written as a number.
\<close>

definition is_v4 :: "string \<Rightarrow> tcpAddr \<Rightarrow> bool" where
  "is_v4 proto t \<longleftrightarrow> To4 (ta_IP t) \<noteq> None \<or> ta_IP t = [] \<and> proto = ''tcp4''"

definition expressible :: "resolver \<Rightarrow> string \<Rightarrow> tcpAddr \<Rightarrow> tcpAddr" where
  "expressible rs proto t =
     \<lparr>ta_IP = (if ta_IP t = [] then replicate (if proto = ''tcp4'' then 4 else 16) 0 else ta_IP t),
      ta_Port = ta_Port t,
      ta_Zone = (if is_v4 proto t \<or> InterfaceByName rs (ta_Zone t) = None then [] else ta_Zone t)\<rparr>"

text \<open>Equal addresses, with the IP compared as \<open>net.IP.Equal\<close> does.\<close>

definition same_address :: "tcpAddr \<Rightarrow> tcpAddr \<Rightarrow> bool" where
  "same_address t t' \<longleftrightarrow> ip_Equal (ta_IP t) (ta_IP t') \<and> ta_Port t' = ta_Port t \<and> ta_Zone t' = ta_Zone t"

text \<open>What the conversions back do to the two kinds of socket addresses.\<close>

lemma Inet4_back:
  assumes "length p = 4"
  shows "SockaddrToTCPOrUnixAddr rs (Some (SockaddrInet4 port p)) s =
      Inr (Some (TCPAddr (Some \<lparr>ta_IP = p, ta_Port = port, ta_Zone = []\<rparr>)), s)"
    and "SockaddrToTCPAddr rs (Some (SockaddrInet4 port p)) s =
      Inr (Some \<lparr>ta_IP = v4InV6Prefix @ p, ta_Port = port, ta_Zone = []\<rparr>, s)"
  using assms
  by (simp_all add: SockaddrToTCPOrUnixAddr_def SockaddrToTCPAddr_def SockaddrToIPAndZone_def go_defs
      copy_tail numeral_nat)

lemma Inet6_back:
  assumes "length p = 16" and "zone_stable rs z"
  shows "SockaddrToTCPOrUnixAddr rs (Some (SockaddrInet6 port (zone_id rs z) p)) s =
      Inr (Some (TCPAddr (Some \<lparr>ta_IP = p, ta_Port = port,
        ta_Zone = if InterfaceByName rs z = None then [] else z\<rparr>)), s)"
    and "SockaddrToTCPAddr rs (Some (SockaddrInet6 port (zone_id rs z) p)) s =
      Inr (Some \<lparr>ta_IP = p, ta_Port = port, ta_Zone = if InterfaceByName rs z = None then [] else z\<rparr>, s)"
  using assms(1) zone_id_back [OF assms(2), of s]
  by (simp_all add: SockaddrToTCPOrUnixAddr_def SockaddrToTCPAddr_def SockaddrToIPAndZone_def go_defs copy_all)

text \<open>The address that a socket address of any family becomes.\<close>

definition zone_text :: "resolver \<Rightarrow> uint32 \<Rightarrow> string" where
  "zone_text rs zone = (if zone = 0 then [] else case InterfaceByIndex rs (uint zone) of
     Some name \<Rightarrow> name | None \<Rightarrow> decimal (unat zone))"

definition addr_of :: "resolver \<Rightarrow> sockaddr \<Rightarrow> net_addr option" where
  "addr_of rs sa = (case sa of
       SockaddrInet4 port ip \<Rightarrow> Some (TCPAddr (Some \<lparr>ta_IP = ip, ta_Port = port, ta_Zone = []\<rparr>))
     | SockaddrInet6 port zone ip \<Rightarrow>
         Some (TCPAddr (Some \<lparr>ta_IP = ip, ta_Port = port, ta_Zone = zone_text rs zone\<rparr>))
     | SockaddrUnix name \<Rightarrow> Some (UnixAddr name ''unix'')
     | SockaddrOther \<Rightarrow> None)"

lemma SockaddrToTCPOrUnixAddr_result: "SockaddrToTCPOrUnixAddr rs (Some sa) s = Inr (addr_of rs sa, s)"
proof -
  have "unat (ucast zone :: uint64) = unat zone" for zone :: uint32
  proof -
    have "unat zone < 2 ^ 64"
      using unsigned_less [of zone, where ?'a = nat] by simp
    then show ?thesis
      by (simp add: unsigned_ucast_eq take_bit_nat_eq_self)
  qed
  then show ?thesis
    by (cases sa) (auto simp: SockaddrToTCPOrUnixAddr_def addr_of_def ip6ZoneToString_def zone_text_def
        uint2decimalStr_result go_defs split: option.split)
qed

lemma bytes_Index_at:
  assumes "c \<notin> set pre"
  shows "bytes_Index (pre @ (c # s) @ rest) (c # s) = int (length pre)"
  using assms by (induction pre) (auto simp: take_Cons')

lemma lower_char_simps [simp]: "lower_char CHR '':'' = CHR '':''" "lower_char CHR ''/'' = CHR ''/''"
  by (simp_all add: lower_char_def Let_def)

lemma lower_char_colon: "lower_char c = CHR '':'' \<longleftrightarrow> c = CHR '':''"
proof (cases "65 \<le> (of_char c :: nat) \<and> (of_char c :: nat) \<le> 90")
  case True
  have colon: "(of_char CHR '':'' :: nat) = 58"
    by simp
  have "(of_char (lower_char c) :: nat) = of_char c + 32"
    using True by (simp add: lower_char_def Let_def)
  then have "(of_char (lower_char c) :: nat) \<noteq> 58" "(of_char c :: nat) \<noteq> 58"
    using True by linarith+
  then have "lower_char c \<noteq> CHR '':''" "c \<noteq> CHR '':''"
    using colon by metis+
  then show ?thesis
    by simp
next
  case False
  then show ?thesis
    by (simp only: lower_char_def Let_def if_False)
qed

text \<open>Conversions and printing change nothing.\<close>

lemma address_functions:
  "wp any_panic (SockaddrToTCPOrUnixAddr rs sa) (\<lambda>_ s'. s' = s) s"
  "wp any_panic (SockaddrToTCPAddr rs sa) (\<lambda>_ s'. s' = s) s"
  "wp any_panic (addr_String a) (\<lambda>_ s'. s' = s) s"
  by (auto simp: SockaddrToTCPOrUnixAddr_def ip6ZoneToString_def SockaddrToTCPAddr_def SockaddrToIPAndZone_def
      IP6ZoneToString_def addr_String_def wp_eq [where m = "uint2decimalStr _", OF uint2decimalStr_result]
      wp_eq [where m = "itod _", OF itod_result]
      split: option.split sockaddr.split net_addr.split)

section \<open>Properties\<close>

text \<open>
  C36: the two decimal printers, \<open>uint2decimalStr\<close> with its twenty bytes and \<open>itod\<close> with its
  thirty-two, never run out of their arrays, and both give the decimal numeral of their
  argument, which reads back as the number.
\<close>

theorem decimal_printers:
  "uint2decimalStr val s = Inr (decimal (unat val), s) \<and> itod val s = Inr (decimal (unat val), s) \<and>
   decimal_value (decimal (unat val)) = unat val"
  by (simp add: uint2decimalStr_result itod_result)

text \<open>
  C35: the conversion of a resolved address to a socket address and back. The resolver returns an IP
  of 4 or 16 bytes, or none at all (as for \<open>:4589\<close>). A missing IP is an error when the network is
  not tcp, tcp4 or tcp6. In every other case the socket address has the family of the IP version,
  and both conversions back give the address that a socket address can express: the same IP and
  port, the unspecified address for a missing IP, and the zone if it names an interface and the
  address is an IPv6 address.
\<close>

theorem GetTCPSockAddr_roundtrip:
  assumes "ResolveTCPAddr rs proto addr = Inr t" and "length (ta_IP t) \<in> {0, 4, 16}"
    and "zone_stable rs (ta_Zone t)"
  shows "if ta_IP t = [] \<and> proto \<notin> {''tcp'', ''tcp4'', ''tcp6''}
    then GetTCPSockAddr rs proto addr = Inl ErrUnsupportedTCPProtocol
    else \<exists>sa t1 t2. GetTCPSockAddr rs proto addr = Inr (sa, if is_v4 proto t then AF_INET else AF_INET6, t,
        To4 (ta_IP t) = None \<and> (ta_IP t = [] \<longrightarrow> proto = ''tcp6'')) \<and>
      SockaddrToTCPOrUnixAddr rs (Some sa) s = Inr (Some (TCPAddr (Some t1)), s) \<and>
      same_address (expressible rs proto t) t1 \<and>
      SockaddrToTCPAddr rs (Some sa) s = Inr (Some t2, s) \<and> same_address (expressible rs proto t) t2"
proof (cases "ta_IP t = []")
  case True
  have "To4 [] = None" "To16 [] = None" "To4 IPv4zero = Some (replicate 4 0)" "To16 IPv6zero = Some (replicate 16 0)"
    by (simp_all add: To4_def To16_def IPv4zero_def IPv6zero_def numeral_nat)
  then show ?thesis
    using True assms(1) Inet4_back [of "replicate 4 0" rs "ta_Port t" s]
      Inet6_back [of "replicate 16 0" rs "ta_Zone t" "ta_Port t" s] assms(3)
    by (cases "proto = ''tcp4''"; cases "InterfaceByName rs (ta_Zone t)")
      (auto simp: GetTCPSockAddr_def determineTCPProto_def ipToSockaddr_def ipToSockaddrInet4_def
        ipToSockaddrInet6_def Let_def is_v4_def expressible_def same_address_def ip_Equal_def zone_id_def copy_all)
next
  case False
  then have "length (ta_IP t) \<in> {4, 16}"
    using assms(2) by simp
  then show ?thesis
  proof (cases rule: To4_cases)
    case (v4 p)
    then show ?thesis
      using False assms(1) Inet4_back [of p rs "ta_Port t" s]
      by (auto simp: GetTCPSockAddr_def determineTCPProto_def ipToSockaddr_def ipToSockaddrInet4_def Let_def
          is_v4_def expressible_def same_address_def ip_Equal_def copy_all)
  next
    case v6
    have "To16 (ta_IP t) = Some (ta_IP t)"
      using v6 by (simp add: To16_def)
    then show ?thesis
      using False assms(1) v6 Inet6_back [of "ta_IP t" rs "ta_Zone t" "ta_Port t" s, OF v6(2) assms(3)]
      by (cases "InterfaceByName rs (ta_Zone t)")
        (auto simp: zone_id_def GetTCPSockAddr_def determineTCPProto_def ipToSockaddr_def ipToSockaddrInet6_def
          Let_def is_v4_def expressible_def same_address_def ip_Equal_def copy_all)
  qed
qed

text \<open>A resolver that knows a link-local address with a zone, and addresses without a host.\<close>

definition two_hosts :: resolver where
  "two_hosts = \<lparr>ResolveTCPAddr = (\<lambda>_ a. Inr (if a = '':80'' then \<lparr>ta_IP = [], ta_Port = 80, ta_Zone = []\<rparr>
       else \<lparr>ta_IP = 0xfe # 0x80 # replicate 13 0 @ [1], ta_Port = 80, ta_Zone = ''eth0''\<rparr>)),
     InterfaceByName = (\<lambda>z. if z = ''eth0'' then Some 2 else None),
     InterfaceByIndex = (\<lambda>i. if i = 2 then Some ''eth0'' else None)\<rparr>"

theorem GetTCPSockAddr_roundtrip_witness:
  "(\<exists>sa t fam v6. GetTCPSockAddr two_hosts ''tcp'' ''h:80'' = Inr (sa, fam, t, v6) \<and>
     (\<exists>t1. SockaddrToTCPOrUnixAddr two_hosts (Some sa) () = Inr (Some (TCPAddr (Some t1)), ()) \<and>
       ta_Zone t1 = ''eth0'')) \<and>
   (\<exists>sa t fam v6. GetTCPSockAddr two_hosts ''tcp4'' '':80'' = Inr (sa, fam, t, v6) \<and>
     (\<exists>t1. SockaddrToTCPOrUnixAddr two_hosts (Some sa) () = Inr (Some (TCPAddr (Some t1)), ()) \<and>
       ip_Equal (replicate 4 0) (ta_IP t1)))"
proof -
  have z: "zone_stable two_hosts ''eth0''" "zone_stable two_hosts []"
    by (simp_all add: zone_stable_def two_hosts_def)
  have v: "\<not> is_v4 ''tcp'' \<lparr>ta_IP = 0xfe # 0x80 # replicate 13 0 @ [1], ta_Port = 80, ta_Zone = ''eth0''\<rparr>"
    by (simp add: is_v4_def To4_def)
  note rt = GetTCPSockAddr_roundtrip [of two_hosts "''tcp''" "''h:80''"
      "\<lparr>ta_IP = 0xfe # 0x80 # replicate 13 0 @ [1], ta_Port = 80, ta_Zone = ''eth0''\<rparr>" "()"]
  note rt4 = GetTCPSockAddr_roundtrip [of two_hosts "''tcp4''" "'':80''"
      "\<lparr>ta_IP = [], ta_Port = 80, ta_Zone = []\<rparr>" "()"]
  have r: "ResolveTCPAddr two_hosts ''tcp'' ''h:80'' =
      Inr \<lparr>ta_IP = 0xfe # 0x80 # replicate 13 0 @ [1], ta_Port = 80, ta_Zone = ''eth0''\<rparr>"
    "ResolveTCPAddr two_hosts ''tcp4'' '':80'' = Inr \<lparr>ta_IP = [], ta_Port = 80, ta_Zone = []\<rparr>"
    "InterfaceByName two_hosts ''eth0'' = Some 2"
    by (simp_all add: two_hosts_def)
  show ?thesis
    using rt [OF r(1)] rt4 [OF r(2)] z v r(3) by (fastforce simp: same_address_def expressible_def)
qed

text \<open>
  \<open>parseProtoAddr\<close> splits \<open>scheme://rest\<close> into the two parts in lower case, the second one
  ending before another \<open>://\<close>; without a scheme the network is tcp.
\<close>

theorem parseProtoAddr_parts:
  assumes "CHR '':'' \<notin> set scheme"
  shows "(parseProtoAddr (scheme @ ''://'' @ rest) =
    (ToLower scheme, if strings_Contains (ToLower rest) ''://''
       then take (nat (bytes_Index (ToLower rest) ''://'')) (ToLower rest) else ToLower rest)) \<and>
    (\<not> strings_Contains (ToLower rest) ''://'' \<longrightarrow> parseProtoAddr rest = (''tcp'', ToLower rest))"
proof (intro conjI impI)
  let ?s = "ToLower scheme" and ?r = "ToLower rest"
  have low: "ToLower (scheme @ ''://'' @ rest) = ?s @ ''://'' @ ?r"
    by (simp add: ToLower_def)
  have "CHR '':'' \<notin> set ?s"
    using assms unfolding ToLower_def set_map image_iff lower_char_colon by (metis lower_char_colon)
  then have idx: "bytes_Index (?s @ ''://'' @ ?r) ''://'' = int (length ?s)"
    by (rule bytes_Index_at)
  have split: "strings_Split (?s @ ''://'' @ ?r) ''://'' = ?s # strings_Split ?r ''://''"
    unfolding strings_Split.simps [of "?s @ ''://'' @ ?r"] idx by (simp add: Let_def)
  have "strings_Split ?r ''://'' ! 0 = (if strings_Contains ?r ''://''
      then take (nat (bytes_Index ?r ''://'')) ?r else ?r)"
    by (simp add: strings_Split.simps [of ?r] strings_Contains_def Let_def)
  moreover have "strings_Contains (?s @ ''://'' @ ?r) ''://''"
    unfolding strings_Contains_def idx by simp
  ultimately show "parseProtoAddr (scheme @ ''://'' @ rest) = (?s, if strings_Contains ?r ''://''
       then take (nat (bytes_Index ?r ''://'')) ?r else ?r)"
    unfolding parseProtoAddr_def low split Let_def by simp
  show "\<not> strings_Contains ?r ''://'' \<Longrightarrow> parseProtoAddr rest = (''tcp'', ?r)"
    by (simp add: parseProtoAddr_def Let_def)
qed

theorem parseProtoAddr_parts_witness:
  "parseProtoAddr (''TCP4'' @ ''://'' @ ''Host:80'') = (ToLower ''TCP4'', ToLower ''Host:80'')"
  using parseProtoAddr_parts [of "''TCP4''" "''Host:80''"]
  by (simp add: strings_Contains_def ToLower_def lower_char_def)

end
