(* ===== verification/Tcp_Conn.thy ===== *)
theory Tcp_Conn
  imports Eventloop Socket
begin

text \<open>
  \<open>tcp_conn.go\<close>: the TCP connection. User functions are run by parameters: \<open>ucb\<close> for \<open>onConn\<close>
  and \<open>onWriteComplete\<close>, \<open>umsg\<close> for \<open>onMsg\<close>, \<open>ccb\<close> for \<open>onClose\<close>, \<open>acb\<close> for the callback of
  \<open>AsyncWrite\<close>. Calling a nil function is a nil dereference.
\<close>

section \<open>Construction and accessors\<close>

definition NewTcpConn :: "loop_ptr \<Rightarrow> string \<Rightarrow> int \<Rightarrow> net_addr option \<Rightarrow> net_addr option \<Rightarrow>
    (world, conn_ptr) go" where
  "NewTcpConn el name fd localAddr peerAddr =
     go_bind (NewChannel el fd) (\<lambda>ch.
     go_bind (new_conn \<lparr>tc_el = el, tc_name = name, tc_so = fd, tc_ch = ch,
       tc_localAddr = localAddr, tc_peerAddr = peerAddr, tc_state = Connecting,
       tc_onConn = None, tc_onMsg = None, tc_onClose = None, tc_onWriteComplete = None,
       tc_inbound = NewBuffer, tc_outbound = NewBuffer, tc_ctx = None\<rparr>) (\<lambda>conn.
     go_bind (addr_String peerAddr) (\<lambda>_.
     go_seq (setReadCallback ch (RcConn conn))
       (go_ret conn))))"

definition conn_Eventloop :: "conn_ptr \<Rightarrow> (world, loop_ptr) go" where
  "conn_Eventloop c = go_gets (\<lambda>w. tc_el (conns w c))"

definition SetOnConn :: "conn_ptr \<Rightarrow> nat option \<Rightarrow> (world, unit) go" where
  "SetOnConn c cb = upd_conn c (\<lambda>t. t\<lparr>tc_onConn := cb\<rparr>)"

definition SetOnMsg :: "conn_ptr \<Rightarrow> nat option \<Rightarrow> (world, unit) go" where
  "SetOnMsg c cb = upd_conn c (\<lambda>t. t\<lparr>tc_onMsg := cb\<rparr>)"

definition setOnClose :: "conn_ptr \<Rightarrow> closeCallback option \<Rightarrow> (world, unit) go" where
  "setOnClose c cb = upd_conn c (\<lambda>t. t\<lparr>tc_onClose := cb\<rparr>)"

definition SetOnWriteComplete :: "conn_ptr \<Rightarrow> nat option \<Rightarrow> (world, unit) go" where
  "SetOnWriteComplete c cb = upd_conn c (\<lambda>t. t\<lparr>tc_onWriteComplete := cb\<rparr>)"

definition GetConnState :: "conn_ptr \<Rightarrow> (world, ConnState) go" where
  "GetConnState c = go_gets (\<lambda>w. tc_state (conns w c))"

definition conn_GetLocalAddr :: "conn_ptr \<Rightarrow> (world, net_addr option) go" where
  "conn_GetLocalAddr c = go_gets (\<lambda>w. tc_localAddr (conns w c))"

definition GetPeerAddr :: "conn_ptr \<Rightarrow> (world, net_addr option) go" where
  "GetPeerAddr c = go_gets (\<lambda>w. tc_peerAddr (conns w c))"

text \<open>The buffers, by their present value; operations on them are zoomed below.\<close>

definition GetInboundBuffer :: "conn_ptr \<Rightarrow> (world, buffer) go" where
  "GetInboundBuffer c = go_gets (\<lambda>w. tc_inbound (conns w c))"

definition GetOutboundBuffer :: "conn_ptr \<Rightarrow> (world, buffer) go" where
  "GetOutboundBuffer c = go_gets (\<lambda>w. tc_outbound (conns w c))"

definition conn_Name :: "conn_ptr \<Rightarrow> (world, string) go" where
  "conn_Name c = go_gets (\<lambda>w. tc_name (conns w c))"

definition IsConnected :: "conn_ptr \<Rightarrow> (world, bool) go" where
  "IsConnected c = go_gets (\<lambda>w. tc_state (conns w c) = Connected)"

definition IsDisconnected :: "conn_ptr \<Rightarrow> (world, bool) go" where
  "IsDisconnected c = go_gets (\<lambda>w. tc_state (conns w c) = Disconnected)"

text \<open>
  The context is published through the first word of the interface: \<open>SetContext\<close> stores a
  pointer there, and \<open>GetContext\<close> dereferences it, also when nothing was stored.
\<close>

definition SetContext :: "conn_ptr \<Rightarrow> nat \<Rightarrow> (world, unit) go" where
  "SetContext c ctx = upd_conn c (\<lambda>t. t\<lparr>tc_ctx := Some ctx\<rparr>)"

definition GetContext :: "conn_ptr \<Rightarrow> (world, nat) go" where
  "GetContext c = go_bind (go_gets (\<lambda>w. tc_ctx (conns w c))) (\<lambda>ctx.
     case ctx of None \<Rightarrow> go_panic NilDereference | Some x \<Rightarrow> go_ret x)"

text \<open>The channel of a connection, and operations of its two buffers.\<close>

abbreviation conn_chan :: "conn_ptr \<Rightarrow> world \<Rightarrow> channel" where
  "conn_chan c w \<equiv> chans w (tc_ch (conns w c))"

definition on_inbound :: "conn_ptr \<Rightarrow> (buffer, 'a) go \<Rightarrow> (world, 'a) go" where
  "on_inbound c m = go_zoom (\<lambda>w. tc_inbound (conns w c))
     (\<lambda>b w. w\<lparr>conns := (conns w)(c := (conns w c)\<lparr>tc_inbound := b\<rparr>)\<rparr>) m"

definition on_outbound :: "conn_ptr \<Rightarrow> (buffer, 'a) go \<Rightarrow> (world, 'a) go" where
  "on_outbound c m = go_zoom (\<lambda>w. tc_outbound (conns w c))
     (\<lambda>b w. w\<lparr>conns := (conns w)(c := (conns w c)\<lparr>tc_outbound := b\<rparr>)\<rparr>) m"

section \<open>Writing\<close>

text \<open>
  The direct attempt of \<open>Write\<close>, made when nothing is waiting: its error, or the number of
  bytes \<open>unix.Write\<close> says it took. Completion is announced asynchronously.
\<close>

definition write_now :: "conn_ptr \<Rightarrow> byte list \<Rightarrow> (world, errno + int) go" where
  "write_now c data =
     go_bind (go_gets (\<lambda>w. (conns w c, conn_chan c w))) (\<lambda>(conn, ch).
     if \<not> isWriting ch \<and> ReadableBytes (tc_outbound conn) = 0 then
       go_bind (sys (SysWrite (ch_fd ch) data)) (\<lambda>r.
       if ret_err r \<noteq> None \<and> ret_err r \<noteq> Some EWOULDBLOCK then go_ret (Inl (the (ret_err r)))
       else
         let sent = ret_n r in
         go_seq (if sent < int (length data) then go_ret ()
                 else go_when (tc_onWriteComplete conn \<noteq> None)
                        (AsyncExecute (tc_el conn) (TkWriteComplete c)))
           (go_ret (Inr sent)))
     else go_ret (Inr 0))"

definition tcp_Write :: "conn_ptr \<Rightarrow> byte list \<Rightarrow> (world, int \<times> goerror option) go" where
  "tcp_Write c data =
     go_bind (go_gets (\<lambda>w. conns w c)) (\<lambda>conn.
     if tc_state conn = Connected then
       if length data = 0 then go_ret (0, None)
       else
         go_bind (write_now c data) (\<lambda>attempt.
         case attempt of
           Inl e \<Rightarrow> go_ret (0, Some (Errno e))
         | Inr sent \<Rightarrow>
             go_seq (go_when (sent < int (length data))
               (go_bind (go_slice data sent (int (length data))) (\<lambda>rest.
                go_bind (on_outbound c (Write rest)) (\<lambda>_.
                go_bind (go_gets (conn_chan c)) (\<lambda>ch.
                go_when (\<not> isWriting ch) (enableWriting (tc_ch conn)))))))
               (go_ret (sent, None)))
     else go_ret (0, Some ErrConnNotOpened))"

text \<open>\<open>handleError\<close> only logs, with the text of the peer address.\<close>

definition handleError :: "conn_ptr \<Rightarrow> goerror \<Rightarrow> (world, unit) go" where
  "handleError c e =
     go_bind (go_gets (\<lambda>w. tc_peerAddr (conns w c))) (\<lambda>addr.
     go_bind (addr_String addr) (\<lambda>_. go_ret ()))"

definition AsyncWrite :: "conn_ptr \<Rightarrow> byte list \<Rightarrow> nat option \<Rightarrow> (world, goerror option) go" where
  "AsyncWrite c data cb =
     go_bind (go_gets (\<lambda>w. conns w c)) (\<lambda>conn.
     if tc_state conn = Connected
     then go_seq (AsyncExecute (tc_el conn) (TkAsyncWrite c data cb)) (go_ret None)
     else go_ret (Some ErrConnNotOpened))"

text \<open>The closure that \<open>AsyncWrite\<close> submits.\<close>

definition asyncWriteTask :: "(nat \<Rightarrow> conn_ptr \<Rightarrow> goerror option \<Rightarrow> (world, goerror option) go) \<Rightarrow>
    conn_ptr \<Rightarrow> byte list \<Rightarrow> nat option \<Rightarrow> (world, unit) go" where
  "asyncWriteTask acb c data cb =
     go_bind (tcp_Write c data) (\<lambda>(_, err).
     go_bind (case cb of None \<Rightarrow> go_ret err | Some k \<Rightarrow> acb k c err) (\<lambda>err.
     case err of None \<Rightarrow> go_ret () | Some e \<Rightarrow> handleError c e))"

definition shutdownWrite :: "conn_ptr \<Rightarrow> (world, unit) go" where
  "shutdownWrite c =
     go_bind (go_gets (conn_chan c)) (\<lambda>ch.
     go_when (\<not> isWriting ch)
       (go_bind (sys (SysShutdown (ch_fd ch))) (\<lambda>_. go_ret ())))"

definition ShutdownWrite :: "conn_ptr \<Rightarrow> (world, unit) go" where
  "ShutdownWrite c =
     go_bind (go_gets (\<lambda>w. conns w c)) (\<lambda>conn.
     go_when (tc_state conn = Connected)
       (go_seq (upd_conn c (\<lambda>t. t\<lparr>tc_state := Disconnecting\<rparr>))
          (AsyncExecute (tc_el conn) (TkShutdownWrite c))))"

definition SetTcpNoDelay :: "conn_ptr \<Rightarrow> bool \<Rightarrow> (world, goerror option) go" where
  "SetTcpNoDelay c enable =
     go_bind (go_gets (\<lambda>w. tc_so (conns w c))) (\<lambda>fd. setTcpNoDelay fd enable)"

section \<open>Life cycle\<close>

definition connectEstablished :: "(nat \<Rightarrow> conn_ptr \<Rightarrow> (world, unit) go) \<Rightarrow> conn_ptr \<Rightarrow> (world, unit) go" where
  "connectEstablished ucb c =
     go_bind (go_gets (\<lambda>w. conns w c)) (\<lambda>conn.
     go_seq (Assert (tc_state conn = Connecting) ''state should be connecting'') (
     go_seq (upd_conn c (\<lambda>t. t\<lparr>tc_state := Connected\<rparr>)) (
     go_seq (enableReading (tc_ch conn)) (
     go_bind (go_gets (\<lambda>w. tc_onConn (conns w c))) (\<lambda>onConn.
     case onConn of None \<Rightarrow> go_ret () | Some k \<Rightarrow> ucb k c)))))"

definition connectDestroyed :: "(nat \<Rightarrow> conn_ptr \<Rightarrow> (world, unit) go) \<Rightarrow> conn_ptr \<Rightarrow> (world, unit) go" where
  "connectDestroyed ucb c =
     go_bind (go_gets (\<lambda>w. conns w c)) (\<lambda>conn.
     go_seq (Assert (tc_state conn = Connected \<or> tc_state conn = Disconnecting)
               ''state should be connected or disconnecting'') (
     go_seq (upd_conn c (\<lambda>t. t\<lparr>tc_state := Disconnected\<rparr>)) (
     go_seq (disableAll (tc_ch conn)) (
     go_seq (go_bind (go_gets (\<lambda>w. tc_onConn (conns w c))) (\<lambda>onConn.
               case onConn of None \<Rightarrow> go_panic NilDereference | Some k \<Rightarrow> ucb k c))
       (loop_removeChannel (tc_el conn) (tc_ch conn))))))"

definition handleClose :: "(closeCallback \<Rightarrow> conn_ptr \<Rightarrow> (world, unit) go) \<Rightarrow> conn_ptr \<Rightarrow> (world, unit) go" where
  "handleClose ccb c =
     go_bind (go_gets (\<lambda>w. conns w c)) (\<lambda>conn.
     go_bind (addr_String (tc_peerAddr conn)) (\<lambda>_.
     go_seq (disableAll (tc_ch conn)) (
     go_bind (go_gets (\<lambda>w. tc_onClose (conns w c))) (\<lambda>onClose.
     case onClose of None \<Rightarrow> go_panic NilDereference | Some k \<Rightarrow> ccb k c))))"

definition conn_handleRead :: "(nat \<Rightarrow> conn_ptr \<Rightarrow> time \<Rightarrow> (world, unit) go) \<Rightarrow>
    (closeCallback \<Rightarrow> conn_ptr \<Rightarrow> (world, unit) go) \<Rightarrow> conn_ptr \<Rightarrow> time \<Rightarrow> (world, unit) go" where
  "conn_handleRead umsg ccb c ts =
     go_bind (go_gets (\<lambda>w. (ch_fd (conn_chan c w), WritableBytes (tc_inbound (conns w c))))) (\<lambda>(fd, writable).
     go_bind (sys (SysReadv fd [nat writable, 65536])) (\<lambda>r.
     go_bind (on_inbound c (ReadFd r)) (\<lambda>(n, err).
     case err of
       Some e \<Rightarrow> handleError c (Errno e)
     | None \<Rightarrow>
         if n > 0 then
           go_bind (go_gets (\<lambda>w. tc_onMsg (conns w c))) (\<lambda>onMsg.
           case onMsg of None \<Rightarrow> go_ret () | Some k \<Rightarrow> umsg k c ts)
         else handleClose ccb c)))"

definition handleWrite :: "conn_ptr \<Rightarrow> (world, unit) go" where
  "handleWrite c =
     go_bind (go_gets (\<lambda>w. (conns w c, conn_chan c w))) (\<lambda>(conn, ch).
     if isWriting ch then
       go_bind (on_outbound c Peek) (\<lambda>data.
       go_bind (sys (SysWrite (ch_fd ch) data)) (\<lambda>r.
       if ret_err r \<noteq> None \<and> ret_err r \<noteq> Some EWOULDBLOCK
       then handleError c (Errno (the (ret_err r)))
       else
         go_seq (on_outbound c (Advance (ret_n r))) (
         go_bind (go_gets (\<lambda>w. ReadableBytes (tc_outbound (conns w c)))) (\<lambda>readable.
         go_when (readable = 0)
           (go_seq (disableWriting (tc_ch conn)) (
            go_seq (go_when (tc_onWriteComplete conn \<noteq> None)
                      (AsyncExecute (tc_el conn) (TkWriteComplete c)))
              (go_when (tc_state conn = Disconnecting) (shutdownWrite c))))))))
     else go_ret ())"

text \<open>The closure \<open>c.onWriteComplete(c)\<close>, which reads the field when it runs.\<close>

definition writeCompleteTask :: "(nat \<Rightarrow> conn_ptr \<Rightarrow> (world, unit) go) \<Rightarrow> conn_ptr \<Rightarrow> (world, unit) go" where
  "writeCompleteTask ucb c =
     go_bind (go_gets (\<lambda>w. tc_onWriteComplete (conns w c))) (\<lambda>cb.
     case cb of None \<Rightarrow> go_panic NilDereference | Some k \<Rightarrow> ucb k c)"


section \<open>The stream of a connection\<close>

text \<open>
  What the kernel has taken of a descriptor's data, and what \<open>unix.Write\<close> promises: a count
  within the data, or -1 with an error.
\<close>

fun taken_step :: "int \<Rightarrow> syscall \<times> sysret \<Rightarrow> byte list \<Rightarrow> byte list" where
  "taken_step fd (SysWrite f data, r) bs =
     (if f = fd \<and> ret_err r = None then bs @ take (nat (ret_n r)) data else bs)"
| "taken_step fd _ bs = bs"

definition sent_bytes :: "int \<Rightarrow> trace \<Rightarrow> byte list" where
  "sent_bytes fd tr = fold (taken_step fd) tr []"

lemma sent_bytes_append [simp]: "sent_bytes fd (tr @ ext) = fold (taken_step fd) ext (sent_bytes fd tr)"
  by (simp add: sent_bytes_def)

definition write_spec :: "(trace \<Rightarrow> syscall \<Rightarrow> sysret) \<Rightarrow> bool" where
  "write_spec e \<longleftrightarrow> (\<forall>tr fd data. let r = e tr (SysWrite fd data) in
     if ret_err r = None then 0 \<le> ret_n r \<and> ret_n r \<le> int (length data) else ret_n r = -1)"

text \<open>The bytes a connection has sent and is going to send, in order.\<close>

definition out_stream :: "conn_ptr \<Rightarrow> world \<Rightarrow> byte list" where
  "out_stream c w = sent_bytes (ch_fd (conn_chan c w)) (trace w) @ contents (tc_outbound (conns w c))"

text \<open>
  A connection whose channel belongs to its loop and may be registered, and whose descriptor
  is not the loop's eventfd.
\<close>

definition conn_ok :: "conn_ptr \<Rightarrow> world \<Rightarrow> bool" where
  "conn_ok c w \<longleftrightarrow>
     chan_ready (tc_el (conns w c)) (tc_ch (conns w c)) w \<and>
     buffer_inv (tc_inbound (conns w c)) \<and> buffer_inv (tc_outbound (conns w c)) \<and>
     ch_fd (conn_chan c w) \<noteq> el_evtFd (loops w (tc_el (conns w c)))"

lemma wp_on_outbound [simp]:
  "wp E (on_outbound c m) Q w = wp E m (\<lambda>a b. Q a
     (w\<lparr>conns := (conns w)(c := (conns w c)\<lparr>tc_outbound := b\<rparr>)\<rparr>)) (tc_outbound (conns w c))"
  by (simp add: on_outbound_def)

lemma wp_on_inbound [simp]:
  "wp E (on_inbound c m) Q w = wp E m (\<lambda>a b. Q a
     (w\<lparr>conns := (conns w)(c := (conns w c)\<lparr>tc_inbound := b\<rparr>)\<rparr>)) (tc_inbound (conns w c))"
  by (simp add: on_inbound_def)

text \<open>Registering adds one call of \<open>epoll_ctl\<close>, which sends nothing.\<close>

lemma sent_bytes_ctl [simp]:
  "sent_bytes fd (trace (after_ctl el op c ev idx m w)) = sent_bytes fd (trace w)"
  by (simp add: ctl_call_def)

lemma after_ctl_conns [simp]: "conns (after_ctl el op c ev idx m w) = conns w"
  by (simp add: after_ctl_def)

lemma chan_ready_set_events:
  assumes "chan_ready el c w" and "poller_inv el w"
  obtains op idx where "set_events c f w = Inr ((), after_ctl el op c (f (ch_events (chans w c))) idx (Some c) w)"
proof -
  have "ch_el (chans w c) = el" "ch_index (chans w c) = channelNew \<and>
      po_channelMap (poller_of el w) (ch_fd (chans w c)) = None \<or>
      ch_index (chans w c) \<in> {channelAdd, channelDel} \<and>
      po_channelMap (poller_of el w) (ch_fd (chans w c)) = Some c"
    using assms chan_index_cases [OF assms(2), of c] by (auto simp: chan_ready_def chans_of_def)
  from set_events_result [OF this, of f] show ?thesis
    by (rule that)
qed

text \<open>The buffered part of a write.\<close>

lemma buffer_rest:
  assumes "conn_ok c w" and "poller_inv (tc_el (conns w c)) w" and "0 \<le> k" and "k \<le> int (length data)"
  shows "wp no_panic (go_bind (go_slice data k (int (length data))) (\<lambda>rest.
      go_bind (on_outbound c (Write rest)) (\<lambda>_.
      go_bind (go_gets (conn_chan c)) (\<lambda>ch.
      go_when (\<not> isWriting ch) (enableWriting (tc_ch (conns w c)))))))
    (\<lambda>_ w'. out_stream c w' = out_stream c w @
        take (accepted (tc_outbound (conns w c)) (length data - nat k)) (drop (nat k) data) \<and>
      buffer_inv (tc_outbound (conns w' c)) \<and> tc_state (conns w' c) = tc_state (conns w c)) w"
proof -
  let ?rest = "drop (nat k) data" and ?b = "tc_outbound (conns w c)" and ?el = "tc_el (conns w c)"
  obtain b where b: "Write ?rest ?b = Inr (int (accepted ?b (length ?rest)), b)" "buffer_inv b"
    "contents b = contents ?b @ take (accepted ?b (length ?rest)) ?rest"
    using Write_result [of ?b ?rest] assms(1) by (auto simp: conn_ok_def)
  let ?w = "w\<lparr>conns := (conns w)(c := (conns w c)\<lparr>tc_outbound := b\<rparr>)\<rparr>"
  have inv: "poller_inv ?el ?w" "chan_ready ?el (tc_ch (conns w c)) ?w"
    using assms(1,2) poller_inv_cong [OF assms(2), of ?w]
    by (auto simp: conn_ok_def chan_ready_def chans_of_def)
  obtain op idx where on: "enableWriting (tc_ch (conns w c)) ?w = Inr ((), after_ctl ?el op (tc_ch (conns w c))
      (ch_events (conn_chan c w) OR eventWrite) idx (Some (tc_ch (conns w c))) ?w)"
    using chan_ready_set_events [OF inv(2,1), of "\<lambda>e. e OR eventWrite"]
    by (auto simp: set_events_instances)
  have rest: "take (nat (int (length data) - k)) ?rest = ?rest" "length ?rest = length data - nat k"
    using assms(3,4) by auto
  show ?thesis
    using assms(3,4) b rest(2)
    by (simp add: rest(1) wp_eq [where m = "Write ?rest", OF b(1)]
        wp_eq [where m = "enableWriting (tc_ch (conns w c))", OF on] out_stream_def ctl_call_def)
qed


text \<open>The direct attempt: the stream grows by what the kernel took, and only that.\<close>

definition attempted :: "conn_ptr \<Rightarrow> byte list \<Rightarrow> errno + int \<Rightarrow> world \<Rightarrow> world \<Rightarrow> bool" where
  "attempted c data attempt w w' \<longleftrightarrow>
     (case attempt of
        Inl _ \<Rightarrow> out_stream c w' = out_stream c w
      | Inr n \<Rightarrow> 0 \<le> n \<and> n \<le> int (length data) \<and>
          out_stream c w' = out_stream c w @ take (nat n) data \<and>
          (n \<noteq> 0 \<longrightarrow> contents (tc_outbound (conns w c)) = [])) \<and>
     conns w' = conns w \<and> conn_ok c w' \<and> poller_inv (tc_el (conns w c)) w'"

lemma conn_ok_cong:
  assumes "conn_ok c w" and "conns w' = conns w" and "chans w' = chans w" and "n_chans w' = n_chans w"
    and "\<And>e. el_poller (loops w' e) = el_poller (loops w e)" and "\<And>e. el_evtFd (loops w' e) = el_evtFd (loops w e)"
  shows "conn_ok c w'"
  using assms by (simp add: conn_ok_def chan_ready_def chans_of_def)

lemma write_now_correct:
  assumes "conn_ok c w" and "poller_inv (tc_el (conns w c)) w" and "write_spec (env w)"
    and "ret_err (env w (trace w) (SysWrite (ch_fd (conn_chan c w)) data)) \<noteq> Some EWOULDBLOCK"
  shows "wp no_panic (write_now c data) (\<lambda>a. attempted c data a w) w"
proof -
  let ?el = "tc_el (conns w c)" and ?fd = "ch_fd (conn_chan c w)"
  let ?s = "SysWrite ?fd data" and ?r = "env w (trace w) (SysWrite ?fd data)"
  have spec: "if ret_err ?r = None then 0 \<le> ret_n ?r \<and> ret_n ?r \<le> int (length data) else ret_n ?r = -1"
    using assms(3) by (simp add: write_spec_def Let_def)
  have fd: "?fd \<noteq> el_evtFd (loops w ?el)"
    using assms(1) by (simp add: conn_ok_def)
  have keep: "attempted c data a w w'"
    if "case a of Inl _ \<Rightarrow> out_stream c w' = out_stream c w
        | Inr n \<Rightarrow> 0 \<le> n \<and> n \<le> int (length data) \<and> out_stream c w' = out_stream c w @ take (nat n) data \<and>
          (n \<noteq> 0 \<longrightarrow> contents (tc_outbound (conns w c)) = [])"
      "conns w' = conns w" "chans w' = chans w" "n_chans w' = n_chans w" "interest (trace w') = interest (trace w)"
      "\<And>e. el_poller (loops w' e) = el_poller (loops w e)" "\<And>e. el_evtFd (loops w' e) = el_evtFd (loops w e)"
    for a w'
    using that conn_ok_cong [OF assms(1), of w'] poller_inv_cong [OF assms(2), of w'] by (simp add: attempted_def)
  show ?thesis
  proof (cases "\<not> isWriting (conn_chan c w) \<and> ReadableBytes (tc_outbound (conns w c)) = 0")
    case True
    then have "contents (tc_outbound (conns w c)) = []"
      using length_contents [of "tc_outbound (conns w c)"] assms(1) by (simp add: conn_ok_def)
    then show ?thesis
      using True spec fd assms(4)
      by (auto simp: write_now_def Let_def out_stream_def interest_append split: if_splits intro!: keep)
  next
    case False
    then show ?thesis
      by (auto simp: write_now_def intro!: keep)
  qed
qed

lemma tcp_Write_correct:
  assumes "conn_ok c w" and "poller_inv (tc_el (conns w c)) w" and "write_spec (env w)"
    and "ret_err (env w (trace w) (SysWrite (ch_fd (conn_chan c w)) data)) \<noteq> Some EWOULDBLOCK"
    and "tc_state (conns w c) = Connected"
  shows "wp no_panic (tcp_Write c data) (\<lambda>(n, e) w'. 0 \<le> n \<and> n \<le> int (length data) \<and>
      out_stream c w' = out_stream c w @
        (if e = None then take (nat n + accepted (tc_outbound (conns w c)) (length data - nat n)) data else []) \<and>
      buffer_inv (tc_outbound (conns w' c)) \<and> tc_state (conns w' c) = Connected) w"
proof (cases "data = []")
  case True
  then show ?thesis
    using assms(1,5) by (simp add: tcp_Write_def conn_ok_def)
next
  case False
  have "wp no_panic (case a of
           Inl e \<Rightarrow> go_ret (0, Some (Errno e))
         | Inr sent \<Rightarrow>
             go_seq (go_when (sent < int (length data))
               (go_bind (go_slice data sent (int (length data))) (\<lambda>rest.
                go_bind (on_outbound c (Write rest)) (\<lambda>_.
                go_bind (go_gets (conn_chan c)) (\<lambda>ch.
                go_when (\<not> isWriting ch) (enableWriting (tc_ch (conns w c))))))))
               (go_ret (sent, None)))
      (\<lambda>(n, e) w'. 0 \<le> n \<and> n \<le> int (length data) \<and>
      out_stream c w' = out_stream c w @
        (if e = None then take (nat n + accepted (tc_outbound (conns w c)) (length data - nat n)) data else []) \<and>
      buffer_inv (tc_outbound (conns w' c)) \<and> tc_state (conns w' c) = Connected) w1"
    if a: "attempted c data a w w1" for a w1
  proof (cases a)
    case (Inl e)
    then show ?thesis
      using a assms(1,5) by (simp add: attempted_def conn_ok_def)
  next
    case (Inr n)
    have n: "0 \<le> n" "n \<le> int (length data)" "out_stream c w1 = out_stream c w @ take (nat n) data"
      and w1: "conns w1 = conns w" "conn_ok c w1" "poller_inv (tc_el (conns w1 c)) w1"
      using a by (simp_all add: attempted_def Inr)
    show ?thesis
    proof (cases "n < int (length data)")
      case True
      show ?thesis
        using True n assms(5) w1(1)
        unfolding Inr sum.case wp_seq wp_when if_P [OF True] w1(1) [symmetric]
        by (intro wp_mono [OF buffer_rest [OF w1(2,3) n(1,2)]]) (simp_all add: take_add)
    next
      case False
      then show ?thesis
        using n w1 assms(1,5) by (simp add: Inr conn_ok_def)
    qed
  qed
  then show ?thesis
    using False assms(5) wp_mono [OF write_now_correct [OF assms(1-4)]]
    by (simp add: tcp_Write_def)
qed


section \<open>Flushing\<close>

lemma cleared [simp]: "(e AND NOT eventWrite) AND eventWrite = 0"
  by (rule bit_word_eqI) (simp add: bit_simps)

text \<open>The end of \<open>handleWrite\<close> once everything is sent.\<close>

definition finished :: "conn_ptr \<Rightarrow> world \<Rightarrow> world \<Rightarrow> bool" where
  "finished c w w' \<longleftrightarrow>
     out_stream c w' = out_stream c w \<and> conns w' = conns w \<and> \<not> isWriting (conn_chan c w') \<and>
     (tc_onWriteComplete (conns w c) \<noteq> None \<longrightarrow>
        TkWriteComplete c \<in> set (el_pendingTasks (loops w' (tc_el (conns w c))))) \<and>
     (tc_state (conns w c) = Disconnecting \<longrightarrow>
        (\<exists>ext r. trace w' = trace w @ ext \<and> (SysShutdown (ch_fd (conn_chan c w)), r) \<in> set ext))"

lemma finish_write:
  assumes "conn_ok c w" and "poller_inv (tc_el (conns w c)) w"
  shows "wp no_panic (go_seq (disableWriting (tc_ch (conns w c))) (
      go_seq (go_when (tc_onWriteComplete (conns w c) \<noteq> None)
                (AsyncExecute (tc_el (conns w c)) (TkWriteComplete c)))
        (go_when (tc_state (conns w c) = Disconnecting) (shutdownWrite c))))
    (\<lambda>_. finished c w) w"
proof -
  let ?el = "tc_el (conns w c)" and ?ch = "tc_ch (conns w c)"
  obtain op idx where off: "disableWriting ?ch w = Inr ((), after_ctl ?el op ?ch
      (ch_events (conn_chan c w) AND NOT eventWrite) idx (Some ?ch) w)"
    using chan_ready_set_events [OF _ assms(2), of ?ch "\<lambda>e. e AND NOT eventWrite"] assms(1)
    by (auto simp: set_events_instances conn_ok_def)
  have ne: "ch_fd (conn_chan c w) \<noteq> el_evtFd (loops w ?el)"
    using assms(1) by (simp add: conn_ok_def)
  define v where "v = after_ctl ?el op ?ch (ch_events (conn_chan c w) AND NOT eventWrite) idx (Some ?ch) w"
  have v: "conns v = conns w" "trace v = trace w @ [(ctl_call ?el op ?ch (ch_events (conn_chan c w) AND NOT eventWrite) w,
      env w (trace w) (ctl_call ?el op ?ch (ch_events (conn_chan c w) AND NOT eventWrite) w))]"
    "\<not> isWriting (chans v ?ch)" "ch_fd (chans v ?ch) = ch_fd (conn_chan c w)"
    "el_evtFd (loops v ?el) = el_evtFd (loops w ?el)" "out_stream c v = out_stream c w"
    by (simp_all add: v_def isWriting_def out_stream_def ctl_call_def) (simp add: after_ctl_def)
  show ?thesis
    using ne v unfolding wp_seq wp_eq [where m = "disableWriting ?ch", OF off] v_def [symmetric]
    by (auto simp: finished_def shutdownWrite_def out_stream_def Let_def)
qed

text \<open>What \<open>handleWrite\<close> did when the kernel took \<open>n\<close> bytes.\<close>

definition flushed :: "conn_ptr \<Rightarrow> nat \<Rightarrow> world \<Rightarrow> world \<Rightarrow> bool" where
  "flushed c n w w' \<longleftrightarrow>
     out_stream c w' = out_stream c w \<and> tc_state (conns w' c) = tc_state (conns w c) \<and>
     contents (tc_outbound (conns w' c)) = drop n (contents (tc_outbound (conns w c))) \<and>
     buffer_inv (tc_outbound (conns w' c)) \<and>
     (if contents (tc_outbound (conns w' c)) \<noteq> [] then conn_chan c w' = conn_chan c w
      else \<not> isWriting (conn_chan c w') \<and>
        (tc_onWriteComplete (conns w c) \<noteq> None \<longrightarrow>
           TkWriteComplete c \<in> set (el_pendingTasks (loops w' (tc_el (conns w c))))) \<and>
        (tc_state (conns w c) = Disconnecting \<longrightarrow>
           (\<exists>ext r. trace w' = trace w @ ext \<and> (SysShutdown (ch_fd (conn_chan c w)), r) \<in> set ext)))"

lemma handleWrite_correct:
  assumes "conn_ok c w" and "poller_inv (tc_el (conns w c)) w" and "write_spec (env w)"
    and "isWriting (conn_chan c w)"
  defines "r \<equiv> env w (trace w) (SysWrite (ch_fd (conn_chan c w)) (contents (tc_outbound (conns w c))))"
  assumes "ret_err r = None"
  shows "wp no_panic (handleWrite c) (\<lambda>_. flushed c (nat (ret_n r)) w) w"
proof -
  let ?b = "tc_outbound (conns w c)" and ?fd = "ch_fd (conn_chan c w)" and ?el = "tc_el (conns w c)"
  let ?n = "ret_n r" and ?s = "SysWrite (ch_fd (conn_chan c w)) (contents (tc_outbound (conns w c)))"
  have b: "buffer_inv ?b"
    using assms(1) by (simp add: conn_ok_def)
  have "0 \<le> ?n" "?n \<le> int (length (contents ?b))"
    using assms(3,6) unfolding r_def write_spec_def Let_def by meson+
  then have n: "0 \<le> ?n" "?n \<le> ReadableBytes ?b"
    by (simp_all add: length_contents [OF b])
  define b1 where "b1 = ?b\<lparr>readIndex := readIndex ?b + ?n\<rparr>"
  define v where "v = w\<lparr>trace := trace w @ [(?s, r)], conns := (conns w)(c := (conns w c)\<lparr>tc_outbound := b1\<rparr>)\<rparr>"
  have b1: "buffer_inv b1" "contents b1 = drop (nat ?n) (contents ?b)"
    using contents_Advance [OF b n] by (simp_all add: b1_def)
  have v: "conn_ok c v" "poller_inv (tc_el (conns v c)) v"
    using assms(1,2) b1(1) poller_inv_cong [OF assms(2), of v]
    by (auto simp: v_def conn_ok_def chan_ready_def chans_of_def)
  have stream: "out_stream c v = out_stream c w"
    using assms(6) n by (simp add: v_def out_stream_def b1(2))
  have empty: "ReadableBytes (tc_outbound (conns v c)) = 0 \<longleftrightarrow> contents b1 = []"
    using length_contents [OF b1(1)] by (auto simp: v_def)
  have "flushed c (nat ?n) w w'" if "finished c v w'" "contents b1 = []" for w'
    using that stream b1 unfolding finished_def flushed_def by (auto simp: v_def)
  moreover have "flushed c (nat ?n) w v" if "contents b1 \<noteq> []"
    using that stream b1 by (simp add: flushed_def v_def)
  ultimately have "wp no_panic (go_when (ReadableBytes (tc_outbound (conns v c)) = 0)
      (go_seq (disableWriting (tc_ch (conns v c))) (
       go_seq (go_when (tc_onWriteComplete (conns v c) \<noteq> None)
                 (AsyncExecute (tc_el (conns v c)) (TkWriteComplete c)))
         (go_when (tc_state (conns v c) = Disconnecting) (shutdownWrite c)))))
     (\<lambda>_. flushed c (nat ?n) w) v"
    using wp_mono [OF finish_write [OF v]] empty by simp
  moreover have "conns v c = (conns w c)\<lparr>tc_outbound := b1\<rparr>"
    by (simp add: v_def)
  ultimately show ?thesis
    using assms(4,6) b
    by (simp add: handleWrite_def r_def [symmetric] Advance_def v_def [symmetric] b1_def [symmetric]
        cong: if_cong)
qed


section \<open>Establishing and destroying\<close>

text \<open>
  The state in which \<open>connectDestroyed\<close> calls the user: the connection is down, its channel is
  still known to the poller.
\<close>

definition closing :: "conn_ptr \<Rightarrow> loop_ptr \<Rightarrow> chan_ptr \<Rightarrow> world \<Rightarrow> bool" where
  "closing c el ch w \<longleftrightarrow>
     poller_inv el w \<and> legal_trace (trace w) \<and> epoll_ctl_spec (env w) \<and>
     tc_state (conns w c) = Disconnected \<and> ch \<in> chans_of el w \<and> ch_index (chans w ch) \<noteq> channelNew"

lemma index_after_known: "idx \<noteq> channelNew \<Longrightarrow> index_after idx ev \<noteq> channelNew"
  by (simp add: index_after_def index_consts)

lemma poller_inv_conns [simp]: "poller_inv el (w\<lparr>conns := cs\<rparr>) = poller_inv el w"
proof
  show "poller_inv el w" if "poller_inv el (w\<lparr>conns := cs\<rparr>)"
    by (rule poller_inv_cong [OF that]) simp_all
  show "poller_inv el (w\<lparr>conns := cs\<rparr>)" if "poller_inv el w"
    by (rule poller_inv_cong [OF that]) simp_all
qed

lemma chan_ready_conns [simp]: "chan_ready el ch (w\<lparr>conns := cs\<rparr>) = chan_ready el ch w"
  by (simp add: chan_ready_def chans_of_def)

lemma set_events_full:
  assumes "poller_inv el w" and "epoll_ctl_spec (env w)" and "legal_trace (trace w)" and "chan_ready el ch w"
  shows "wp no_panic (set_events ch f) (\<lambda>_ w'. poller_inv el w' \<and> legal_trace (trace w') \<and>
    env w' = env w \<and> conns w' = conns w \<and> n_chans w' = n_chans w \<and>
    (\<forall>d. ch_el (chans w' d) = ch_el (chans w d) \<and> ch_fd (chans w' d) = ch_fd (chans w d)) \<and>
    registered el ch (f (ch_events (chans w ch))) w w' \<and>
    po_epollFd (poller_of el w') = po_epollFd (poller_of el w)) w"
proof -
  obtain op idx where r: "set_events ch f w =
      Inr ((), after_ctl el op ch (f (ch_events (chans w ch))) idx (Some ch) w)"
    using assms(4,1) by (rule chan_ready_set_events)
  show ?thesis
    using set_events_inv [OF assms(1,2,4,3), of f] unfolding wp_eq [where m = "set_events ch f", OF r]
    by simp
qed

lemma connectDestroyed_correct:
  assumes "poller_inv (tc_el (conns w c)) w" and "epoll_ctl_spec (env w)" and "legal_trace (trace w)"
    and "tc_ch (conns w c) \<in> chans_of (tc_el (conns w c)) w" and "ch_index (conn_chan c w) \<noteq> channelNew"
    and "tc_state (conns w c) = Connected \<or> tc_state (conns w c) = Disconnecting"
    and "tc_onConn (conns w c) = Some k"
    and user: "\<And>v. closing c (tc_el (conns w c)) (tc_ch (conns w c)) v \<Longrightarrow>
      wp E (ucb k c) (\<lambda>_. closing c (tc_el (conns w c)) (tc_ch (conns w c))) v"
  shows "wp E (connectDestroyed ucb c) (\<lambda>_ w'. tc_state (conns w' c) = Disconnected \<and>
    poller_inv (tc_el (conns w c)) w' \<and> legal_trace (trace w') \<and>
    ch_index (chans w' (tc_ch (conns w c))) = channelNew) w"
proof -
  let ?el = "tc_el (conns w c)" and ?ch = "tc_ch (conns w c)"
  define w1 where "w1 = w\<lparr>conns := (conns w)(c := (conns w c)\<lparr>tc_state := Disconnected\<rparr>)\<rparr>"
  have "chan_ready ?el ?ch w1"
    using assms(4,5) by (simp add: w1_def chan_ready_def chans_of_def)
  then have off: "wp no_panic (disableAll ?ch) (\<lambda>_ w'. closing c ?el ?ch w' \<and>
      tc_onConn (conns w' c) = Some k) w1"
    using assms index_after_known
    by (intro wp_mono [OF set_events_full [of ?el w1 ?ch "\<lambda>_. eventNone", folded set_events_instances(2)]])
      (auto simp: w1_def closing_def chans_of_def registered_def)
  have remove: "wp E (removeChannel ?el ?ch) (\<lambda>_ w'. tc_state (conns w' c) = Disconnected \<and>
      poller_inv ?el w' \<and> legal_trace (trace w') \<and> ch_index (chans w' ?ch) = channelNew) v"
    if v: "closing c ?el ?ch v" for v
  proof -
    have v': "poller_inv ?el v" "epoll_ctl_spec (env v)" "?ch \<in> chans_of ?el v" "ch_index (chans v ?ch) \<noteq> channelNew"
      "legal_trace (trace v)"
      using v by (simp_all add: closing_def)
    have "wp no_panic (removeChannel ?el ?ch) (\<lambda>_ w'. conns w' = conns v) v"
      using chan_index_cases [OF v'(1,3)] v'(4) by (auto simp: removeChannel_def upd_poller_def index_consts)
    from wp_conj [OF this removeChannel_inv [OF v']] show ?thesis
      using v by (auto simp: closing_def elim!: wp_mono)
  qed
  have "wp E (go_seq (go_bind (go_gets (\<lambda>w. tc_onConn (conns w c))) (\<lambda>onConn.
      case onConn of None \<Rightarrow> go_panic NilDereference | Some k \<Rightarrow> ucb k c))
      (loop_removeChannel ?el ?ch))
      (\<lambda>_ w'. tc_state (conns w' c) = Disconnected \<and> poller_inv ?el w' \<and> legal_trace (trace w') \<and>
        ch_index (chans w' ?ch) = channelNew) v"
    if "closing c ?el ?ch v \<and> tc_onConn (conns v c) = Some k" for v
    using that wp_mono [OF user [of v]] remove by (simp add: loop_removeChannel_def)
  then show ?thesis
    using assms(6) wp_mono [OF off] by (simp add: connectDestroyed_def w1_def [symmetric])
qed


lemma connectEstablished_correct:
  assumes "conn_ok c w" and "poller_inv (tc_el (conns w c)) w" and "epoll_ctl_spec (env w)"
    and "legal_trace (trace w)" and "tc_state (conns w c) = Connecting"
    and "ch_index (conn_chan c w) = channelNew"
  shows "\<exists>v. connectEstablished ucb c w =
      (case tc_onConn (conns w c) of None \<Rightarrow> go_ret () | Some k \<Rightarrow> ucb k c) v \<and>
    conns v = (conns w)(c := (conns w c)\<lparr>tc_state := Connected\<rparr>) \<and> poller_inv (tc_el (conns w c)) v \<and>
    interest (trace v) (po_epollFd (poller_of (tc_el (conns w c)) w)) (ch_fd (conn_chan c w)) =
      Some (ch_events (conn_chan c w) OR eventRead, tc_ch (conns w c)) \<and> clients v = clients w"
proof -
  let ?el = "tc_el (conns w c)" and ?ch = "tc_ch (conns w c)"
  define w1 where "w1 = w\<lparr>conns := (conns w)(c := (conns w c)\<lparr>tc_state := Connected\<rparr>)\<rparr>"
  have "wp no_panic (enableReading ?ch) (\<lambda>_ v. conns v = conns w1 \<and> poller_inv ?el v \<and>
      registered ?el ?ch (ch_events (chans w ?ch) OR eventRead) w1 v) w1"
    using assms
    by (intro wp_mono [OF set_events_full [of ?el w1 ?ch "\<lambda>e. e OR eventRead", folded set_events_instances(1)]])
      (auto simp: w1_def conn_ok_def)
  then obtain v where v: "enableReading ?ch w1 = Inr ((), v)" "conns v = conns w1" "poller_inv ?el v"
    "registered ?el ?ch (ch_events (chans w ?ch) OR eventRead) w1 v"
    by (auto simp: wp_returns)
  have "wp any_panic (enableReading ?ch) (\<lambda>_. poller_frame ?el ?ch w1) w1"
    using assms(1) unfolding set_events_instances
    by (intro set_events_frame) (simp add: w1_def conn_ok_def chan_ready_def chans_of_def)
  then have "clients v = clients w"
    using v(1) by (simp add: wp_def poller_frame_def w1_def)
  moreover have "connectEstablished ucb c w = (case tc_onConn (conns w c) of None \<Rightarrow> go_ret () | Some k \<Rightarrow> ucb k c) v"
    using assms(5) v(1,2)
    by (simp add: connectEstablished_def go_defs upd_conn_def w1_def split: option.splits)
  ultimately show ?thesis
    using v assms(6) by (intro exI [of _ v]) (simp add: w1_def registered_def index_after_def index_consts)
qed

section \<open>Reading\<close>

lemma conn_handleRead_unfold:
  fixes c :: conn_ptr and w :: world
  defines "s \<equiv> SysReadv (ch_fd (conn_chan c w)) [nat (WritableBytes (tc_inbound (conns w c))), 65536]"
  assumes "ReadFd (env w (trace w) s) (tc_inbound (conns w c)) = Inr ((n, e), b)"
  shows "conn_handleRead umsg ccb c ts w =
    (case e of Some x \<Rightarrow> handleError c (Errno x)
     | None \<Rightarrow> if n > 0 then (case tc_onMsg (conns w c) of None \<Rightarrow> go_ret () | Some k \<Rightarrow> umsg k c ts)
              else handleClose ccb c)
    (w\<lparr>trace := trace w @ [(s, env w (trace w) s)], conns := (conns w)(c := (conns w c)\<lparr>tc_inbound := b\<rparr>)\<rparr>)"
  using assms
  by (simp add: conn_handleRead_def go_defs sys_def on_inbound_def Let_def split: option.splits)

lemma handleClose_correct:
  assumes "conn_ok c w" and "poller_inv (tc_el (conns w c)) w" and "epoll_ctl_spec (env w)"
    and "legal_trace (trace w)" and "tc_peerAddr (conns w c) \<noteq> None"
  shows "\<exists>x. handleClose ccb c w =
      (case tc_onClose (conns w c) of None \<Rightarrow> go_panic NilDereference | Some k \<Rightarrow> ccb k c) x \<and>
    conns x = conns w \<and> poller_inv (tc_el (conns w c)) x \<and> legal_trace (trace x) \<and>
    registered (tc_el (conns w c)) (tc_ch (conns w c)) eventNone w x"
proof -
  let ?el = "tc_el (conns w c)" and ?ch = "tc_ch (conns w c)"
  have "chan_ready ?el ?ch w"
    using assms(1) by (simp add: conn_ok_def)
  from set_events_full [OF assms(2,3,4) this, of "\<lambda>_. eventNone", folded set_events_instances(2)]
  obtain x where "disableAll ?ch w = Inr ((), x)" "conns x = conns w" "poller_inv ?el x"
    "legal_trace (trace x)" "registered ?el ?ch eventNone w x"
    by (auto simp: wp_returns)
  then show ?thesis
    using assms(5) by (intro exI [of _ x]) (auto simp: handleClose_def go_defs)
qed

section \<open>Properties\<close>

text \<open>
  C2: writing keeps the order of the stream and loses nothing but what the outbound buffer
  refuses. \<open>Write\<close> on an open connection does not panic if the kernel does not answer
  \<open>EWOULDBLOCK\<close>; the bytes the kernel has taken followed by the waiting bytes grow by a
  prefix of the data: the part taken at once (the returned count) and what the buffer accepts
  of the rest. An error of the kernel leaves the stream as it was.
\<close>

theorem tcp_Write_stream:
  assumes "conn_ok c w" and "poller_inv (tc_el (conns w c)) w" and "write_spec (env w)"
    and "ret_err (env w (trace w) (SysWrite (ch_fd (conn_chan c w)) data)) \<noteq> Some EWOULDBLOCK"
    and "tc_state (conns w c) = Connected"
  shows "wp no_panic (tcp_Write c data) (\<lambda>(n, e) w'. 0 \<le> n \<and> n \<le> int (length data) \<and>
      out_stream c w' = out_stream c w @
        (if e = None then take (nat n + accepted (tc_outbound (conns w c)) (length data - nat n)) data else []) \<and>
      buffer_inv (tc_outbound (conns w' c)) \<and> tc_state (conns w' c) = Connected) w"
  using assms by (rule tcp_Write_correct)

text \<open>
  A connection that is not open refuses. \<open>Write\<close> and \<open>AsyncWrite\<close> return
  \<open>ErrConnNotOpened\<close>, \<open>ShutdownWrite\<close> does nothing, and none of them changes anything.
\<close>

theorem closed_conn_refuses:
  assumes "tc_state (conns w c) \<noteq> Connected"
  shows "tcp_Write c data w = Inr ((0, Some ErrConnNotOpened), w) \<and>
    AsyncWrite c data cb w = Inr (Some ErrConnNotOpened, w) \<and>
    ShutdownWrite c w = Inr ((), w)"
  using assms by (simp_all add: tcp_Write_def AsyncWrite_def ShutdownWrite_def go_defs)

text \<open>
  C39: a socket whose send buffer is full makes \<open>Write\<close> panic. \<open>unix.Write\<close> returns -1 with
  \<open>EWOULDBLOCK\<close>, the error is passed over, and the count is used as a slice index.
\<close>

theorem tcp_Write_would_block_panics:
  assumes "tc_state (conns w c) = Connected" and "data \<noteq> []"
    and "\<not> isWriting (conn_chan c w)" and "ReadableBytes (tc_outbound (conns w c)) = 0"
    and "write_spec (env w)"
    and "ret_err (env w (trace w) (SysWrite (ch_fd (conn_chan c w)) data)) = Some EWOULDBLOCK"
  shows "tcp_Write c data w = Inl SliceBounds"
proof -
  let ?r = "env w (trace w) (SysWrite (ch_fd (conn_chan c w)) data)"
  have "if ret_err ?r = None then 0 \<le> ret_n ?r \<and> ret_n ?r \<le> int (length data) else ret_n ?r = -1"
    using assms(5) by (simp add: write_spec_def Let_def)
  then have "ret_n ?r = -1"
    using assms(6) by simp
  then show ?thesis
    using assms(1-4,6)
    by (simp add: tcp_Write_def write_now_def go_defs sys_def Let_def)
qed

text \<open>
  C21: \<open>handleWrite\<close> on a connection that has a peer address and waits for writability, when the kernel does not answer
  \<open>EWOULDBLOCK\<close> (the next statement is about that answer). If the kernel takes bytes, they move
  from the outbound buffer to the kernel and the stream is unchanged; when the last byte is gone,
  the connection stops waiting, announces completion, and carries out a shutdown that was
  waiting. If the kernel answers any other error, nothing changes but for the call made.
\<close>

theorem handleWrite_flushes:
  fixes c :: conn_ptr and w :: world
  defines "s \<equiv> SysWrite (ch_fd (conn_chan c w)) (contents (tc_outbound (conns w c)))"
  assumes "conn_ok c w" and "poller_inv (tc_el (conns w c)) w" and "write_spec (env w)"
    and "isWriting (conn_chan c w)" and "tc_peerAddr (conns w c) \<noteq> None"
    and "ret_err (env w (trace w) s) \<noteq> Some EWOULDBLOCK"
  shows "wp no_panic (handleWrite c) (\<lambda>_ w'.
    if ret_err (env w (trace w) s) = None then flushed c (nat (ret_n (env w (trace w) s))) w w'
    else w' = w\<lparr>trace := trace w @ [(s, env w (trace w) s)]\<rparr>) w"
proof (cases "ret_err (env w (trace w) s)")
  case None
  then show ?thesis
    using handleWrite_correct [OF assms(2-5)] by (simp add: s_def)
next
  case (Some e)
  then show ?thesis
    using assms(2,5-7) by (auto simp: handleWrite_def handleError_def conn_ok_def s_def)
qed

text \<open>
  C19: when the kernel answers \<open>EWOULDBLOCK\<close>, \<open>handleWrite\<close> moves the read index back by one:
  the last byte that was sent before counts as unsent again, and if nothing was sent before,
  the buffer is left in a state in which the next \<open>Peek\<close> panics.
\<close>

theorem handleWrite_would_block_corrupts:
  assumes "conn_ok c w" and "write_spec (env w)" and "isWriting (conn_chan c w)"
    and "contents (tc_outbound (conns w c)) \<noteq> []"
    and "ret_err (env w (trace w) (SysWrite (ch_fd (conn_chan c w)) (contents (tc_outbound (conns w c))))) =
      Some EWOULDBLOCK"
  shows "wp no_panic (handleWrite c) (\<lambda>_ w'.
    readIndex (tc_outbound (conns w' c)) = readIndex (tc_outbound (conns w c)) - 1 \<and>
    (readIndex (tc_outbound (conns w c)) = 0 \<longrightarrow> Peek (tc_outbound (conns w' c)) = Inl SliceBounds)) w"
proof -
  let ?b = "tc_outbound (conns w c)"
  let ?r = "env w (trace w) (SysWrite (ch_fd (conn_chan c w)) (contents ?b))"
  have b: "buffer_inv ?b"
    using assms(1) by (simp add: conn_ok_def)
  then have "0 < ReadableBytes ?b"
    using length_contents [OF b] assms(4) by (metis length_greater_0_conv of_nat_0_less_iff)
  moreover have "ret_n ?r = -1"
    using assms(2,5) unfolding write_spec_def Let_def by (metis option.distinct(1))
  ultimately show ?thesis
    using b assms(3,5)
    by (simp add: handleWrite_def Advance_def ReadableBytes_def)
      (simp add: Peek_def go_defs)
qed

text \<open>Channels with the same four callbacks.\<close>

definition same_callbacks :: "channel \<Rightarrow> channel \<Rightarrow> bool" where
  "same_callbacks ch ch' \<longleftrightarrow>
     ch_readCallback ch' = ch_readCallback ch \<and> ch_writeCallback ch' = ch_writeCallback ch \<and>
     ch_errorCallback ch' = ch_errorCallback ch \<and> ch_closeCallback ch' = ch_closeCallback ch"

text \<open>
  C40: of the callbacks of its channel, \<open>NewTcpConn\<close> installs the read callback and no other.
  As long as the channel has the callbacks \<open>NewTcpConn\<close> left, an event without a readable
  bit (such as one that says that the socket is writable again), has no effect when it is
  dispatched: no callback is called, no system call is made, and no field of a connection or of
  a loop changes, whatever is waiting to be sent and whatever the channel is registered for.
\<close>

theorem NewTcpConn_ignores_writable:
  "peerAddr \<noteq> None \<Longrightarrow> wp no_panic (NewTcpConn el name fd localAddr peerAddr) (\<lambda>c w'.
     tc_state (conns w' c) = Connecting \<and> ch_readCallback (conn_chan c w') = Some (RcConn c) \<and>
     ch_writeCallback (conn_chan c w') = None \<and> ch_errorCallback (conn_chan c w') = None \<and>
     ch_closeCallback (conn_chan c w') = None \<and>
     (\<forall>v. same_callbacks (conn_chan c w') (chans v (tc_ch (conns w' c))) \<and>
        ch_revents (chans v (tc_ch (conns w' c))) AND (POLLIN OR POLLPRI OR POLLRDHUP) = 0 \<longrightarrow>
        wp no_panic (handleEvent rcb ecb (tc_ch (conns w' c)) ts) (\<lambda>_ v'. trace v' = trace v \<and>
          conns v' = conns v \<and> loops v' = loops v) v)) w"
  by (auto simp: NewTcpConn_def NewChannel_def setReadCallback_def handleEvent_def on_revents_def
      call_event_def same_callbacks_def)

text \<open>
  \<open>connectEstablished\<close> opens a connection: the kernel watches its descriptor for reading
  when \<open>onConn\<close> is called, and the call is the last thing it does.
\<close>

theorem connectEstablished_opens:
  assumes "conn_ok c w" and "poller_inv (tc_el (conns w c)) w" and "epoll_ctl_spec (env w)"
    and "legal_trace (trace w)" and "tc_state (conns w c) = Connecting"
    and "ch_index (conn_chan c w) = channelNew"
  shows "\<exists>v. connectEstablished ucb c w =
      (case tc_onConn (conns w c) of None \<Rightarrow> go_ret () | Some k \<Rightarrow> ucb k c) v \<and>
    conns v = (conns w)(c := (conns w c)\<lparr>tc_state := Connected\<rparr>) \<and> poller_inv (tc_el (conns w c)) v \<and>
    interest (trace v) (po_epollFd (poller_of (tc_el (conns w c)) w)) (ch_fd (conn_chan c w)) =
      Some (ch_events (conn_chan c w) OR eventRead, tc_ch (conns w c))"
  using connectEstablished_correct [OF assms, of ucb] by blast

text \<open>
  \<open>connectDestroyed\<close> closes a connection: it ends in state \<open>Disconnected\<close> with its channel
  unknown to the poller, whether or not \<open>handleClose\<close> had disabled the channel before, if the
  function installed as \<open>onConn\<close> leaves the poller consistent and the connection closed.
\<close>

theorem connectDestroyed_closes:
  assumes "poller_inv (tc_el (conns w c)) w" and "epoll_ctl_spec (env w)" and "legal_trace (trace w)"
    and "tc_ch (conns w c) \<in> chans_of (tc_el (conns w c)) w" and "ch_index (conn_chan c w) \<noteq> channelNew"
    and "tc_state (conns w c) = Connected \<or> tc_state (conns w c) = Disconnecting"
    and "tc_onConn (conns w c) = Some k"
    and user: "\<And>v. closing c (tc_el (conns w c)) (tc_ch (conns w c)) v \<Longrightarrow>
      wp E (ucb k c) (\<lambda>_. closing c (tc_el (conns w c)) (tc_ch (conns w c))) v"
  shows "wp E (connectDestroyed ucb c) (\<lambda>_ w'. tc_state (conns w' c) = Disconnected \<and>
    poller_inv (tc_el (conns w c)) w' \<and> legal_trace (trace w') \<and>
    ch_index (chans w' (tc_ch (conns w c))) = channelNew) w"
  using assms by (rule connectDestroyed_correct)

text \<open>
  A connection without an \<open>onConn\<close> function is established without complaint, but
  destroying it panics: \<open>connectDestroyed\<close> calls the function without the nil check.
\<close>

theorem nil_onConn_panics:
  assumes "conn_ok c w" and "poller_inv (tc_el (conns w c)) w" and "epoll_ctl_spec (env w)"
    and "legal_trace (trace w)" and "tc_onConn (conns w c) = None"
    and "tc_state (conns w c) = Connected \<or> tc_state (conns w c) = Disconnecting"
  shows "connectDestroyed ucb c w = Inl NilDereference"
proof -
  let ?el = "tc_el (conns w c)" and ?ch = "tc_ch (conns w c)"
  define w1 where "w1 = w\<lparr>conns := (conns w)(c := (conns w c)\<lparr>tc_state := Disconnected\<rparr>)\<rparr>"
  have "wp no_panic (disableAll ?ch) (\<lambda>_ v. conns v = conns w1) w1"
    using assms
    by (intro wp_mono [OF set_events_full [of ?el w1 ?ch "\<lambda>_. eventNone", folded set_events_instances(2)]])
      (auto simp: w1_def conn_ok_def)
  then obtain v where "disableAll ?ch w1 = Inr ((), v)" "conns v = conns w1"
    by (auto simp: wp_returns)
  then show ?thesis
    using assms(5,6)
    by (auto simp: connectDestroyed_def go_defs upd_conn_def w1_def)
qed

text \<open>
  C20: reading, for a connection that has a peer address. The data that arrives is appended to the inbound buffer,
  as far as \<open>ReadFd\<close> keeps it (\<open>received\<close>), and then \<open>onMsg\<close> is called, if there is one; nothing
  else changes before that call. A read of no bytes takes the descriptor's events back, which
  leaves poller and kernel in agreement, and then calls \<open>onClose\<close>, or panics if there is none. An
  error leaves the readable bytes and everything else as they were.
\<close>

theorem conn_handleRead_delivers:
  fixes c :: conn_ptr and w :: world
  defines "s \<equiv> SysReadv (ch_fd (conn_chan c w)) [nat (WritableBytes (tc_inbound (conns w c))), 65536]"
  defines "r \<equiv> env w (trace w) s"
  assumes "conn_ok c w" and "poller_inv (tc_el (conns w c)) w" and "epoll_ctl_spec (env w)"
    and "legal_trace (trace w)" and "tc_peerAddr (conns w c) \<noteq> None"
    and "readv_ok (tc_inbound (conns w c)) r \<or> ret_err r \<noteq> None"
  shows "\<exists>b v. v = w\<lparr>trace := trace w @ [(s, r)], conns := (conns w)(c := (conns w c)\<lparr>tc_inbound := b\<rparr>)\<rparr> \<and>
    buffer_inv b \<and>
    contents b = contents (tc_inbound (conns w c)) @ (if ret_err r \<noteq> None then []
      else take (received (tc_inbound (conns w c)) (length (ret_data r))) (ret_data r)) \<and>
    (if ret_err r \<noteq> None then conn_handleRead umsg ccb c ts w = Inr ((), v)
     else if ret_data r \<noteq> [] then conn_handleRead umsg ccb c ts w =
       (case tc_onMsg (conns w c) of None \<Rightarrow> go_ret () | Some k \<Rightarrow> umsg k c ts) v
     else \<exists>x. conn_handleRead umsg ccb c ts w =
         (case tc_onClose (conns w c) of None \<Rightarrow> go_panic NilDereference | Some k \<Rightarrow> ccb k c) x \<and>
       conns x = conns v \<and> poller_inv (tc_el (conns w c)) x \<and> legal_trace (trace x) \<and>
       registered (tc_el (conns w c)) (tc_ch (conns w c)) eventNone v x)"
proof (cases "ret_err r")
  case None
  let ?b = "tc_inbound (conns w c)"
  have inv: "buffer_inv ?b"
    using assms(3) by (simp add: conn_ok_def)
  obtain b where b: "ReadFd r ?b = Inr ((ret_n r, None), b)" "buffer_inv b"
    "contents b = contents ?b @ take (received ?b (length (ret_data r))) (ret_data r)"
    using ReadFd_wp [OF inv, of r no_panic] assms(8) None by (auto simp: wp_returns)
  have "0 < ret_n r \<longleftrightarrow> ret_data r \<noteq> []"
    using assms(8) None by (auto simp: readv_ok_def)
  moreover define v where
    "v = w\<lparr>trace := trace w @ [(s, r)], conns := (conns w)(c := (conns w c)\<lparr>tc_inbound := b\<rparr>)\<rparr>"
  moreover have "poller_inv (tc_el (conns w c)) v" "legal_trace (trace v)" "conn_ok c v" "epoll_ctl_spec (env v)"
    using assms(3-6) b(2) poller_inv_cong [OF assms(4), of v]
    by (auto simp: v_def s_def conn_ok_def chan_ready_def chans_of_def legal_call_def)
  then obtain x where "handleClose ccb c v =
      (case tc_onClose (conns v c) of None \<Rightarrow> go_panic NilDereference | Some k \<Rightarrow> ccb k c) x"
    "conns x = conns v" "poller_inv (tc_el (conns v c)) x" "legal_trace (trace x)"
    "registered (tc_el (conns v c)) (tc_ch (conns v c)) eventNone v x"
    using handleClose_correct [of c v ccb] assms(7) by (auto simp: v_def)
  ultimately show ?thesis
    using None b conn_handleRead_unfold [OF b(1) [unfolded r_def s_def], folded s_def, folded r_def, of umsg ccb ts]
    by (intro exI [of _ b] exI [of _ v] conjI) (auto split: option.splits)
next
  case (Some x)
  let ?b = "tc_inbound (conns w c)"
  have inv: "buffer_inv ?b"
    using assms(3) by (simp add: conn_ok_def)
  obtain b where b: "ReadFd r ?b = Inr ((ret_n r, Some x), b)" "buffer_inv b" "contents b = contents ?b"
    using ReadFd_error_wp [OF inv Some, of no_panic] by (auto simp: wp_returns)
  show ?thesis
    using Some b assms(7) conn_handleRead_unfold [OF b(1) [unfolded r_def s_def], folded s_def, folded r_def, of umsg ccb ts]
    by (intro exI [of _ b] exI conjI) (auto simp: handleError_def go_defs)
qed


section \<open>Witnesses\<close>

text \<open>One loop, one channel for descriptor 7 and one connection; \<open>f\<close> answers the writes.\<close>

definition write_kernel :: "(byte list \<Rightarrow> sysret) \<Rightarrow> trace \<Rightarrow> syscall \<Rightarrow> sysret" where
  "write_kernel f tr s = (case s of SysWrite _ data \<Rightarrow> f data | _ \<Rightarrow> quiet_kernel tr s)"

definition takes_all :: "byte list \<Rightarrow> sysret" where
  "takes_all data = \<lparr>ret_n = int (length data), ret_err = None, ret_data = [], ret_events = [], ret_addr = None\<rparr>"

definition would_block :: "byte list \<Rightarrow> sysret" where
  "would_block data = \<lparr>ret_n = -1, ret_err = Some EWOULDBLOCK, ret_data = [], ret_events = [], ret_addr = None\<rparr>"

definition one_conn :: "(byte list \<Rightarrow> sysret) \<Rightarrow> channel \<Rightarrow> tcpConn \<Rightarrow> world" where
  "one_conn f ch conn = (blank_world (write_kernel f))\<lparr>n_loops := 1, n_chans := 1, n_conns := 1,
     loops := (\<lambda>_. blank_loop\<lparr>el_evtFd := 4, el_poller := \<lparr>po_epollFd = 3, po_eventList = [],
       po_channelMap = (if ch_index ch = channelNew then (\<lambda>_. None) else [7 \<mapsto> 0])\<rparr>\<rparr>),
     chans := (\<lambda>_. ch\<lparr>ch_fd := 7, ch_el := 0\<rparr>), conns := (\<lambda>_. conn\<lparr>tc_el := 0, tc_ch := 0\<rparr>)\<rparr>"

abbreviation one_byte :: buffer where
  "one_byte \<equiv> \<lparr>buf = [9], readIndex = 0, writeIndex = 1\<rparr>"

lemma kernels_ok:
  "write_spec (write_kernel takes_all)" "write_spec (write_kernel would_block)"
  "epoll_ctl_spec (write_kernel f)"
  by (simp_all add: write_spec_def write_kernel_def takes_all_def would_block_def
      epoll_ctl_spec_def quiet_kernel_def)

lemma one_conn_ok:
  assumes "ch_index ch \<in> {channelNew, channelDel}"
  shows "poller_inv 0 (one_conn f ch conn)"
    and "ch_index ch = channelNew \<Longrightarrow> buffer_inv (tc_inbound conn) \<Longrightarrow> buffer_inv (tc_outbound conn) \<Longrightarrow>
      conn_ok 0 (one_conn f ch conn)"
  using assms
  by (auto simp: one_conn_def blank_defs poller_inv_def chans_of_def believed_def conn_ok_def chan_ready_def
      index_consts split: if_splits)

lemma one_conn_sel [simp]:
  "tc_el (conns (one_conn f ch conn) c) = 0" "tc_ch (conns (one_conn f ch conn) c) = 0"
  "tc_state (conns (one_conn f ch conn) c) = tc_state conn"
  "tc_outbound (conns (one_conn f ch conn) c) = tc_outbound conn"
  "tc_inbound (conns (one_conn f ch conn) c) = tc_inbound conn"
  "tc_onConn (conns (one_conn f ch conn) c) = tc_onConn conn"
  "tc_onMsg (conns (one_conn f ch conn) c) = tc_onMsg conn"
  "tc_peerAddr (conns (one_conn f ch conn) c) = tc_peerAddr conn"
  "env (one_conn f ch conn) = write_kernel f" "trace (one_conn f ch conn) = []"
  "ch_fd (chans (one_conn f ch conn) x) = 7" "ch_index (chans (one_conn f ch conn) x) = ch_index ch"
  "isWriting (chans (one_conn f ch conn) x) = isWriting ch"
  "0 \<in> chans_of 0 (one_conn f ch conn)"
  by (simp_all add: one_conn_def blank_world_def isWriting_def chans_of_def)

definition idle :: channel where
  "idle = blank_channel"

definition waiting :: channel where
  "waiting = blank_channel\<lparr>ch_events := eventWrite\<rparr>"

definition unwatched :: channel where
  "unwatched = blank_channel\<lparr>ch_index := channelDel\<rparr>"

lemma chan_examples [simp]:
  "ch_index idle = channelNew" "ch_index waiting = channelNew" "ch_index unwatched = channelDel"
  "\<not> isWriting idle" "isWriting waiting"
  by (simp_all add: idle_def waiting_def unwatched_def isWriting_def eventWrite_def blank_channel_def index_consts)

definition open_conn :: tcpConn where
  "open_conn = blank_conn\<lparr>tc_state := Connected\<rparr>"

lemma conn_examples [simp]:
  "tc_state open_conn = Connected" "buffer_inv (tc_inbound open_conn)" "buffer_inv (tc_outbound open_conn)"
  "contents (tc_outbound open_conn) = []" "ReadableBytes (tc_outbound open_conn) = 0"
  "tc_onConn open_conn = None" "tc_state blank_conn = Connecting" "buffer_inv (tc_inbound blank_conn)"
  "buffer_inv (tc_outbound blank_conn)" "buffer_inv one_byte" "contents one_byte = [9]"
  by (simp_all add: open_conn_def blank_conn_def ReadableBytes_def NewBuffer_def buffer_inv_def contents_def)

theorem tcp_Write_stream_witness:
  "wp no_panic (tcp_Write 0 [1, 2]) (\<lambda>(n, e) w'. 0 \<le> n \<and> n \<le> 2 \<and> tc_state (conns w' 0) = Connected)
     (one_conn takes_all idle open_conn)"
proof (rule wp_mono [OF tcp_Write_stream])
  show "ret_err (env (one_conn takes_all idle open_conn) (trace (one_conn takes_all idle open_conn))
      (SysWrite (ch_fd (conn_chan 0 (one_conn takes_all idle open_conn))) [1, 2])) \<noteq> Some EWOULDBLOCK"
    by (simp add: write_kernel_def takes_all_def)
qed (auto simp: one_conn_ok kernels_ok)

theorem closed_conn_refuses_witness:
  "tcp_Write 0 [1] (one_conn takes_all idle blank_conn) =
     Inr ((0, Some ErrConnNotOpened), one_conn takes_all idle blank_conn)"
  using closed_conn_refuses [of "one_conn takes_all idle blank_conn" 0] by simp

theorem tcp_Write_would_block_panics_witness:
  "tcp_Write 0 [1] (one_conn would_block idle open_conn) = Inl SliceBounds"
  by (rule tcp_Write_would_block_panics)
    (simp_all add: kernels_ok, simp add: write_kernel_def would_block_def)

theorem handleWrite_flushes_witness:
  "wp no_panic (handleWrite 0) (\<lambda>_ w'. contents (tc_outbound (conns w' 0)) = [] \<and> \<not> isWriting (conn_chan 0 w'))
     (one_conn takes_all waiting (open_conn\<lparr>tc_outbound := one_byte, tc_peerAddr := Some (TCPAddr None)\<rparr>))"
  by (rule wp_mono [OF handleWrite_flushes])
    (auto simp: one_conn_ok kernels_ok write_kernel_def takes_all_def flushed_def)

theorem handleWrite_would_block_corrupts_witness:
  "wp no_panic (handleWrite 0) (\<lambda>_ w'. Peek (tc_outbound (conns w' 0)) = Inl SliceBounds)
     (one_conn would_block waiting (open_conn\<lparr>tc_outbound := one_byte\<rparr>))"
  by (rule wp_mono [OF handleWrite_would_block_corrupts])
    (auto simp: one_conn_ok kernels_ok write_kernel_def would_block_def)

theorem NewTcpConn_ignores_writable_witness:
  "\<exists>c w' v'. NewTcpConn 0 ''c'' 7 None (Some (TCPAddr None)) (blank_world quiet_kernel) = Inr (c, w') \<and>
    handleEvent (\<lambda>_ _. go_panic NilDereference) (\<lambda>_. go_panic NilDereference) (tc_ch (conns w' c)) 5
      (w'\<lparr>chans := (chans w')(tc_ch (conns w' c) := (conn_chan c w')\<lparr>ch_events := eventWrite,
         ch_index := channelAdd, ch_revents := POLLOUT\<rparr>)\<rparr>) = Inr ((), v') \<and>
    trace v' = trace w' \<and> conns v' = conns w'"
proof -
  obtain c w' where new: "NewTcpConn 0 ''c'' 7 None (Some (TCPAddr None)) (blank_world quiet_kernel) = Inr (c, w')"
    and quiet: "\<And>v. same_callbacks (conn_chan c w') (chans v (tc_ch (conns w' c))) \<Longrightarrow>
      ch_revents (chans v (tc_ch (conns w' c))) AND (POLLIN OR POLLPRI OR POLLRDHUP) = 0 \<Longrightarrow>
      \<exists>v'. handleEvent (\<lambda>_ _. go_panic NilDereference) (\<lambda>_. go_panic NilDereference) (tc_ch (conns w' c)) 5 v =
        Inr ((), v') \<and> trace v' = trace v \<and> conns v' = conns v"
    using NewTcpConn_ignores_writable [of "Some (TCPAddr None)" 0 "''c''" 7 None
        "\<lambda>_ _. go_panic NilDereference" "\<lambda>_. go_panic NilDereference" 5 "blank_world quiet_kernel"]
    by (fastforce simp: wp_returns)
  show ?thesis
    using new quiet [of "w'\<lparr>chans := (chans w')(tc_ch (conns w' c) := (conn_chan c w')\<lparr>ch_events := eventWrite,
         ch_index := channelAdd, ch_revents := POLLOUT\<rparr>)\<rparr>"]
    by (simp add: same_callbacks_def)
qed

theorem connectEstablished_opens_witness:
  "\<exists>v. connectEstablished (\<lambda>_ _. go_ret ()) 0 (one_conn takes_all idle blank_conn) = Inr ((), v) \<and>
    tc_state (conns v 0) = Connected"
proof -
  let ?w = "one_conn takes_all idle blank_conn"
  obtain v where "connectEstablished (\<lambda>_ _. go_ret ()) 0 ?w =
      (case tc_onConn (conns ?w 0) of None \<Rightarrow> go_ret () | Some k \<Rightarrow> go_ret ()) v"
    "conns v = (conns ?w)(0 := (conns ?w 0)\<lparr>tc_state := Connected\<rparr>)"
    using connectEstablished_opens [of 0 ?w "\<lambda>_ _. go_ret ()"]
    by (auto simp: one_conn_ok kernels_ok)
  then show ?thesis
    by (simp add: go_ret_def blank_conn_def)
qed

theorem connectDestroyed_closes_witness:
  "wp no_panic (connectDestroyed (\<lambda>_ _. go_ret ()) 0) (\<lambda>_ w'. tc_state (conns w' 0) = Disconnected)
     (one_conn takes_all unwatched (open_conn\<lparr>tc_onConn := Some 0\<rparr>))"
  by (rule wp_mono [OF connectDestroyed_closes [where k = 0]])
    (auto simp: one_conn_ok kernels_ok, simp add: index_consts)

theorem nil_onConn_panics_witness:
  "connectDestroyed (\<lambda>_ _. go_ret ()) 0 (one_conn takes_all idle open_conn) = Inl NilDereference"
  by (rule nil_onConn_panics) (auto simp: one_conn_ok kernels_ok)

text \<open>A kernel on which two bytes have arrived, and a user function that stops the loop.\<close>

definition arrived_kernel :: "trace \<Rightarrow> syscall \<Rightarrow> sysret" where
  "arrived_kernel tr s = (case s of
       SysReadv _ _ \<Rightarrow> (quiet_kernel tr s)\<lparr>ret_n := 2, ret_data := [5, 6]\<rparr>
     | _ \<Rightarrow> quiet_kernel tr s)"

definition arrived_world :: world where
  "arrived_world = (one_conn takes_all idle (open_conn\<lparr>tc_onMsg := Some 0, tc_peerAddr := Some (TCPAddr None)\<rparr>))
     \<lparr>env := arrived_kernel\<rparr>"

lemma arrived_world_ok:
  "conn_ok 0 arrived_world" "poller_inv 0 arrived_world" "epoll_ctl_spec arrived_kernel"
  "trace arrived_world = []" "conns arrived_world 0 = (open_conn\<lparr>tc_onMsg := Some 0,
     tc_peerAddr := Some (TCPAddr None), tc_el := 0, tc_ch := 0\<rparr>)" "env arrived_world = arrived_kernel"
proof -
  let ?w = "one_conn takes_all idle (open_conn\<lparr>tc_onMsg := Some 0, tc_peerAddr := Some (TCPAddr None)\<rparr>)"
  have ok: "conn_ok 0 ?w" "poller_inv 0 ?w"
    by (auto simp: one_conn_ok)
  show "conn_ok 0 arrived_world"
    using ok(1) by (rule conn_ok_cong) (simp_all add: arrived_world_def)
  show "poller_inv 0 arrived_world"
    using ok(2) by (rule poller_inv_cong) (simp_all add: arrived_world_def)
qed (simp_all add: arrived_world_def epoll_ctl_spec_def arrived_kernel_def quiet_kernel_def one_conn_def
    blank_world_def)

theorem conn_handleRead_delivers_witness:
  "\<exists>v. conn_handleRead (\<lambda>_ _ _. upd_loop 0 (\<lambda>l. l\<lparr>el_quit := 1\<rparr>)) (\<lambda>_ _. go_ret ()) 0 5 arrived_world =
     Inr ((), v) \<and> contents (tc_inbound (conns v 0)) = [5, 6] \<and> el_quit (loops v 0) = 1"
proof -
  have "WritableBytes (tc_inbound open_conn) = 1024" "contents (tc_inbound open_conn) = []"
    by (simp_all add: open_conn_def blank_conn_def WritableBytes_def contents_def NewBuffer_def)
  then show ?thesis
    using conn_handleRead_delivers [of 0 arrived_world
        "\<lambda>_ _ _. upd_loop 0 (\<lambda>l. l\<lparr>el_quit := 1\<rparr>)" "\<lambda>_ _. go_ret ()" 5]
    by (simp add: arrived_world_ok arrived_kernel_def quiet_kernel_def readv_ok_def received_def
        upd_loop_def go_defs) auto
qed

end
