(* ===== verification/Engines.thy ===== *)
theory Engines
  imports Eventloop
begin

text \<open>
  \<open>eventloop_engine.go\<close> and \<open>eventloop_engine_group.go\<close>. The handshake of an engine between the
  goroutine that calls \<open>StartLoop\<close> and the one that runs the loop is a step relation over the
  mutex, the condition variable and the shared field; the group works with its outcome, a new
  loop per engine.
\<close>

section \<open>The engine handshake\<close>

text \<open>
  The goroutine of \<open>StartLoop\<close> and the one that \<open>go eng.run()\<close> starts, step by step over their
  program points. \<open>cond.Wait\<close> enters the notification list before it releases the lock.
\<close>

definition NewEventloopEngine :: "string \<Rightarrow> eventloopEngine" where
  "NewEventloopEngine name = \<lparr>eng_id = name, eng_el = None, eng_mu = None,
     eng_starter = SLock, eng_runner = RNew\<rparr>"

inductive StartLoop_step :: "eventloopEngine \<Rightarrow> eventloopEngine \<Rightarrow> bool" where
  lock: "eng_starter s = SLock \<Longrightarrow> eng_mu s = None \<Longrightarrow>
    StartLoop_step s (s\<lparr>eng_mu := Some Starter, eng_starter := STest\<rparr>)"
| park: "eng_starter s = STest \<Longrightarrow> eng_el s = None \<Longrightarrow>
    StartLoop_step s (s\<lparr>eng_mu := None, eng_starter := SParked\<rparr>)"
| relock: "eng_starter s = SNotified \<Longrightarrow> eng_mu s = None \<Longrightarrow>
    StartLoop_step s (s\<lparr>eng_mu := Some Starter, eng_starter := STest\<rparr>)"
| return: "eng_starter s = STest \<Longrightarrow> eng_el s = Some el \<Longrightarrow>
    StartLoop_step s (s\<lparr>eng_mu := None, eng_starter := SReturned el\<rparr>)"

text \<open>\<open>el\<close> is the loop that \<open>NewEventloop\<close> makes for this engine.\<close>

inductive run_step :: "loop_ptr \<Rightarrow> eventloopEngine \<Rightarrow> eventloopEngine \<Rightarrow> bool" for el where
  new: "eng_runner s = RNew \<Longrightarrow> run_step el s (s\<lparr>eng_runner := RLock el\<rparr>)"
| lock: "eng_runner s = RLock l \<Longrightarrow> eng_mu s = None \<Longrightarrow>
    run_step el s (s\<lparr>eng_mu := Some Runner, eng_runner := RSet l\<rparr>)"
| set: "eng_runner s = RSet l \<Longrightarrow> run_step el s (s\<lparr>eng_el := Some l, eng_runner := RBroadcast\<rparr>)"
| broadcast: "eng_runner s = RBroadcast \<Longrightarrow> run_step el s (s\<lparr>eng_runner := RUnlock,
    eng_starter := (if eng_starter s = SParked then SNotified else eng_starter s)\<rparr>)"
| unlock: "eng_runner s = RUnlock \<Longrightarrow> run_step el s (s\<lparr>eng_mu := None, eng_runner := RLoop\<rparr>)"

definition engine_step :: "loop_ptr \<Rightarrow> eventloopEngine \<Rightarrow> eventloopEngine \<Rightarrow> bool" where
  "engine_step el s t \<longleftrightarrow> StartLoop_step s t \<or> run_step el s t"

text \<open>The lock is held by the goroutine that is inside, and the shared field follows \<open>run\<close>.\<close>

definition engine_inv :: "loop_ptr \<Rightarrow> eventloopEngine \<Rightarrow> bool" where
  "engine_inv el s \<longleftrightarrow>
     (eng_mu s = Some Starter \<longleftrightarrow> eng_starter s = STest) \<and>
     (eng_mu s = Some Runner \<longleftrightarrow> eng_runner s \<in> {RSet el, RBroadcast, RUnlock}) \<and>
     eng_runner s \<in> {RNew, RLock el, RSet el, RBroadcast, RUnlock, RLoop} \<and>
     eng_el s = (if eng_runner s \<in> {RBroadcast, RUnlock, RLoop} then Some el else None) \<and>
     (eng_starter s = SParked \<longrightarrow> eng_runner s \<notin> {RUnlock, RLoop}) \<and>
     (eng_starter s = SNotified \<longrightarrow> eng_runner s \<in> {RUnlock, RLoop}) \<and>
     (\<forall>l. eng_starter s = SReturned l \<longrightarrow> l = el \<and> eng_el s = Some el)"

lemma engine_inv_new: "engine_inv el (NewEventloopEngine name)"
  by (simp add: engine_inv_def NewEventloopEngine_def)

lemma engine_inv_StartLoop: "StartLoop_step s t \<Longrightarrow> engine_inv el s \<Longrightarrow> engine_inv el t"
  by (induction rule: StartLoop_step.induct) (auto simp: engine_inv_def split: if_splits)

lemma engine_inv_run: "run_step el s t \<Longrightarrow> engine_inv el s \<Longrightarrow> engine_inv el t"
  by (induction rule: run_step.induct) (auto simp: engine_inv_def split: if_splits)

lemma engine_inv_reachable: "(engine_step el)\<^sup>*\<^sup>* s t \<Longrightarrow> engine_inv el s \<Longrightarrow> engine_inv el t"
  by (induction rule: rtranclp_induct)
    (auto simp: engine_step_def intro: engine_inv_StartLoop engine_inv_run)

text \<open>Every step brings the handshake closer to its end.\<close>

definition runner_left :: "runner \<Rightarrow> nat" where
  "runner_left r = (case r of RNew \<Rightarrow> 5 | RLock _ \<Rightarrow> 4 | RSet _ \<Rightarrow> 3 | RBroadcast \<Rightarrow> 2 | RUnlock \<Rightarrow> 1 | RLoop \<Rightarrow> 0)"

definition starter_left :: "starter \<Rightarrow> bool \<Rightarrow> nat" where
  "starter_left s published = (case s of SLock \<Rightarrow> 6
     | STest \<Rightarrow> if published then 1 else 5 | SParked \<Rightarrow> 4 | SNotified \<Rightarrow> 2 | SReturned _ \<Rightarrow> 0)"

definition steps_left :: "eventloopEngine \<Rightarrow> nat" where
  "steps_left s = runner_left (eng_runner s) + starter_left (eng_starter s) (eng_el s \<noteq> None)"

lemma engine_step_decreases:
  assumes "engine_step el s t" and "engine_inv el s"
  shows "steps_left t < steps_left s"
  using assms(1) unfolding engine_step_def
proof
  assume "StartLoop_step s t"
  then show ?thesis
    using assms(2)
    by cases (auto simp: steps_left_def starter_left_def engine_inv_def split: if_splits)
next
  assume "run_step el s t"
  then show ?thesis
    using assms(2)
    by cases (auto simp: steps_left_def starter_left_def runner_left_def engine_inv_def
        split: if_splits starter.splits)
qed

lemma engine_step_exists:
  assumes "engine_inv el s" and "\<nexists>l. eng_starter s = SReturned l"
  shows "\<exists>t. engine_step el s t"
proof (cases "eng_mu s")
  case (Some h)
  show ?thesis
  proof (cases h)
    case Starter
    then have "eng_starter s = STest"
      using assms(1) Some by (simp add: engine_inv_def)
    then have "\<exists>t. StartLoop_step s t"
      by (cases "eng_el s") (blast intro: StartLoop_step.park StartLoop_step.return)+
    then show ?thesis
      by (auto simp: engine_step_def)
  next
    case Runner
    then have "eng_runner s \<in> {RSet el, RBroadcast, RUnlock}"
      using assms(1) Some unfolding engine_inv_def by blast
    then have "\<exists>t. run_step el s t"
      by (auto intro: run_step.intros)
    then show ?thesis
      by (auto simp: engine_step_def)
  qed
next
  case None
  then have "eng_starter s \<in> {SLock, SParked, SNotified}" "eng_runner s \<in> {RNew, RLock el, RLoop}"
    using assms unfolding engine_inv_def by (cases "eng_starter s"; cases "eng_runner s"; auto)+
  then show ?thesis
    using None assms unfolding engine_step_def engine_inv_def
    by (auto intro: StartLoop_step.intros run_step.intros)
qed

lemma engine_finishes:
  "engine_inv el s \<Longrightarrow> \<exists>t. (engine_step el)\<^sup>*\<^sup>* s t \<and> eng_starter t = SReturned el"
proof (induction "steps_left s" arbitrary: s rule: less_induct)
  case less
  show ?case
  proof (cases "\<exists>l. eng_starter s = SReturned l")
    case True
    then show ?thesis
      using less.prems by (auto simp: engine_inv_def)
  next
    case False
    then obtain u where u: "engine_step el s u"
      using engine_step_exists less.prems by blast
    then have "engine_inv el u" "steps_left u < steps_left s"
      using less.prems engine_inv_reachable [of el s u] engine_step_decreases by blast+
    then show ?thesis
      using less.hyps u by (meson converse_rtranclp_into_rtranclp)
  qed
qed


section \<open>The group\<close>

definition NewEventloopEngineGroup :: "int \<Rightarrow> loop_ptr \<Rightarrow> eventloopEngineGroup" where
  "NewEventloopEngineGroup engineCnt boss =
     \<lparr>gr_boss = boss, gr_works = [], gr_engines = [], gr_engineCnt = engineCnt,
      gr_started = False, gr_next = 0\<rparr>"

text \<open>The outcome of \<open>StartLoop\<close>: the loop exists and has been published.\<close>

definition StartLoop :: "eventloopEngine \<Rightarrow> (world, loop_ptr \<times> eventloopEngine) go" where
  "StartLoop eng =
     go_bind (NewEventloop (eng_id eng)) (\<lambda>el.
     go_ret (el, eng\<lparr>eng_el := Some el, eng_starter := SReturned el, eng_runner := RLoop\<rparr>))"

text \<open>The \<open>for\<close> loop of \<open>Start\<close>, over the engine numbers.\<close>

definition worker_name :: "nat \<Rightarrow> string" where
  "worker_name i = ''worker-engine-'' @ Itoa (int i)"

primrec start_engines :: "nat list \<Rightarrow> eventloopEngineGroup \<Rightarrow> (world, eventloopEngineGroup) go" where
  "start_engines [] gr = go_ret gr"
| "start_engines (i # is) gr =
     go_bind (StartLoop (NewEventloopEngine (worker_name i))) (\<lambda>(el, engine).
     start_engines is (gr\<lparr>gr_engines := gr_engines gr @ [engine],
                             gr_works := gr_works gr @ [el]\<rparr>))"

definition Start :: "eventloopEngineGroup \<Rightarrow> (world, eventloopEngineGroup) go" where
  "Start gr = start_engines [0..<nat (gr_engineCnt gr)]
     (if \<not> gr_started gr then gr\<lparr>gr_started := True\<rparr> else gr)"

definition GetNextLoop :: "eventloopEngineGroup \<Rightarrow> loop_ptr \<times> eventloopEngineGroup" where
  "GetNextLoop gr =
     (if length (gr_works gr) = 0 then (gr_boss gr, gr)
      else let g = (if gr_next gr \<ge> length (gr_works gr) then gr\<lparr>gr_next := 0\<rparr> else gr) in
        (gr_works g ! gr_next g, g\<lparr>gr_next := gr_next g + 1\<rparr>))"

text \<open>The loops that \<open>k\<close> calls hand out.\<close>

primrec next_loops :: "nat \<Rightarrow> eventloopEngineGroup \<Rightarrow> loop_ptr list" where
  "next_loops 0 gr = []"
| "next_loops (Suc k) gr = (let (el, g) = GetNextLoop gr in el # next_loops k g)"

lemma upt_mod_shift: "map (\<lambda>i. f ((Suc m + i) mod n)) [0..<k] = map (\<lambda>i. f ((m + i) mod n)) [1..<Suc k]"
  by (simp add: map_Suc_upt [symmetric] o_def del: upt_Suc map_Suc_upt)

lemma next_loops_round_robin:
  assumes "gr_works gr \<noteq> []" and "gr_next gr \<le> length (gr_works gr)"
  shows "next_loops k gr =
    map (\<lambda>i. gr_works gr ! ((gr_next gr + i) mod length (gr_works gr))) [0..<k]"
  using assms
proof (induction k arbitrary: gr)
  case (Suc k)
  let ?n = "length (gr_works gr)"
  define m where "m = (if gr_next gr \<ge> ?n then 0 else gr_next gr)"
  define g where "g = gr\<lparr>gr_next := m + 1\<rparr>"
  have pos: "0 < ?n"
    using Suc.prems(1) by simp
  have m: "m < ?n" "\<And>i. (gr_next gr + i) mod ?n = (m + i) mod ?n"
    using pos Suc.prems(2) by (auto simp: m_def simp del: length_greater_0_conv)
  have "GetNextLoop gr = (gr_works gr ! m, g)"
    using Suc.prems by (simp add: GetNextLoop_def m_def g_def Let_def)
  moreover have "next_loops k g = map (\<lambda>i. gr_works gr ! ((Suc m + i) mod ?n)) [0..<k]"
    using Suc.IH [of g] Suc.prems m(1) by (simp add: g_def)
  ultimately show ?case
    using m(1) upt_mod_shift [of "\<lambda>j. gr_works gr ! j" m ?n k]
    by (simp add: m(2) upt_rec [of 0 "Suc k"] del: upt_Suc)
qed simp

text \<open>What the construction of a loop leaves behind for the next one.\<close>

definition ready_kernel :: "world \<Rightarrow> bool" where
  "ready_kernel w \<longleftrightarrow> stores_ok w \<and> epoll_ctl_spec (env w) \<and> legal_trace (trace w) \<and>
     creates (env w) \<and> fresh_fds (env w)"

lemma with_wakeup_frame:
  assumes "stores_ok w"
  shows "env (with_wakeup name w) = env w" and "n_loops (with_wakeup name w) = Suc (n_loops w)"
    and "stores_ok (with_wakeup name w)"
proof -
  have "env (with_wakeup name w) = env w" "n_loops (with_wakeup name w) = Suc (n_loops w)"
    "n_chans (with_wakeup name w) = Suc (Suc (n_chans w))" "n_timers (with_wakeup name w) = n_timers w"
    "timers (with_wakeup name w) = timers w"
    "ch_el (chans (with_wakeup name w) c) = (if c = n_chans w \<or> c = Suc (n_chans w) then n_loops w
       else ch_el (chans w c))" for c
    by (simp_all add: with_wakeup_def with_timers_def Let_def step_defs) (simp_all add: with_poller_def Let_def)
  then show "env (with_wakeup name w) = env w" "n_loops (with_wakeup name w) = Suc (n_loops w)"
    "stores_ok (with_wakeup name w)"
    using assms by (auto simp: stores_ok_def less_Suc_eq)
qed

lemma start_engines_correct:
  "ready_kernel w \<Longrightarrow> wp no_panic (start_engines is gr) (\<lambda>g w'. ready_kernel w' \<and>
     n_loops w' = n_loops w + length is \<and>
     gr_works g = gr_works gr @ [n_loops w..<n_loops w + length is] \<and>
     map eng_id (gr_engines g) = map eng_id (gr_engines gr) @
       map worker_name is \<and>
     gr_next g = gr_next gr \<and> gr_boss g = gr_boss gr) w"
proof (induction "is" arbitrary: w gr)
  case (Cons i "is")
  let ?name = "worker_name i" and ?v = "with_wakeup (worker_name i) w"
  have made: "NewEventloop ?name w = Inr (n_loops w, ?v)" "new_loop_ok (n_loops w) ?v"
    using with_wakeup_ok [of w ?name] Cons.prems by (auto simp: ready_kernel_def)
  have v: "n_loops ?v = Suc (n_loops w)" "ready_kernel ?v"
    using with_wakeup_frame [of w ?name] Cons.prems made(2) by (auto simp: ready_kernel_def new_loop_ok_def)
  let ?e = "(NewEventloopEngine ?name)\<lparr>eng_el := Some (n_loops w), eng_starter := SReturned (n_loops w), eng_runner := RLoop\<rparr>"
  let ?g = "gr\<lparr>gr_engines := gr_engines gr @ [?e], gr_works := gr_works gr @ [n_loops w]\<rparr>"
  have step: "start_engines (i # is) gr w = start_engines is ?g ?v"
    using made(1) by (simp add: StartLoop_def go_bind_def go_ret_def NewEventloopEngine_def)
  have "[n_loops w..<n_loops w + length (i # is)] = n_loops w # [Suc (n_loops w)..<Suc (n_loops w) + length is]"
    by (simp add: upt_conv_Cons del: upt_Suc)
  then show ?case
    unfolding wp_same [where m = "start_engines (i # is) gr" and m' = "start_engines is ?g", OF step]
    by (intro wp_mono [OF Cons.IH [OF v(2), of ?g]]) (simp_all add: v(1) NewEventloopEngine_def del: upt_Suc)
qed simp

section \<open>Properties\<close>

text \<open>
  C13: \<open>StartLoop\<close> cannot deadlock or return too early. From every state that the two goroutines
  can reach, in whatever order they are scheduled, \<open>StartLoop\<close> can still return, every step
  brings the end closer, and what it returns is the loop that \<open>run\<close> has published.
\<close>

theorem StartLoop_returns:
  assumes "(engine_step el)\<^sup>*\<^sup>* (NewEventloopEngine name) s"
  shows "(\<exists>t. (engine_step el)\<^sup>*\<^sup>* s t \<and> eng_starter t = SReturned el) \<and>
    (\<forall>t. engine_step el s t \<longrightarrow> steps_left t < steps_left s) \<and>
    (\<forall>l. eng_starter s = SReturned l \<longrightarrow> l = el \<and> eng_el s = Some el)"
proof -
  have inv: "engine_inv el s"
    using assms engine_inv_new by (rule engine_inv_reachable)
  then show ?thesis
    using engine_finishes [OF inv] engine_step_decreases [OF _ inv] by (auto simp: engine_inv_def)
qed

theorem StartLoop_returns_witness:
  "\<exists>t. (engine_step 1)\<^sup>*\<^sup>* (NewEventloopEngine ''w'') t \<and> eng_starter t = SReturned 1"
  using StartLoop_returns [OF rtranclp.rtrancl_refl, of 1 "''w''"] by blast

text \<open>
  \<open>GetNextLoop\<close> is round robin: any number of calls on a group with workers hands out the
  workers in turn, starting with the first; a group without workers always gives the boss.
\<close>

theorem GetNextLoop_round_robin:
  "next_loops k (NewEventloopEngineGroup cnt boss\<lparr>gr_works := works\<rparr>) =
     map (\<lambda>i. if works = [] then boss else works ! (i mod length works)) [0..<k]"
proof (cases "works = []")
  case True
  have "next_loops k g = replicate k (gr_boss g)" if "gr_works g = []" for g
    using that by (induction k) (auto simp: GetNextLoop_def)
  then show ?thesis
    using True by (simp add: NewEventloopEngineGroup_def map_replicate_const)
next
  case False
  then show ?thesis
    using next_loops_round_robin [of "NewEventloopEngineGroup cnt boss\<lparr>gr_works := works\<rparr>" k]
    by (simp add: NewEventloopEngineGroup_def)
qed

text \<open>
  \<open>Start\<close> appends one new loop per engine, with the engine's name, to whatever the group
  has, whether or not the group was started before: the flag \<open>started\<close> guards nothing, and
  starting twice doubles the workers.
\<close>

theorem Start_appends:
  assumes "ready_kernel w"
  shows "wp no_panic (Start gr) (\<lambda>g w'. ready_kernel w' \<and>
    gr_works g = gr_works gr @ [n_loops w..<n_loops w + nat (gr_engineCnt gr)] \<and>
    map eng_id (gr_engines g) = map eng_id (gr_engines gr) @
      map worker_name [0..<nat (gr_engineCnt gr)]) w"
  unfolding Start_def by (rule wp_mono [OF start_engines_correct [OF assms]]) auto

theorem Start_appends_witness:
  "wp no_panic (Start (NewEventloopEngineGroup 2 0)) (\<lambda>g w'. gr_works g = [0, 1]) (blank_world counting_kernel)"
proof -
  have "ready_kernel (blank_world counting_kernel)"
    using counting_kernel_ok by (simp add: ready_kernel_def stores_ok_def blank_world_def)
  from Start_appends [OF this, of "NewEventloopEngineGroup 2 0"] show ?thesis
    by (auto simp: NewEventloopEngineGroup_def blank_world_def upt_rec elim!: wp_mono)
qed

end
