(* ===== verification/Tcp_Server.thy ===== *)
theory Tcp_Server
  imports Tcp_Conn Engines
begin

text \<open>
  \<open>acceptor.go\<close> and \<open>tcp_server.go\<close>: the listening socket and the server that turns accepted
  descriptors into connections, spreads them over its loops and keeps them by name.
\<close>

section \<open>The acceptor\<close>

definition newAcceptor :: "loop_ptr \<Rightarrow> string \<Rightarrow> acceptCallback option \<Rightarrow> (world, acceptor_ptr) go" where
  "newAcceptor el addr cb =
     go_bind newSocket (\<lambda>so.
     go_bind (NewChannel el so) (\<lambda>ch.
     go_bind (new_acceptor \<lparr>ac_el = el, ac_so = so, ac_ch = ch, ac_cb = cb, ac_localAddr = None,
       ac_listening = False\<rparr>) (\<lambda>a.
     go_bind (setReuseAddr so True) (\<lambda>_.
     let (network, address) = parseProtoAddr addr in
     go_bind (socket_bind so network address) (\<lambda>bound.
     go_bind (go_gets net) (\<lambda>rs.
     go_bind (SockaddrToTCPAddr rs (case bound of Inl err \<Rightarrow> None | Inr sa \<Rightarrow> Some sa)) (\<lambda>localAddr.
     go_seq (upd_acceptor a (\<lambda>x. x\<lparr>ac_localAddr := Some (TCPAddr localAddr)\<rparr>)) (
     go_seq (setReadCallback ch (RcAcceptor a))
       (go_ret a)))))))))"

definition acceptor_listen :: "acceptor_ptr \<Rightarrow> (world, unit) go" where
  "acceptor_listen a =
     go_seq (upd_acceptor a (\<lambda>x. x\<lparr>ac_listening := True\<rparr>)) (
     go_bind (go_gets (\<lambda>w. acceptors w a)) (\<lambda>x.
     go_seq (socket_listen (ac_so x))
       (enableReading (ac_ch x))))"

definition acceptor_handleRead :: "(acceptCallback \<Rightarrow> int \<Rightarrow> net_addr option \<Rightarrow> (world, unit) go) \<Rightarrow>
    acceptor_ptr \<Rightarrow> time \<Rightarrow> (world, unit) go" where
  "acceptor_handleRead acb a ts =
     go_bind (go_gets (\<lambda>w. acceptors w a)) (\<lambda>x.
     go_bind (accept (ac_so x)) (\<lambda>res.
     case res of
       Inl err \<Rightarrow> go_bind (socket_close (ac_so x)) (\<lambda>_. go_ret ())
     | Inr (fd, addr) \<Rightarrow>
         (case ac_cb x of None \<Rightarrow> go_ret () | Some k \<Rightarrow> acb k fd addr)))"

section \<open>The server\<close>

definition NewTcpServer :: "loop_ptr \<Rightarrow> string \<Rightarrow> string \<Rightarrow> int \<Rightarrow> (world, server_ptr) go" where
  "NewTcpServer el name addr engineCnt =
     go_bind (newAcceptor el addr None) (\<lambda>a.
     go_bind (new_server \<lparr>sv_el = el, sv_name = name, sv_addr = [], sv_ac = a,
       sv_group = NewEventloopEngineGroup engineCnt el,
       sv_onConn = None, sv_onMsg = None, sv_onWriteComplete = None, sv_started = False,
       sv_nextConnId = 1, sv_connMap = (\<lambda>_. None), sv_tcpNoDelay = 1, sv_keepAlive = 1\<rparr>) (\<lambda>s.
     go_bind (go_gets (\<lambda>w. ac_localAddr (acceptors w a))) (\<lambda>localAddr.
     go_bind (addr_String localAddr) (\<lambda>str.
     go_seq (upd_server s (\<lambda>x. x\<lparr>sv_addr := str\<rparr>)) (
     go_seq (upd_acceptor a (\<lambda>x. x\<lparr>ac_cb := Some (AcServer s)\<rparr>))
       (go_ret s))))))"

definition SetEngineCnt :: "server_ptr \<Rightarrow> int \<Rightarrow> (world, unit) go" where
  "SetEngineCnt s cnt = upd_server s (\<lambda>x. x\<lparr>sv_group := (sv_group x)\<lparr>gr_engineCnt := cnt\<rparr>\<rparr>)"

definition server_SetTcpNoDelay :: "server_ptr \<Rightarrow> bool \<Rightarrow> (world, unit) go" where
  "server_SetTcpNoDelay s tcpNoDelay =
     (if tcpNoDelay then upd_server s (\<lambda>x. x\<lparr>sv_tcpNoDelay := 1\<rparr>)
      else upd_server s (\<lambda>x. x\<lparr>sv_tcpNoDelay := 0\<rparr>))"

definition server_Start :: "server_ptr \<Rightarrow> (world, unit) go" where
  "server_Start s =
     go_bind (go_gets (\<lambda>w. servers w s)) (\<lambda>x.
     go_seq (go_when (\<not> sv_started x)
       (go_seq (upd_server s (\<lambda>x. x\<lparr>sv_started := True\<rparr>)) (
        go_bind (Start (sv_group x)) (\<lambda>g.
        upd_server s (\<lambda>x. x\<lparr>sv_group := g\<rparr>))))) (
     go_bind (go_gets (\<lambda>w. ac_listening (acceptors w (sv_ac x)))) (\<lambda>listening.
     go_when (\<not> listening) (AsyncExecute (sv_el x) (TkServerListen s)))))"

text \<open>The closure that \<open>Start\<close> submits.\<close>

definition listenTask :: "server_ptr \<Rightarrow> (world, unit) go" where
  "listenTask s = go_bind (go_gets (\<lambda>w. sv_ac (servers w s))) acceptor_listen"

definition server_SetOnConn :: "server_ptr \<Rightarrow> nat option \<Rightarrow> (world, unit) go" where
  "server_SetOnConn s cb = upd_server s (\<lambda>x. x\<lparr>sv_onConn := cb\<rparr>)"

definition server_SetOnMsg :: "server_ptr \<Rightarrow> nat option \<Rightarrow> (world, unit) go" where
  "server_SetOnMsg s cb = upd_server s (\<lambda>x. x\<lparr>sv_onMsg := cb\<rparr>)"

definition server_SetOnWriteComplete :: "server_ptr \<Rightarrow> nat option \<Rightarrow> (world, unit) go" where
  "server_SetOnWriteComplete s cb = upd_server s (\<lambda>x. x\<lparr>sv_onWriteComplete := cb\<rparr>)"

definition connName :: "string \<Rightarrow> string \<Rightarrow> uint64 \<Rightarrow> string" where
  "connName name addr n = name @ ''['' @ addr @ '']'' @ ''-conn-'' @ Itoa (sint n)"

definition server_newConn :: "server_ptr \<Rightarrow> int \<Rightarrow> net_addr option \<Rightarrow> (world, unit) go" where
  "server_newConn s fd addr =
     go_bind (go_gets (\<lambda>w. servers w s)) (\<lambda>x.
     let name = connName (sv_name x) (sv_addr x) (sv_nextConnId x) in
     go_seq (upd_server s (\<lambda>x. x\<lparr>sv_nextConnId := sv_nextConnId x + 1\<rparr>)) (
     go_bind (addr_String addr) (\<lambda>_.
     go_bind (go_gets (\<lambda>w. ac_localAddr (acceptors w (sv_ac x)))) (\<lambda>localAddr.
     let (el, g) = GetNextLoop (sv_group x) in
     go_seq (upd_server s (\<lambda>x. x\<lparr>sv_group := g\<rparr>)) (
     go_bind (NewTcpConn el name fd localAddr addr) (\<lambda>conn.
     go_seq (go_when (sv_tcpNoDelay x = 1) (go_bind (SetTcpNoDelay conn True) (\<lambda>_. go_ret ()))) (
     go_seq (upd_server s (\<lambda>x. x\<lparr>sv_connMap := (sv_connMap x)(name \<mapsto> conn)\<rparr>)) (
     go_seq (SetOnConn conn (sv_onConn x)) (
     go_seq (SetOnMsg conn (sv_onMsg x)) (
     go_seq (SetOnWriteComplete conn (sv_onWriteComplete x)) (
     go_seq (setOnClose conn (Some (CcServer s)))
       (AsyncExecute el (TkConnectEstablished conn)))))))))))))"

definition server_removeConn :: "server_ptr \<Rightarrow> conn_ptr \<Rightarrow> (world, unit) go" where
  "server_removeConn s conn =
     go_bind (go_gets (\<lambda>w. sv_el (servers w s))) (\<lambda>el.
     AsyncExecute el (TkServerRemove s conn))"

definition removeConnInLoop :: "server_ptr \<Rightarrow> conn_ptr \<Rightarrow> (world, unit) go" where
  "removeConnInLoop s conn =
     go_bind (go_gets (\<lambda>w. conns w conn)) (\<lambda>x.
     go_seq (upd_server s (\<lambda>y. y\<lparr>sv_connMap := (sv_connMap y)(tc_name x := None)\<rparr>))
       (AsyncExecute (tc_el x) (TkServerDestroyConn conn)))"

text \<open>The closure that \<open>removeConnInLoop\<close> submits to the loop of the connection.\<close>

definition destroyConnTask :: "(nat \<Rightarrow> conn_ptr \<Rightarrow> (world, unit) go) \<Rightarrow> conn_ptr \<Rightarrow> (world, unit) go" where
  "destroyConnTask ucb conn =
     go_seq (connectDestroyed ucb conn) (
     go_bind (go_gets (\<lambda>w. tc_so (conns w conn))) (\<lambda>fd.
     go_bind (socket_close fd) (\<lambda>_. go_ret ())))"

section \<open>New connections\<close>

text \<open>The connection that \<open>newConn\<close> makes, and what it leaves of the server.\<close>

definition accepted_conn :: "server_ptr \<Rightarrow> int \<Rightarrow> net_addr option \<Rightarrow> world \<Rightarrow> tcpConn" where
  "accepted_conn s fd addr w = (let x = servers w s in
     \<lparr>tc_el = fst (GetNextLoop (sv_group x)), tc_name = connName (sv_name x) (sv_addr x) (sv_nextConnId x),
      tc_so = fd, tc_ch = n_chans w, tc_localAddr = ac_localAddr (acceptors w (sv_ac x)), tc_peerAddr = addr,
      tc_state = Connecting, tc_onConn = sv_onConn x, tc_onMsg = sv_onMsg x, tc_onClose = Some (CcServer s),
      tc_onWriteComplete = sv_onWriteComplete x, tc_inbound = NewBuffer, tc_outbound = NewBuffer, tc_ctx = None\<rparr>)"

definition accepted_server :: "server_ptr \<Rightarrow> world \<Rightarrow> tcpServer" where
  "accepted_server s w = (let x = servers w s in
     x\<lparr>sv_nextConnId := sv_nextConnId x + 1, sv_group := snd (GetNextLoop (sv_group x)),
       sv_connMap := (sv_connMap x)(connName (sv_name x) (sv_addr x) (sv_nextConnId x) \<mapsto> n_conns w)\<rparr>)"

lemma server_newConn_wp:
  assumes "addr \<noteq> None"
  shows "wp no_panic (server_newConn s fd addr) (\<lambda>_ w'. let el = fst (GetNextLoop (sv_group (servers w s))) in
    n_conns w' = Suc (n_conns w) \<and> conns w' = (conns w)(n_conns w := accepted_conn s fd addr w) \<and>
    servers w' = (servers w)(s := accepted_server s w) \<and>
    n_chans w' = Suc (n_chans w) \<and> ch_fd (chans w' (n_chans w)) = fd \<and> ch_el (chans w' (n_chans w)) = el \<and>
    ch_index (chans w' (n_chans w)) = channelNew \<and> ch_events (chans w' (n_chans w)) = eventNone \<and>
    ch_readCallback (chans w' (n_chans w)) = Some (RcConn (n_conns w)) \<and>
    el_pendingTasks (loops w' el) = el_pendingTasks (loops w el) @ [TkConnectEstablished (n_conns w)]) w"
proof -
  obtain str where "addr_String addr = (go_ret str :: (world, string) go)"
    using assms by (cases addr; cases "the addr") (auto simp: addr_String_def)
  then show ?thesis
    by (cases "GetNextLoop (sv_group (servers w s))")
      (simp add: server_newConn_def Let_def NewTcpConn_def NewChannel_def setReadCallback_def SetTcpNoDelay_def
        setTcpNoDelay_def SetOnConn_def SetOnMsg_def SetOnWriteComplete_def setOnClose_def
        accepted_conn_def accepted_server_def)
qed

section \<open>Names\<close>

lemma connName_inj: "connName name addr n = connName name addr m \<longleftrightarrow> n = m"
  by (auto simp: connName_def Itoa_inj) (metis signed_word_eqI)

text \<open>Every connection of the map is registered under its own name, and has a number given out before.\<close>

definition server_names :: "server_ptr \<Rightarrow> world \<Rightarrow> bool" where
  "server_names s w \<longleftrightarrow> (let x = servers w s in
     \<forall>name c. sv_connMap x name = Some c \<longrightarrow> c < n_conns w \<and> tc_name (conns w c) = name \<and>
       (\<exists>i < sv_nextConnId x. name = connName (sv_name x) (sv_addr x) i))"

lemma word_less_Suc: "(n :: uint64) + 1 \<noteq> 0 \<Longrightarrow> i < n + 1 \<longleftrightarrow> i < n \<or> i = n"
  by (auto simp: word_less_nat_alt word_unat_eq_iff unatSuc add.commute [of n] less_Suc_eq)

lemma server_names_newConn:
  assumes "server_names s w" and "sv_nextConnId (servers w s) + 1 \<noteq> 0" and "addr \<noteq> None"
  shows "sv_connMap (servers w s) (tc_name (accepted_conn s fd addr w)) = None"
    and "wp no_panic (server_newConn s fd addr) (\<lambda>_ w'. server_names s w' \<and> sv_connMap (servers w' s) =
      (sv_connMap (servers w s))(tc_name (accepted_conn s fd addr w) \<mapsto> n_conns w)) w"
proof -
  let ?x = "servers w s"
  show "sv_connMap ?x (tc_name (accepted_conn s fd addr w)) = None"
  proof (rule ccontr)
    assume "sv_connMap ?x (tc_name (accepted_conn s fd addr w)) \<noteq> None"
    then obtain i where "i < sv_nextConnId ?x"
      "connName (sv_name ?x) (sv_addr ?x) (sv_nextConnId ?x) = connName (sv_name ?x) (sv_addr ?x) i"
      using assms(1) by (auto simp: server_names_def accepted_conn_def Let_def)
    then show False
      by (simp add: connName_inj)
  qed
  have "server_names s w'" if "n_conns w' = Suc (n_conns w)"
    "conns w' = (conns w)(n_conns w := accepted_conn s fd addr w)" "servers w' = (servers w)(s := accepted_server s w)" for w'
    using assms(1) that word_less_Suc [OF assms(2)]
    by (fastforce simp: server_names_def accepted_conn_def accepted_server_def Let_def less_Suc_eq)
  then show "wp no_panic (server_newConn s fd addr) (\<lambda>_ w'. server_names s w' \<and> sv_connMap (servers w' s) =
      (sv_connMap ?x)(tc_name (accepted_conn s fd addr w) \<mapsto> n_conns w)) w"
    by (intro wp_mono [OF server_newConn_wp [OF assms(3)]])
      (auto simp: Let_def accepted_server_def accepted_conn_def)
qed

lemma removeConnInLoop_wp:
  "wp no_panic (removeConnInLoop s c) (\<lambda>_ w'. n_conns w' = n_conns w \<and> conns w' = conns w \<and>
    servers w' = (servers w)(s := (servers w s)\<lparr>sv_connMap := (sv_connMap (servers w s))(tc_name (conns w c) := None)\<rparr>) \<and>
    el_pendingTasks (loops w' (tc_el (conns w c))) =
      el_pendingTasks (loops w (tc_el (conns w c))) @ [TkServerDestroyConn c]) w"
  by (simp add: removeConnInLoop_def Let_def)

section \<open>Properties\<close>

text \<open>
  C25: an accepted descriptor becomes a connection. \<open>newConn\<close> makes a connection in state
  \<open>Connecting\<close> for the next loop in turn, with the server's functions installed and the server
  told of its end, a new channel for the descriptor that calls the connection's \<open>handleRead\<close>,
  an entry in the map, and a task on that loop which will open the connection.
\<close>

theorem server_newConn_registers:
  assumes "addr \<noteq> None"
  shows "wp no_panic (server_newConn s fd addr) (\<lambda>_ w'. let el = fst (GetNextLoop (sv_group (servers w s))) in
    n_conns w' = Suc (n_conns w) \<and> conns w' = (conns w)(n_conns w := accepted_conn s fd addr w) \<and>
    servers w' = (servers w)(s := accepted_server s w) \<and>
    n_chans w' = Suc (n_chans w) \<and> ch_fd (chans w' (n_chans w)) = fd \<and> ch_el (chans w' (n_chans w)) = el \<and>
    ch_index (chans w' (n_chans w)) = channelNew \<and> ch_events (chans w' (n_chans w)) = eventNone \<and>
    ch_readCallback (chans w' (n_chans w)) = Some (RcConn (n_conns w)) \<and>
    el_pendingTasks (loops w' el) = el_pendingTasks (loops w el) @ [TkConnectEstablished (n_conns w)]) w"
  by (rule server_newConn_wp [OF assms])

definition some_peer :: "net_addr option" where
  "some_peer = Some (TCPAddr (Some \<lparr>ta_IP = [10, 0, 0, 1], ta_Port = 4711, ta_Zone = []\<rparr>))"

theorem server_newConn_registers_witness:
  "wp no_panic (server_newConn 0 9 some_peer) (\<lambda>_ w'. tc_name (conns w' 0) = ''[]-conn-1'') (blank_world quiet_kernel)"
proof -
  have "Itoa (sint (1 :: uint64)) = ''1''"
    by (simp add: Itoa_def decimal.simps [of 1] digit_def) code_simp
  then show ?thesis
    using server_newConn_registers [where w = "blank_world quiet_kernel" and addr = some_peer and s = 0 and fd = 9]
    by (auto simp: Let_def some_peer_def accepted_conn_def blank_world_def blank_server_def connName_def elim!: wp_mono)
qed

text \<open>
  C26: connections do not overwrite each other. As long as the 64-bit counter has not gone
  round, the name of a new connection is not in the map, and the map keeps every connection
  under its own name; removing a connection takes exactly its entry out and submits its
  destruction to its own loop.
\<close>

theorem server_connMap_consistent:
  assumes "server_names s w" and "sv_nextConnId (servers w s) + 1 \<noteq> 0" and "addr \<noteq> None"
  shows "sv_connMap (servers w s) (tc_name (accepted_conn s fd addr w)) = None \<and>
    wp no_panic (server_newConn s fd addr) (\<lambda>_ w'. server_names s w' \<and> sv_connMap (servers w' s) =
      (sv_connMap (servers w s))(tc_name (accepted_conn s fd addr w) \<mapsto> n_conns w)) w \<and>
    wp no_panic (removeConnInLoop s c) (\<lambda>_ w'. server_names s w' \<and>
      sv_connMap (servers w' s) = (sv_connMap (servers w s))(tc_name (conns w c) := None) \<and>
      TkServerDestroyConn c \<in> set (el_pendingTasks (loops w' (tc_el (conns w c))))) w"
proof (intro conjI)
  have "server_names s w'" if "n_conns w' = n_conns w" "conns w' = conns w" "servers w' = (servers w)(s :=
      (servers w s)\<lparr>sv_connMap := (sv_connMap (servers w s))(tc_name (conns w c) := None)\<rparr>)" for w'
    using assms(1) that by (simp add: server_names_def Let_def)
  then show "wp no_panic (removeConnInLoop s c) (\<lambda>_ w'. server_names s w' \<and>
      sv_connMap (servers w' s) = (sv_connMap (servers w s))(tc_name (conns w c) := None) \<and>
      TkServerDestroyConn c \<in> set (el_pendingTasks (loops w' (tc_el (conns w c))))) w"
    by (intro wp_mono [OF removeConnInLoop_wp]) auto
qed (use server_names_newConn [OF assms] in auto)

theorem server_connMap_consistent_witness:
  "wp no_panic (server_newConn 0 9 some_peer) (\<lambda>_ w'. server_names 0 w' \<and>
     sv_connMap (servers w' 0) = [tc_name (accepted_conn 0 9 some_peer (blank_world quiet_kernel)) \<mapsto> 0])
     (blank_world quiet_kernel)"
  using server_connMap_consistent [where w = "blank_world quiet_kernel" and addr = some_peer and s = 0 and fd = 9]
  by (simp add: server_names_def some_peer_def blank_world_def blank_server_def)

text \<open>The system call of \<open>accept\<close>, and what the acceptor does with its result.\<close>

definition accept_call :: "acceptor_ptr \<Rightarrow> world \<Rightarrow> syscall" where
  "accept_call a w = SysAccept4 (ac_so (acceptors w a)) (or SOCK_NONBLOCK SOCK_CLOEXEC)"

definition accept_result :: "acceptor_ptr \<Rightarrow> world \<Rightarrow> sysret" where
  "accept_result a w = env w (trace w) (accept_call a w)"

lemma acceptor_handleRead_error:
  assumes "ret_err (accept_result a w) \<noteq> None"
  shows "acceptor_handleRead acb a ts w =
    Inr ((), add_call (SysClose (ac_so (acceptors w a))) (add_call (accept_call a w) w))"
  using assms
  by (auto simp: acceptor_handleRead_def accept_def socket_close_def accept_result_def accept_call_def add_call_def
      go_defs sys_def Let_def)

lemma acceptor_handleRead_accepted:
  assumes "ret_err (accept_result a w) = None"
    and "SockaddrToTCPOrUnixAddr (net w) (ret_addr (accept_result a w)) (add_call (accept_call a w) w) =
      Inr (addr, add_call (accept_call a w) w)"
  shows "acceptor_handleRead acb a ts w = (case ac_cb (acceptors w a) of
      None \<Rightarrow> go_ret ()
    | Some k \<Rightarrow> acb k (ret_n (accept_result a w)) addr) (add_call (accept_call a w) w)"
  using assms
  by (auto simp: acceptor_handleRead_def accept_def accept_result_def accept_call_def add_call_def
      go_bind_def go_gets_def go_ret_def sys_def Let_def split: option.split)

text \<open>
  C34: one failed \<open>accept\<close> ends the server. Whatever the error is, also one that says to try
  again (\<open>EAGAIN\<close>, \<open>EINTR\<close>, \<open>ECONNABORTED\<close>), \<open>handleRead\<close> closes the listening socket: the
  kernel stops watching it, and the poller still believes it is watched.
\<close>

theorem acceptor_error_closes:
  assumes "poller_inv el w" and "ret_err (accept_result a w) \<noteq> None"
    and "ac_ch (acceptors w a) = c" and "c \<in> chans_of el w" and "ch_index (chans w c) = channelAdd"
    and "ch_fd (chans w c) = ac_so (acceptors w a)"
    and "\<And>tr fd. ret_err (env w tr (SysClose fd)) = None" and "po_epollFd (poller_of el w) \<noteq> ac_so (acceptors w a)"
  shows "\<exists>w'. acceptor_handleRead acb a ts w = Inr ((), w') \<and>
    interest (trace w) (po_epollFd (poller_of el w)) (ac_so (acceptors w a)) = Some (ch_events (chans w c), c) \<and>
    interest (trace w') (po_epollFd (poller_of el w)) (ac_so (acceptors w a)) = None \<and> \<not> poller_inv el w'"
proof -
  let ?fd = "ac_so (acceptors w a)" and ?ep = "po_epollFd (poller_of el w)"
  let ?w = "add_call (SysClose ?fd) (add_call (accept_call a w) w)"
  have b: "believed el w ?fd = Some (ch_events (chans w c), c)"
    using chan_index_cases [OF assms(1,4)] assms(5,6) by (auto simp: believed_def index_consts)
  have "interest (trace w) ?ep ?fd = Some (ch_events (chans w c), c)"
    using assms(1) b by (simp add: poller_inv_def)
  moreover have "interest (trace ?w) ?ep ?fd = None"
    using assms(7,8) unfolding add_call_def by (simp add: interest_append [of _ "[_, _]"] accept_call_def)
  moreover have "believed el ?w ?fd = believed el w ?fd"
    by (auto simp: believed_def add_call_def split: option.split)
  ultimately show ?thesis
    using acceptor_handleRead_error [OF assms(2)] b unfolding poller_inv_def
    by (intro exI [of _ ?w]) (auto simp: add_call_def)
qed

text \<open>A loop that listens on descriptor 7, and a kernel on which \<open>accept\<close> has to be tried again.\<close>

definition nothing_to_accept :: "trace \<Rightarrow> syscall \<Rightarrow> sysret" where
  "nothing_to_accept tr s = (case s of
       SysAccept4 fd f \<Rightarrow> (quiet_kernel tr s)\<lparr>ret_n := -1, ret_err := Some EAGAIN\<rparr>
     | _ \<Rightarrow> quiet_kernel tr s)"

definition listening :: world where
  "listening = (blank_world nothing_to_accept)\<lparr>n_chans := 1, n_loops := 1,
     chans := (\<lambda>_. blank_channel\<lparr>ch_fd := 7, ch_events := eventRead, ch_index := channelAdd\<rparr>),
     loops := (\<lambda>_. blank_loop\<lparr>el_poller := \<lparr>po_epollFd = 3, po_eventList = [],
       po_channelMap = (\<lambda>_. None)(7 := Some 0)\<rparr>\<rparr>),
     trace := [(SysEpollCtl 3 EPOLL_CTL_ADD 7 eventRead 0, quiet_kernel [] SysNow)],
     acceptors := (\<lambda>_. blank_acceptor\<lparr>ac_so := 7, ac_listening := True\<rparr>)\<rparr>"

lemma listening_inv: "poller_inv 0 listening"
  by (simp add: listening_def blank_defs poller_inv_def chans_of_def believed_def index_consts
      interest_def quiet_kernel_def)

theorem acceptor_error_closes_witness:
  "\<exists>w'. acceptor_handleRead (\<lambda>_ _ _. go_ret ()) 0 5 listening = Inr ((), w') \<and>
     interest (trace w') 3 7 = None \<and> \<not> poller_inv 0 w'"
proof -
  have l: "ret_err (accept_result 0 listening) \<noteq> None" "ac_ch (acceptors listening 0) = 0"
    "ac_so (acceptors listening 0) = 7" "po_epollFd (poller_of 0 listening) = 3"
    "ret_err (env listening tr (SysClose fd)) = None" "0 \<in> chans_of 0 listening"
    "ch_index (chans listening 0) = channelAdd" "ch_fd (chans listening 0) = 7" for tr fd
    by (simp_all add: listening_def blank_defs accept_result_def accept_call_def nothing_to_accept_def
        quiet_kernel_def chans_of_def)
  show ?thesis
    using acceptor_error_closes [OF listening_inv l(1,2,6,7), of "\<lambda>_ _ _. go_ret ()" 5] by (auto simp: l)
qed

text \<open>
  A kernel that refuses to bind an IPv6 address to descriptor \<open>fd\<close>, as Linux does for a socket
  of family \<open>AF_INET\<close>.
\<close>

definition refuses_inet6 :: "(trace \<Rightarrow> syscall \<Rightarrow> sysret) \<Rightarrow> int \<Rightarrow> bool" where
  "refuses_inet6 e fd \<longleftrightarrow>
     (\<forall>tr port zone addr. ret_err (e tr (SysBind fd (SockaddrInet6 port zone addr))) = Some EAFNOSUPPORT)"

definition listen_socket :: syscall where
  "listen_socket = SysSocket AF_INET (or (or SOCK_STREAM SOCK_NONBLOCK) SOCK_CLOEXEC) IPPROTO_TCP"

text \<open>
  A server on an IPv6 address cannot be made. \<open>GetTCPSockAddr\<close> gives an IPv6 socket
  address, but the socket is always made for \<open>AF_INET\<close>; the kernel refuses, and \<open>newAcceptor\<close>
  and with it \<open>NewTcpServer\<close> panic.
\<close>

theorem ipv6_server_panics:
  assumes "parseProtoAddr addr = (network, address)" and "ResolveTCPAddr (net w) network address = Inr t"
    and "length (ta_IP t) = 16" and "To4 (ta_IP t) = None"
    and "ret_err (env w (trace w) listen_socket) = None"
    and "refuses_inet6 (env w) (ret_n (env w (trace w) listen_socket))"
  shows "NewTcpServer el name addr cnt w = Inl (PanicErr (Errno EAFNOSUPPORT))"
proof -
  have "To16 (ta_IP t) = Some (ta_IP t)"
    using assms(3) by (simp add: To16_def)
  then have "\<exists>zone ip. GetTCPSockAddr (net w) network address =
      Inr (SockaddrInet6 (ta_Port t) zone ip, AF_INET6, t, True)"
    using assms(2-4)
    by (auto simp: GetTCPSockAddr_def determineTCPProto_def ipToSockaddr_def ipToSockaddrInet6_def Let_def To16_def
        IPv6zero_def split: option.splits)
  then obtain zone ip where sa: "GetTCPSockAddr (net w) network address =
      Inr (SockaddrInet6 (ta_Port t) zone ip, AF_INET6, t, True)"
    by blast
  let ?fd = "ret_n (env w (trace w) listen_socket)"
  have "socket_bind ?fd network address v = Inl (PanicErr (Errno EAFNOSUPPORT))"
    if "net v = net w" "env v = env w" for v
    using that sa assms(6) by (simp add: socket_bind_def refuses_inet6_def go_defs sys_def Let_def)
  moreover have "newSocket w = Inr (?fd, add_call listen_socket w)"
    using assms(5) unfolding newSocket_def sysSocket_def listen_socket_def [symmetric]
    by (simp add: go_defs sys_def Let_def add_call_def)
  ultimately have "newAcceptor el addr None w = Inl (PanicErr (Errno EAFNOSUPPORT))"
    using assms(1) by (simp add: newAcceptor_def NewChannel_def setReuseAddr_def go_bind_def go_ret_def world_defs
        Let_def add_call_def)
  then show ?thesis
    by (simp add: NewTcpServer_def go_bind_def)
qed

definition no_inet6_bind :: "trace \<Rightarrow> syscall \<Rightarrow> sysret" where
  "no_inet6_bind tr s = (case s of
       SysBind fd (SockaddrInet6 p z a) \<Rightarrow> (quiet_kernel tr s)\<lparr>ret_err := Some EAFNOSUPPORT\<rparr>
     | _ \<Rightarrow> quiet_kernel tr s)"

theorem ipv6_server_panics_witness:
  "NewTcpServer 0 ''srv'' ''[fe80::1]:80'' 0 (blank_world no_inet6_bind\<lparr>net := two_hosts\<rparr>) =
     Inl (PanicErr (Errno EAFNOSUPPORT))"
proof -
  let ?w = "blank_world no_inet6_bind\<lparr>net := two_hosts\<rparr>"
  let ?t = "\<lparr>ta_IP = 0xfe # 0x80 # replicate 13 0 @ [1], ta_Port = 80, ta_Zone = ''eth0''\<rparr> :: tcpAddr"
  have "refuses_inet6 (env ?w) (ret_n (env ?w (trace ?w) listen_socket))"
    by (simp add: refuses_inet6_def blank_world_def no_inet6_bind_def)
  moreover have "ret_err (env ?w (trace ?w) listen_socket) = None"
    by (simp add: blank_world_def no_inet6_bind_def listen_socket_def quiet_kernel_def)
  moreover have "To4 (ta_IP ?t) = None"
    by code_simp
  moreover have "parseProtoAddr ''[fe80::1]:80'' = (''tcp'', ''[fe80::1]:80'')"
    by code_simp
  moreover have "length (ta_IP ?t) = 16" "ResolveTCPAddr (net ?w) ''tcp'' ''[fe80::1]:80'' = Inr ?t"
    by (simp_all add: two_hosts_def)
  ultimately show ?thesis
    by (intro ipv6_server_panics [where t = ?t]) auto
qed

end
