(* ===== verification/Connector.thy ===== *)
theory Connector
  imports Eventloop Socket
begin

text \<open>
  \<open>connector.go\<close>: making an outgoing connection, with retries. The function that takes over
  the connected descriptor is run by the parameter \<open>kcb\<close>.
\<close>

section \<open>The connector\<close>

definition NewConnector :: "loop_ptr \<Rightarrow> string \<Rightarrow> connectCallback option \<Rightarrow>
    (world, goerror + connector_ptr) go" where
  "NewConnector el svrAddr cb =
     go_bind (go_gets net) (\<lambda>rs.
     let (network, addr) = parseProtoAddr svrAddr in
     case GetTCPSockAddr rs network addr of
       Inl err \<Rightarrow> go_ret (Inl err)
     | Inr (sa, _, _, _) \<Rightarrow>
         go_bind (new_connector \<lparr>cn_el = el, cn_svrAddr = svrAddr, cn_unixSvrAddr = sa,
           cn_connect = False, cn_state = connectorDisconnected, cn_ch = None, cn_cb = cb,
           cn_retryDelay = 500000000, cn_tt = None\<rparr>) (\<lambda>c.
         go_ret (Inr c)))"

definition connector_Start :: "connector_ptr \<Rightarrow> (world, unit) go" where
  "connector_Start c =
     go_seq (upd_connector c (\<lambda>x. x\<lparr>cn_connect := True\<rparr>)) (
     go_bind (go_gets (\<lambda>w. cn_el (connectors w c))) (\<lambda>el.
     AsyncExecute el (TkConnectorStart c)))"

definition connector_Stop :: "connector_ptr \<Rightarrow> (world, unit) go" where
  "connector_Stop c =
     go_seq (upd_connector c (\<lambda>x. x\<lparr>cn_connect := False\<rparr>)) (
     go_bind (go_gets (\<lambda>w. cn_tt (connectors w c))) (\<lambda>tt.
     case tt of None \<Rightarrow> go_ret () | Some t \<Rightarrow> Cancel t))"

text \<open>The delay doubles up to thirty seconds; the numbers are exact as \<open>float64\<close>.\<close>

definition next_delay :: "duration \<Rightarrow> duration" where
  "next_delay d = min (d * 2) 30000000000"

definition retry :: "connector_ptr \<Rightarrow> int \<Rightarrow> (world, unit) go" where
  "retry c fd =
     go_bind (sys (SysClose fd)) (\<lambda>_.
     go_seq (upd_connector c (\<lambda>x. x\<lparr>cn_state := connectorDisconnected\<rparr>)) (
     go_bind (go_gets (\<lambda>w. connectors w c)) (\<lambda>x.
     go_when (cn_connect x)
       (go_bind (AsyncScheduleDelay (cn_el x) (ToConnectorStart c) (cn_retryDelay x)) (\<lambda>tt.
        go_seq (upd_connector c (\<lambda>x. x\<lparr>cn_tt := Some tt\<rparr>))
          (upd_connector c (\<lambda>x. x\<lparr>cn_retryDelay := next_delay (cn_retryDelay x)\<rparr>)))))))"

definition connecting :: "connector_ptr \<Rightarrow> int \<Rightarrow> (world, unit) go" where
  "connecting c fd =
     go_seq (upd_connector c (\<lambda>x. x\<lparr>cn_state := connectorConnecting\<rparr>)) (
     go_bind (go_gets (\<lambda>w. cn_el (connectors w c))) (\<lambda>el.
     go_bind (NewChannel el fd) (\<lambda>ch.
     go_seq (upd_connector c (\<lambda>x. x\<lparr>cn_ch := Some ch\<rparr>)) (
     go_seq (setWriteCallback ch (EcConnectorWrite c)) (
     go_seq (setErrorCallback ch (EcConnectorError c))
       (enableWriting ch))))))"

definition connect0 :: "connector_ptr \<Rightarrow> (world, unit) go" where
  "connect0 c =
     go_bind (sysSocket AF_INET SOCK_STREAM IPPROTO_TCP) (\<lambda>so.
     case so of
       Inl err \<Rightarrow> go_panic (PanicErr err)
     | Inr fd \<Rightarrow>
         go_bind (go_gets (\<lambda>w. cn_unixSvrAddr (connectors w c))) (\<lambda>sa.
         go_bind (sys (SysConnect fd sa)) (\<lambda>r.
         case ret_err r of
           None \<Rightarrow> connecting c fd
         | Some err \<Rightarrow>
             if err \<in> {EINPROGRESS, EINTR, EISCONN} then connecting c fd
             else if err \<in> {EAGAIN, EADDRINUSE, EADDRNOTAVAIL, ECONNREFUSED, ENETUNREACH} then retry c fd
             else if err \<in> {EACCES, EPERM, EAFNOSUPPORT, EALREADY, EBADF, EFAULT, ENOTSOCK}
             then go_bind (sys (SysClose fd)) (\<lambda>_. go_ret ())
             else go_bind (sys (SysClose fd)) (\<lambda>_. go_ret ()))))"

definition connector_start :: "connector_ptr \<Rightarrow> (world, unit) go" where
  "connector_start c =
     go_bind (go_gets (\<lambda>w. cn_connect (connectors w c))) (\<lambda>connect.
     if connect then connect0 c else go_ret ())"

definition Restart :: "connector_ptr \<Rightarrow> (world, unit) go" where
  "Restart c =
     go_seq (upd_connector c (\<lambda>x. x\<lparr>cn_connect := True\<rparr>)) (
     go_seq (upd_connector c (\<lambda>x. x\<lparr>cn_state := connectorDisconnected\<rparr>)) (
     go_seq (upd_connector c (\<lambda>x. x\<lparr>cn_retryDelay := 500000000\<rparr>))
       (connector_start c)))"

definition removeAndResetChannel :: "connector_ptr \<Rightarrow> (world, int) go" where
  "removeAndResetChannel c =
     go_bind (go_gets (\<lambda>w. connectors w c)) (\<lambda>x.
     case cn_ch x of
       None \<Rightarrow> go_panic NilDereference
     | Some ch \<Rightarrow>
         go_seq (disableAll ch) (
         go_seq (loop_removeChannel (cn_el x) ch) (
         go_bind (go_gets (\<lambda>w. ch_fd (chans w ch))) (\<lambda>fd.
         go_seq (AsyncExecute (cn_el x) (TkConnectorNoChannel c)) (go_ret fd)))))"

text \<open>The closure that \<open>removeAndResetChannel\<close> submits.\<close>

definition noChannelTask :: "connector_ptr \<Rightarrow> (world, unit) go" where
  "noChannelTask c = upd_connector c (\<lambda>x. x\<lparr>cn_ch := None\<rparr>)"

text \<open>
  The value that \<open>GetsockoptInt\<close> returns is not looked at, only whether the call itself failed.
\<close>

definition connector_handleWrite :: "(connectCallback \<Rightarrow> int \<Rightarrow> (world, unit) go) \<Rightarrow> connector_ptr \<Rightarrow>
    (world, unit) go" where
  "connector_handleWrite kcb c =
     go_bind (go_gets (\<lambda>w. cn_state (connectors w c))) (\<lambda>state.
     if state = connectorConnecting then
       go_bind (removeAndResetChannel c) (\<lambda>fd.
       go_bind (sys (SysGetsockoptInt fd SOL_SOCKET SO_ERROR)) (\<lambda>r.
       if ret_err r \<noteq> None then retry c fd
       else
         go_seq (upd_connector c (\<lambda>x. x\<lparr>cn_state := connectorConnected\<rparr>)) (
         go_bind (go_gets (\<lambda>w. connectors w c)) (\<lambda>x.
         if cn_connect x then
           (case cn_cb x of None \<Rightarrow> go_panic NilDereference | Some k \<Rightarrow> kcb k fd)
         else go_bind (sys (SysClose fd)) (\<lambda>_. go_ret ())))))
     else go_ret ())"

definition connector_handleError :: "connector_ptr \<Rightarrow> (world, unit) go" where
  "connector_handleError c =
     go_bind (go_gets (\<lambda>w. cn_state (connectors w c))) (\<lambda>state.
     if state = connectorConnecting then
       go_bind (removeAndResetChannel c) (\<lambda>fd. retry c fd)
     else go_ret ())"

section \<open>Retrying\<close>

text \<open>
  The effect of a retry while the user wants the connection: the socket is closed, the
  connector is disconnected, and a task that starts again is on its way to the timer queue.
\<close>

definition retried :: "connector_ptr \<Rightarrow> int \<Rightarrow> world \<Rightarrow> world \<Rightarrow> bool" where
  "retried c fd w w' \<longleftrightarrow> (let x = connectors w c; tt = n_timers w in
     connectors w' = (connectors w)(c := x\<lparr>cn_state := connectorDisconnected, cn_tt := Some tt,
       cn_retryDelay := next_delay (cn_retryDelay x)\<rparr>) \<and>
     n_timers w' = Suc tt \<and> (\<forall>p < tt. timers w' p = timers w p) \<and> set (trace w) \<subseteq> set (trace w') \<and>
     (\<exists>r. (SysClose fd, r) \<in> set (trace w')) \<and>
     (\<exists>r. (SysNow, r) \<in> set (trace w') \<and> timers w' tt =
        \<lparr>tt_tq = cn_el x, tt_expire = ret_n r + cn_retryDelay x, tt_interval = 0, tt_repeat = False,
         tt_cb = ToConnectorStart c, tt_index = -1, tt_canceled = False\<rparr>) \<and>
     loops w' = (loops w)(cn_el x := (loops w (cn_el x))\<lparr>el_pendingTasks :=
       el_pendingTasks (loops w (cn_el x)) @ [TkAddTask0 (cn_el x) tt]\<rparr>))"

lemma retry_wp: "cn_connect (connectors w c) \<Longrightarrow> wp no_panic (retry c fd) (\<lambda>_. retried c fd w) w"
  by (auto simp: retry_def AsyncScheduleDelay_def time_Now_def retried_def Let_def with_task_def)

text \<open>The delay before the attempt after \<open>k\<close> failures.\<close>

definition backoff :: "nat \<Rightarrow> duration" where
  "backoff k = min (500000000 * 2 ^ k) 30000000000"

lemma backoff_0: "backoff 0 = 500000000" and backoff_Suc: "next_delay (backoff k) = backoff (Suc k)"
  by (simp_all add: backoff_def next_delay_def min_def)

lemma retries:
  assumes "cn_connect (connectors w c)" and "cn_retryDelay (connectors w c) = 500000000"
  shows "wp no_panic (go_for fds (retry c)) (\<lambda>_ w'. cn_connect (connectors w' c) \<and>
    cn_el (connectors w' c) = cn_el (connectors w c) \<and>
    cn_retryDelay (connectors w' c) = backoff (length fds) \<and> n_timers w' = n_timers w + length fds \<and>
    set (trace w) \<subseteq> set (trace w') \<and>
    (\<forall>i < length fds. (\<exists>r. (SysClose (fds ! i), r) \<in> set (trace w')) \<and>
       TkAddTask0 (cn_el (connectors w c)) (n_timers w + i) \<in>
         set (el_pendingTasks (loops w' (cn_el (connectors w c)))) \<and>
       tt_cb (timers w' (n_timers w + i)) = ToConnectorStart c \<and>
       (\<exists>r. (SysNow, r) \<in> set (trace w') \<and> tt_expire (timers w' (n_timers w + i)) = ret_n r + backoff i))) w"
proof (induction fds rule: rev_induct)
  case Nil
  then show ?case
    using assms by (simp add: backoff_0)
next
  case (snoc fd fds)
  show ?case
    unfolding go_for_append wp_seq
  proof (rule wp_mono [OF snoc], goal_cases)
    case (1 a v)
    then have "wp no_panic (retry c fd) (\<lambda>_. retried c fd v) v"
      by (intro retry_wp) simp
    then show ?case
      unfolding go_for.simps wp_seq wp_ret
      by (rule wp_mono)
        (use 1 in \<open>auto simp: retried_def Let_def backoff_Suc less_Suc_eq nth_append subset_iff; blast\<close>)
  qed simp
qed

section \<open>Connecting\<close>

lemma connecting_wp:
  assumes "poller_inv el w" and "epoll_ctl_spec (env w)" and "legal_trace (trace w)"
    and "cn_el (connectors w c) = el" and "po_channelMap (poller_of el w) fd = None"
  shows "wp no_panic (connecting c fd) (\<lambda>_ w'. poller_inv el w' \<and> legal_trace (trace w') \<and>
    connectors w' = (connectors w)(c := (connectors w c)\<lparr>cn_state := connectorConnecting, cn_ch := Some (n_chans w)\<rparr>) \<and>
    ch_fd (chans w' (n_chans w)) = fd \<and> ch_index (chans w' (n_chans w)) = channelAdd \<and>
    n_chans w \<in> chans_of el w' \<and>
    ch_writeCallback (chans w' (n_chans w)) = Some (EcConnectorWrite c) \<and>
    ch_errorCallback (chans w' (n_chans w)) = Some (EcConnectorError c) \<and>
    interest (trace w') (po_epollFd (poller_of el w)) fd = Some (eventWrite, n_chans w)) w"
proof -
  let ?ch = "n_chans w"
  let ?x = "\<lparr>ch_ele = None, ch_el = el, ch_fd = fd, ch_events = eventNone, ch_revents = 0,
        ch_index = channelNew, ch_readCallback = None, ch_writeCallback = Some (EcConnectorWrite c),
        ch_errorCallback = Some (EcConnectorError c), ch_closeCallback = None, ch_evtHandling = False\<rparr>"
  define v where "v = w\<lparr>chans := (chans w)(?ch := ?x), n_chans := Suc ?ch, connectors := (connectors w)(c :=
    (connectors w c)\<lparr>cn_state := connectorConnecting, cn_ch := Some ?ch\<rparr>)\<rparr>"
  have "poller_inv el (w\<lparr>chans := (chans w)(?ch := ?x), n_chans := Suc ?ch\<rparr>)"
    using poller_inv_new_chan [OF assms(1), of ?x] by simp
  then have "poller_inv el v"
    by (rule poller_inv_cong) (simp_all add: v_def)
  moreover have "chan_ready el ?ch v" and el: "ch_el (chans v ?ch) = el"
    using assms(5) by (simp_all add: chan_ready_def chans_of_def v_def)
  ultimately have on: "wp no_panic (enableWriting ?ch) (\<lambda>_ w'. poller_inv el w' \<and>
      registered el ?ch (eventNone OR eventWrite) v w' \<and> legal_trace (trace w')) v"
    using set_events_inv [of el v ?ch "\<lambda>e. e OR eventWrite"] assms(2,3)
    by (simp add: set_events_instances v_def)
  have "wp any_panic (enableWriting ?ch) (\<lambda>_. poller_frame el ?ch v) v"
    using set_events_frame [OF el] by (simp add: set_events_instances)
  with on obtain w' where w': "enableWriting ?ch v = Inr ((), w')" "poller_inv el w'" "legal_trace (trace w')"
    "registered el ?ch (eventNone OR eventWrite) v w'" "poller_frame el ?ch v w'"
    by (auto simp: wp_def split: sum.splits)
  have "eventNone OR eventWrite = eventWrite"
    by (simp add: eventNone_def eventWrite_def)
  moreover have "connecting c fd w = enableWriting ?ch v"
    using assms(4) by (simp add: connecting_def NewChannel_def setWriteCallback_def setErrorCallback_def
        go_defs world_defs v_def) (rule arg_cong [where f = "enableWriting _"], rule world.equality, simp_all)
  ultimately show ?thesis
    using w' poller_frame_fields [OF w'(5)]
    by (simp add: wp_def) (simp add: registered_def index_after_def index_consts poller_frame_def v_def chans_of_def)
qed

section \<open>Properties\<close>

text \<open>
  C28: exponential back-off. Every retry closes its socket and schedules the next attempt; the
  attempt after \<open>i\<close> failures comes \<open>min (0.5 s * 2 ^ i) (30 s)\<close> after the time read when the
  failure was handled, for any number of failures in a row.
\<close>

theorem connector_backoff:
  assumes "cn_connect (connectors w c)" and "cn_retryDelay (connectors w c) = 500000000"
  shows "wp no_panic (go_for fds (retry c)) (\<lambda>_ w'.
    cn_retryDelay (connectors w' c) = backoff (length fds) \<and> n_timers w' = n_timers w + length fds \<and>
    (\<forall>i < length fds. (\<exists>r. (SysClose (fds ! i), r) \<in> set (trace w')) \<and>
       TkAddTask0 (cn_el (connectors w c)) (n_timers w + i) \<in>
         set (el_pendingTasks (loops w' (cn_el (connectors w c)))) \<and>
       tt_cb (timers w' (n_timers w + i)) = ToConnectorStart c \<and>
       (\<exists>r. (SysNow, r) \<in> set (trace w') \<and> tt_expire (timers w' (n_timers w + i)) = ret_n r + backoff i))) w"
  by (rule wp_mono [OF retries [OF assms]]) auto

text \<open>A loop with one connector that has been told to connect.\<close>

definition one_connector :: "connector \<Rightarrow> world" where
  "one_connector x = off_channel\<lparr>connectors := (\<lambda>_. x), n_connectors := 1\<rparr>"

definition eager :: connector where
  "eager = blank_connector\<lparr>cn_connect := True, cn_cb := Some (KcUser 0)\<rparr>"

theorem connector_backoff_witness:
  "wp no_panic (go_for [5, 6, 7] (retry 0)) (\<lambda>_ w'. cn_retryDelay (connectors w' 0) = backoff 3) (one_connector eager)"
  using connector_backoff [of "one_connector eager" 0 "[5, 6, 7]"]
  by (auto simp: one_connector_def eager_def blank_connector_def numeral_3_eq_3 elim!: wp_mono)

text \<open>
  What \<open>connect0\<close> does before it looks at the outcome: the socket it gets, and the outcome of
  \<open>connect\<close> on it.
\<close>

definition stream_socket :: syscall where
  "stream_socket = SysSocket AF_INET (or (or SOCK_STREAM SOCK_NONBLOCK) SOCK_CLOEXEC) IPPROTO_TCP"

definition new_fd :: "world \<Rightarrow> int" where
  "new_fd w = ret_n (env w (trace w) stream_socket)"

definition connect_call :: "connector_ptr \<Rightarrow> world \<Rightarrow> syscall" where
  "connect_call c w = SysConnect (new_fd w) (cn_unixSvrAddr (connectors w c))"

definition connect_error :: "connector_ptr \<Rightarrow> world \<Rightarrow> errno option" where
  "connect_error c w = ret_err (env w (trace (add_call stream_socket w)) (connect_call c w))"

definition tried :: "connector_ptr \<Rightarrow> world \<Rightarrow> world" where
  "tried c w = add_call (connect_call c w) (add_call stream_socket w)"

definition underway :: "errno option \<Rightarrow> bool" where
  "underway e \<longleftrightarrow> e \<in> {None, Some EINPROGRESS, Some EINTR, Some EISCONN}"

definition transient :: "errno option \<Rightarrow> bool" where
  "transient e \<longleftrightarrow> e \<in> Some ` {EAGAIN, EADDRINUSE, EADDRNOTAVAIL, ECONNREFUSED, ENETUNREACH}"

lemma outcome_Some:
  "underway (Some e) \<longleftrightarrow> e \<in> {EINPROGRESS, EINTR, EISCONN}" "underway None"
  "transient (Some e) \<longleftrightarrow> e \<in> {EAGAIN, EADDRINUSE, EADDRNOTAVAIL, ECONNREFUSED, ENETUNREACH}"
  by (auto simp: underway_def transient_def)

lemma connect0_unfold:
  assumes "ret_err (env w (trace w) stream_socket) = None"
  shows "connect0 c w =
    (if underway (connect_error c w) then connecting c (new_fd w)
     else if transient (connect_error c w) then retry c (new_fd w)
     else go_bind (sys (SysClose (new_fd w))) (\<lambda>_. go_ret ())) (tried c w)"
proof -
  have "connect0 c w = (case connect_error c w of
      None \<Rightarrow> connecting c (new_fd w)
    | Some e \<Rightarrow> if e \<in> {EINPROGRESS, EINTR, EISCONN} then connecting c (new_fd w)
        else if e \<in> {EAGAIN, EADDRINUSE, EADDRNOTAVAIL, ECONNREFUSED, ENETUNREACH} then retry c (new_fd w)
        else go_bind (sys (SysClose (new_fd w))) (\<lambda>_. go_ret ())) (tried c w)"
    using assms unfolding connect0_def sysSocket_def stream_socket_def [symmetric] if_cancel
    by (simp add: go_bind_def [of "sys _"] go_bind_def [of "go_gets _"] go_bind_def [of "go_bind _ _"] go_gets_def
        go_ret_def sys_def Let_def tried_def connect_error_def connect_call_def new_fd_def add_call_def
        split: option.split del: insert_iff)
  then show ?thesis
    by (cases "connect_error c w") (simp_all only: outcome_Some option.case if_True)
qed

lemma legal_add_call: "inert s \<Longrightarrow> legal_trace (trace w) \<Longrightarrow> legal_trace (trace (add_call s w))"
  using inert_step(2) [of "(s, undefined)"] by (simp add: add_call_def)

lemma tried_ok:
  "poller_inv el w \<Longrightarrow> poller_inv el (tried c w)" "legal_trace (trace w) \<Longrightarrow> legal_trace (trace (tried c w))"
  unfolding tried_def by (intro poller_inv_add_call legal_add_call; simp add: inert_def connect_call_def stream_socket_def)+

text \<open>
  C27: the three outcomes of an attempt. If the connection is made or under way, the connector
  waits for the socket to become writable, watched by the kernel, with its two handlers
  installed; after an error that may pass it retries; after any other error the socket is
  closed and nothing else happens.
\<close>

theorem connect0_outcomes:
  assumes "poller_inv el w" and "epoll_ctl_spec (env w)" and "legal_trace (trace w)"
    and "cn_el (connectors w c) = el" and "cn_connect (connectors w c)"
    and "ret_err (env w (trace w) stream_socket) = None" and "po_channelMap (poller_of el w) (new_fd w) = None"
  shows "(underway (connect_error c w) \<longrightarrow> wp no_panic (connect0 c) (\<lambda>_ w'. poller_inv el w' \<and>
      cn_state (connectors w' c) = connectorConnecting \<and> cn_ch (connectors w' c) = Some (n_chans w) \<and>
      ch_writeCallback (chans w' (n_chans w)) = Some (EcConnectorWrite c) \<and>
      ch_errorCallback (chans w' (n_chans w)) = Some (EcConnectorError c) \<and>
      interest (trace w') (po_epollFd (poller_of el w)) (new_fd w) = Some (eventWrite, n_chans w)) w) \<and>
    (transient (connect_error c w) \<longrightarrow> wp no_panic (connect0 c) (\<lambda>_. retried c (new_fd w) (tried c w)) w) \<and>
    (\<not> underway (connect_error c w) \<and> \<not> transient (connect_error c w) \<longrightarrow>
      connect0 c w = Inr ((), add_call (SysClose (new_fd w)) (tried c w)))"
proof (intro conjI impI)
  note unfold = connect0_unfold [OF assms(6), of c]
  have same: "env (tried c w) = env w" "connectors (tried c w) = connectors w" "loops (tried c w) = loops w"
    "n_chans (tried c w) = n_chans w" "legal_trace (trace (tried c w))"
    using tried_ok(2) [OF assms(3)] by (simp_all add: tried_def add_call_def)
  show "wp no_panic (connect0 c) (\<lambda>_ w'. poller_inv el w' \<and>
      cn_state (connectors w' c) = connectorConnecting \<and> cn_ch (connectors w' c) = Some (n_chans w) \<and>
      ch_writeCallback (chans w' (n_chans w)) = Some (EcConnectorWrite c) \<and>
      ch_errorCallback (chans w' (n_chans w)) = Some (EcConnectorError c) \<and>
      interest (trace w') (po_epollFd (poller_of el w)) (new_fd w) = Some (eventWrite, n_chans w)) w"
    if "underway (connect_error c w)"
  proof -
    have "connect0 c w = connecting c (new_fd w) (tried c w)"
      using that by (simp add: unfold)
    note go = wp_same [where m = "connect0 c" and m' = "connecting c (new_fd w)", OF this]
    show ?thesis
      unfolding go
      by (rule wp_mono [OF connecting_wp [OF tried_ok(1) [OF assms(1), of c],
            where fd = "new_fd w" and c = c, unfolded same,
            OF assms(2) same(5) assms(4,7)]]) simp_all
  qed
  show "wp no_panic (connect0 c) (\<lambda>_. retried c (new_fd w) (tried c w)) w" if "transient (connect_error c w)"
  proof -
    have "connect0 c w = retry c (new_fd w) (tried c w)"
      using that by (auto simp: unfold underway_def transient_def)
    note go = wp_same [where m = "connect0 c" and m' = "retry c (new_fd w)", OF this]
    show ?thesis
      unfolding go by (rule retry_wp) (simp add: same assms(5))
  qed
  show "connect0 c w = Inr ((), add_call (SysClose (new_fd w)) (tried c w))"
    if "\<not> underway (connect_error c w) \<and> \<not> transient (connect_error c w)"
    using that by (simp add: unfold go_defs sys_def Let_def add_call_def)
qed

lemma one_connector_ok:
  "poller_inv 0 (one_connector x)" "epoll_ctl_spec (env (one_connector x))" "legal_trace (trace (one_connector x))"
  "connectors (one_connector x) c = x" "env (one_connector x) = quiet_kernel" "trace (one_connector x) = []"
  "po_channelMap (poller_of 0 (one_connector x)) = [7 \<mapsto> 0]" "chans_of 0 (one_connector x) = {0}"
  "ch_index (chans (one_connector x) 0) = channelDel" "ch_fd (chans (one_connector x) 0) = 7"
proof -
  show "poller_inv 0 (one_connector x)"
    by (rule poller_inv_cong [OF off_channel_ok(1)]) (simp_all add: one_connector_def)
  show "connectors (one_connector x) c = x"
    by (simp add: one_connector_def)
qed (use off_channel_ok in \<open>auto simp: one_connector_def off_channel_def one_channel_def blank_defs chans_of_def quiet_kernel_spec\<close>)

theorem connect0_outcomes_witness:
  "wp no_panic (connect0 0) (\<lambda>_ w'. poller_inv 0 w' \<and> cn_state (connectors w' 0) = connectorConnecting) (one_connector eager)"
proof -
  have "underway (connect_error 0 (one_connector eager))" "new_fd (one_connector eager) = 0"
    "ret_err (env (one_connector eager) (trace (one_connector eager)) stream_socket) = None"
    by (simp_all add: underway_def connect_error_def new_fd_def connect_call_def stream_socket_def
        one_connector_ok quiet_kernel_def)
  then show ?thesis
    using connect0_outcomes [OF one_connector_ok(1-3), of eager 0]
    by (auto simp: one_connector_ok eager_def blank_connector_def elim!: wp_mono)
qed

text \<open>
  What \<open>removeAndResetChannel\<close> leaves behind: the descriptor is off epoll, poller and kernel
  agree, the connectors are as they were, and the channel will be dropped by a pending task.
\<close>

definition taken_off :: "connector_ptr \<Rightarrow> loop_ptr \<Rightarrow> int \<Rightarrow> world \<Rightarrow> world \<Rightarrow> bool" where
  "taken_off c el fd w v \<longleftrightarrow>
     poller_inv el v \<and> legal_trace (trace v) \<and> env v = env w \<and> connectors v = connectors w \<and>
     interest (trace v) (po_epollFd (poller_of el w)) fd = None \<and>
     TkConnectorNoChannel c \<in> set (el_pendingTasks (loops v el))"

lemma removeAndResetChannel_correct:
  assumes "poller_inv el w" and "epoll_ctl_spec (env w)" and "legal_trace (trace w)"
    and "connectors w c = x" and "cn_el x = el" and "cn_ch x = Some ch" and "ch \<in> chans_of el w"
    and "ch_index (chans w ch) \<noteq> channelNew"
  shows "\<exists>v. removeAndResetChannel c w = Inr (ch_fd (chans w ch), v) \<and> taken_off c el (ch_fd (chans w ch)) w v"
proof -
  let ?fd = "ch_fd (chans w ch)" and ?ep = "po_epollFd (poller_of el w)"
  obtain w1 w2 where off: "disableAll ch w = Inr ((), w1)" "removeChannel el ch w1 = Inr ((), w2)"
    and w2: "poller_inv el w2" "legal_trace (trace w2)" "poller_frame el ch w w2"
      "interest (trace w2) ?ep ?fd = None"
    using take_off [OF assms(1,2,7,8,3)] by (auto simp: wp_returns)
  have same: "env w2 = env w" "connectors w2 = connectors w" "ch_fd (chans w2 ch) = ?fd"
    using w2(3) poller_frame_fields(1) [OF w2(3)] by (simp_all add: poller_frame_def)
  define v where "v = add_call (SysWrite (el_evtFd (loops w2 el)) [1, 0, 0, 0, 0, 0, 0, 0])
    (set_loop el (\<lambda>l. l\<lparr>el_pendingTasks := el_pendingTasks l @ [TkConnectorNoChannel c]\<rparr>) w2)"
  have "AsyncExecute el (TkConnectorNoChannel c) w2 = Inr ((), v)"
    by (simp add: AsyncExecute_def Wakeup_def go_defs world_defs v_def add_call_def set_loop_def Let_def)
  then have "removeAndResetChannel c w = Inr (?fd, v)"
    using assms(4-6) off same
    by (simp add: removeAndResetChannel_def loop_removeChannel_def go_bind_def go_seq_def go_gets_def go_ret_def)
  moreover have inert: "inert_ext (trace w2) (trace v)"
    by (simp add: v_def add_call_def set_loop_def inert_def)
  have "poller_inv el v"
    by (rule poller_inv_cong [OF w2(1)])
      (use inert_ext_interest [OF inert] in \<open>simp_all add: v_def add_call_def set_loop_def\<close>)
  then have "taken_off c el ?fd w v"
    using w2(2,4) inert_ext_interest [OF inert] inert_ext_legal [OF inert] same
    by (simp add: taken_off_def v_def add_call_def set_loop_def)
  ultimately show ?thesis
    by blast
qed

text \<open>
  C29: a connecting connector that learns that its socket is writable takes the socket off epoll and makes one
  call of \<open>getsockopt\<close>. If that call itself fails, the socket is closed, and the attempt is repeated
  after the retry delay if the user still wants the connection. Otherwise the connector counts as
  connected, and hands the descriptor to its callback if the connection is wanted and closes it if
  not. The value of \<open>SO_ERROR\<close> plays no role: a refused connection, which the kernel reports as a
  value of that option, is handed over as well.
\<close>

theorem connector_hands_over:
  assumes "poller_inv el w" and "epoll_ctl_spec (env w)" and "legal_trace (trace w)"
    and "connectors w c = x" and "cn_el x = el" and "cn_state x = connectorConnecting"
    and "cn_ch x = Some ch" and "ch \<in> chans_of el w" and "ch_index (chans w ch) \<noteq> channelNew"
  defines "fd \<equiv> ch_fd (chans w ch)"
  shows "\<exists>u r v. taken_off c el fd w u \<and>
    r = env w (trace u) (SysGetsockoptInt fd SOL_SOCKET SO_ERROR) \<and>
    v = u\<lparr>trace := trace u @ [(SysGetsockoptInt fd SOL_SOCKET SO_ERROR, r)]\<rparr> \<and>
    (if ret_err r \<noteq> None \<and> cn_connect x then
       wp no_panic (connector_handleWrite kcb c) (\<lambda>_. retried c fd v) w
     else if ret_err r \<noteq> None then connector_handleWrite kcb c w =
       Inr ((), (add_call (SysClose fd) v)\<lparr>connectors := (connectors w)(c := x\<lparr>cn_state := connectorDisconnected\<rparr>)\<rparr>)
     else if cn_connect x then connector_handleWrite kcb c w =
       (case cn_cb x of None \<Rightarrow> go_panic NilDereference | Some k \<Rightarrow> kcb k fd)
         (v\<lparr>connectors := (connectors w)(c := x\<lparr>cn_state := connectorConnected\<rparr>)\<rparr>)
     else connector_handleWrite kcb c w =
       Inr ((), add_call (SysClose fd) (v\<lparr>connectors := (connectors w)(c := x\<lparr>cn_state := connectorConnected\<rparr>)\<rparr>)))"
proof -
  obtain u where u: "removeAndResetChannel c w = Inr (fd, u)" "taken_off c el fd w u"
    using removeAndResetChannel_correct [OF assms(1-5,7-9)] by (auto simp: fd_def)
  have same: "env u = env w" "connectors u = connectors w"
    using u(2) by (simp_all add: taken_off_def)
  define r where "r = env w (trace u) (SysGetsockoptInt fd SOL_SOCKET SO_ERROR)"
  define v where "v = u\<lparr>trace := trace u @ [(SysGetsockoptInt fd SOL_SOCKET SO_ERROR, r)]\<rparr>"
  let ?v = "v\<lparr>connectors := (connectors w)(c := x\<lparr>cn_state := connectorConnected\<rparr>)\<rparr>"
  have run: "connector_handleWrite kcb c w =
      (if ret_err r \<noteq> None then retry c fd v
       else if cn_connect x then (case cn_cb x of None \<Rightarrow> go_panic NilDereference | Some k \<Rightarrow> kcb k fd) ?v
       else Inr ((), add_call (SysClose fd) ?v))"
    using assms(4,6) u(1) same
    by (simp add: connector_handleWrite_def go_defs sys_def Let_def upd_connector_def r_def v_def add_call_def
        split: option.splits)
  have "wp no_panic (retry c fd) (\<lambda>_. retried c fd v) v" if "cn_connect x"
    using that by (intro retry_wp) (simp add: v_def same assms(4))
  then have "wp no_panic (connector_handleWrite kcb c) (\<lambda>_. retried c fd v) w" if "ret_err r \<noteq> None" "cn_connect x"
    using that run by (simp add: wp_def)
  moreover have "retry c fd v =
      Inr ((), (add_call (SysClose fd) v)\<lparr>connectors := (connectors w)(c := x\<lparr>cn_state := connectorDisconnected\<rparr>)\<rparr>)"
    if "\<not> cn_connect x"
    using that by (simp add: retry_def go_defs sys_def upd_connector_def Let_def v_def same assms(4) add_call_def)
  ultimately show ?thesis
    using u(2) run by (intro exI [of _ u] exI [of _ r] exI [of _ v]) (auto simp: r_def [symmetric] v_def [symmetric])
qed

definition waiting_connector :: connector where
  "waiting_connector = eager\<lparr>cn_state := connectorConnecting, cn_ch := Some 0\<rparr>"

theorem connector_hands_over_witness:
  "(\<exists>v. connector_handleWrite (\<lambda>_ fd. upd_loop 0 (\<lambda>l. l\<lparr>el_evtFd := fd\<rparr>)) 0 (one_connector waiting_connector) =
      Inr ((), v) \<and> el_evtFd (loops v 0) = 7) \<and>
   (\<exists>v tr. connector_handleWrite (\<lambda>_ fd. go_panic NilDereference) 0
        (one_connector (waiting_connector\<lparr>cn_connect := False\<rparr>)) = Inr ((), v) \<and>
      map fst (trace v) = tr @ [SysClose 7])"
proof -
  have q: "ret_err (quiet_kernel tr (SysGetsockoptInt fd l opt)) = None" for tr fd l opt
    by (simp add: quiet_kernel_def)
  have x: "cn_el waiting_connector = 0" "cn_state waiting_connector = connectorConnecting" "cn_connect waiting_connector"
    "cn_ch waiting_connector = Some 0" "cn_cb waiting_connector = Some (KcUser 0)"
    by (simp_all add: waiting_connector_def eager_def blank_connector_def)
  show ?thesis
    using connector_hands_over [OF one_connector_ok(1-3), where x = waiting_connector and c = 0 and ch = 0
        and kcb = "\<lambda>_ fd. upd_loop 0 (\<lambda>l. l\<lparr>el_evtFd := fd\<rparr>)"]
      connector_hands_over [OF one_connector_ok(1-3), where x = "waiting_connector\<lparr>cn_connect := False\<rparr>" and c = 0
        and ch = 0 and kcb = "\<lambda>_ fd. go_panic NilDereference"]
    by (auto simp: one_connector_ok index_consts x q upd_loop_def go_modify_def add_call_def)
qed

end
