(* ===== verification/Tcp_Client.thy ===== *)
theory Tcp_Client
  imports Tcp_Conn Connector
begin

text \<open>
  \<open>tcp_client.go\<close>: a client that keeps one connection, made by its connector. The mutex
  protects the field \<open>conn\<close>; each critical section is one step here.
\<close>

section \<open>The client\<close>

definition NewTcpClient :: "loop_ptr \<Rightarrow> string \<Rightarrow> (world, goerror + client_ptr) go" where
  "NewTcpClient el svrAddr =
     go_bind (NewConnector el svrAddr None) (\<lambda>res.
     case res of
       Inl err \<Rightarrow> go_ret (Inl err)
     | Inr k \<Rightarrow>
         go_bind (new_client \<lparr>cl_el = el, cl_connector = k, cl_onConn = None, cl_onMsg = None,
           cl_onWriteComplete = None, cl_retry = False, cl_connect = True, cl_nextConnId = 1,
           cl_conn = None\<rparr>) (\<lambda>cli.
         go_seq (upd_connector k (\<lambda>x. x\<lparr>cn_cb := Some (KcClient cli)\<rparr>))
           (go_ret (Inr cli))))"

definition GetConn :: "client_ptr \<Rightarrow> (world, conn_ptr option) go" where
  "GetConn c = go_gets (\<lambda>w. cl_conn (clients w c))"

definition SetRetry :: "client_ptr \<Rightarrow> bool \<Rightarrow> (world, unit) go" where
  "SetRetry c b = upd_client c (\<lambda>x. x\<lparr>cl_retry := b\<rparr>)"

definition client_SetOnConn :: "client_ptr \<Rightarrow> nat option \<Rightarrow> (world, unit) go" where
  "client_SetOnConn c cb = upd_client c (\<lambda>x. x\<lparr>cl_onConn := cb\<rparr>)"

definition client_SetOnMsg :: "client_ptr \<Rightarrow> nat option \<Rightarrow> (world, unit) go" where
  "client_SetOnMsg c cb = upd_client c (\<lambda>x. x\<lparr>cl_onMsg := cb\<rparr>)"

definition Connect :: "client_ptr \<Rightarrow> (world, unit) go" where
  "Connect c =
     go_seq (upd_client c (\<lambda>x. x\<lparr>cl_connect := True\<rparr>)) (
     go_bind (go_gets (\<lambda>w. cl_connector (clients w c))) connector_Start)"

definition Disconnect :: "client_ptr \<Rightarrow> (world, unit) go" where
  "Disconnect c =
     go_seq (upd_client c (\<lambda>x. x\<lparr>cl_connect := False\<rparr>)) (
     go_bind (go_gets (\<lambda>w. cl_conn (clients w c))) (\<lambda>conn.
     case conn of None \<Rightarrow> go_ret () | Some p \<Rightarrow> ShutdownWrite p))"

definition client_Stop :: "client_ptr \<Rightarrow> (world, unit) go" where
  "client_Stop c =
     go_seq (upd_client c (\<lambda>x. x\<lparr>cl_connect := False\<rparr>)) (
     go_bind (go_gets (\<lambda>w. cl_connector (clients w c))) connector_Stop)"

definition Destroy :: "client_ptr \<Rightarrow> (world, unit) go" where
  "Destroy c =
     go_seq (upd_client c (\<lambda>x. x\<lparr>cl_connect := False\<rparr>)) (
     go_bind (go_gets (\<lambda>w. clients w c)) (\<lambda>x.
     go_seq (connector_Stop (cl_connector x)) (
     go_bind (GetConn c) (\<lambda>conn.
     case conn of
       Some p \<Rightarrow> AsyncExecute (cl_el x) (TkClientDestroy c p)
     | None \<Rightarrow>
         go_seq (connector_Stop (cl_connector x))
           (go_bind (AsyncScheduleDelay (cl_el x) ToNothing 1000000000) (\<lambda>_. go_ret ()))))))"

text \<open>The closures of \<open>Destroy\<close>: the task, and the function it installs.\<close>

definition clientDestroyTask :: "client_ptr \<Rightarrow> conn_ptr \<Rightarrow> (world, unit) go" where
  "clientDestroyTask c conn = setOnClose conn (Some (CcClientDestroy c))"

definition clientDestroyClose :: "client_ptr \<Rightarrow> conn_ptr \<Rightarrow> (world, unit) go" where
  "clientDestroyClose c conn =
     go_bind (go_gets (\<lambda>w. cl_el (clients w c))) (\<lambda>el.
     AsyncExecute el (TkConnectDestroyed conn))"

definition client_newConn :: "(nat \<Rightarrow> conn_ptr \<Rightarrow> (world, unit) go) \<Rightarrow> client_ptr \<Rightarrow> int \<Rightarrow> (world, unit) go" where
  "client_newConn ucb c fd =
     go_bind (go_gets (\<lambda>w. clients w c)) (\<lambda>x.
     go_bind (go_gets net) (\<lambda>rs.
     go_bind (go_gets (\<lambda>w. cn_unixSvrAddr (connectors w (cl_connector x)))) (\<lambda>sa.
     go_bind (SockaddrToTCPOrUnixAddr rs (Some sa)) (\<lambda>peerAddr.
     go_bind (GetLocalAddr fd) (\<lambda>res.
     case res of
       Inl err \<Rightarrow> go_ret ()
     | Inr localAddr \<Rightarrow>
         go_bind (addr_String localAddr) (\<lambda>l.
         go_bind (addr_String peerAddr) (\<lambda>p.
         let name = l @ ''-'' @ p @ ''#'' @ decimal (unat (cl_nextConnId x)) in
         go_seq (upd_client c (\<lambda>x. x\<lparr>cl_nextConnId := cl_nextConnId x + 1\<rparr>)) (
         go_bind (NewTcpConn (cl_el x) name fd localAddr peerAddr) (\<lambda>conn.
         go_bind (SetTcpNoDelay conn True) (\<lambda>_.
         go_seq (SetOnConn conn (cl_onConn x)) (
         go_seq (SetOnMsg conn (cl_onMsg x)) (
         go_seq (SetOnWriteComplete conn (cl_onWriteComplete x)) (
         go_seq (setOnClose conn (Some (CcClient c))) (
         go_seq (upd_client c (\<lambda>x. x\<lparr>cl_conn := Some conn\<rparr>))
           (connectEstablished ucb conn)))))))))))))))"

definition client_removeConn :: "client_ptr \<Rightarrow> conn_ptr \<Rightarrow> (world, unit) go" where
  "client_removeConn c conn =
     go_seq (upd_client c (\<lambda>x. x\<lparr>cl_conn := None\<rparr>)) (
     go_bind (go_gets (\<lambda>w. clients w c)) (\<lambda>x.
     go_seq (AsyncExecute (cl_el x) (TkConnectDestroyed conn))
       (go_when (cl_retry x \<and> cl_connect x) (Restart (cl_connector x)))))"

section \<open>Connected\<close>

text \<open>The world in which a new connection of the client is opened.\<close>

definition client_conn :: "client_ptr \<Rightarrow> string \<Rightarrow> int \<Rightarrow> net_addr option \<Rightarrow> net_addr option \<Rightarrow> world \<Rightarrow> tcpConn" where
  "client_conn c name fd localAddr peerAddr w = (let x = clients w c in
     \<lparr>tc_el = cl_el x, tc_name = name, tc_so = fd, tc_ch = n_chans w, tc_localAddr = localAddr,
      tc_peerAddr = peerAddr, tc_state = Connecting, tc_onConn = cl_onConn x, tc_onMsg = cl_onMsg x,
      tc_onClose = Some (CcClient c), tc_onWriteComplete = cl_onWriteComplete x,
      tc_inbound = NewBuffer, tc_outbound = NewBuffer, tc_ctx = None\<rparr>)"

definition set_up :: "client_ptr \<Rightarrow> string \<Rightarrow> int \<Rightarrow> net_addr option \<Rightarrow> net_addr option \<Rightarrow> world \<Rightarrow> world" where
  "set_up c name fd localAddr peerAddr w =
     (add_call (SysSetsockoptInt fd IPPROTO_TCP TCP_NODELAY 1) (with_reader (cl_el (clients w c)) fd (RcConn (n_conns w)) w))
     \<lparr>conns := (conns w)(n_conns w := client_conn c name fd localAddr peerAddr w), n_conns := Suc (n_conns w),
      clients := (clients w)(c := (clients w c)\<lparr>cl_nextConnId := cl_nextConnId (clients w c) + 1,
        cl_conn := Some (n_conns w)\<rparr>)\<rparr>"

definition client_name :: "client_ptr \<Rightarrow> net_addr \<Rightarrow> net_addr \<Rightarrow> world \<Rightarrow> string" where
  "client_name c la pa w =
     addr_text la @ ''-'' @ addr_text pa @ ''#'' @ decimal (unat (cl_nextConnId (clients w c)))"

lemma client_newConn_unfold:
  fixes c :: client_ptr and w :: world and fd :: int
  defines "w1 \<equiv> add_call (SysGetsockname fd) w"
  assumes "ret_err (env w (trace w) (SysGetsockname fd)) = None"
    and "ret_addr (env w (trace w) (SysGetsockname fd)) = Some lsa" and "addr_of (net w) lsa = Some la"
    and "addr_of (net w) (cn_unixSvrAddr (connectors w (cl_connector (clients w c)))) = Some pa"
  shows "client_newConn ucb c fd w =
    connectEstablished ucb (n_conns w) (set_up c (client_name c la pa w) fd (Some la) (Some pa) w1)"
  using assms
  by (simp add: client_newConn_def GetLocalAddr_def SockaddrToTCPOrUnixAddr_result NewTcpConn_def
      NewChannel_def setReadCallback_def SetTcpNoDelay_def setTcpNoDelay_def SetOnConn_def SetOnMsg_def
      SetOnWriteComplete_def setOnClose_def client_name_def go_defs world_defs Let_def)
    (rule arg_cong [where f = "connectEstablished _ _"], rule world.equality,
      simp_all add: set_up_def with_reader_def add_call_def client_conn_def Let_def)

section \<open>Properties\<close>

text \<open>
  C30: a connected descriptor, which the loop does not know yet, becomes the client's connection. When \<open>getsockname\<close> succeeds and both
  addresses are of a known family, \<open>newConn\<close> makes exactly one new connection: it belongs to the
  client's loop, is named after the two addresses and the client's next number, has the client's
  callbacks and reports its end to the client. The number is counted up, the connection becomes the
  current one, it is opened and the kernel watches it for reading; \<open>onConn\<close> is called last, when the
  client already answers with the connection to \<open>GetConn\<close>.
\<close>

theorem client_newConn_opens:
  assumes "poller_inv el w" and "epoll_ctl_spec (env w)" and "legal_trace (trace w)" and "cl_el (clients w c) = el"
    and "po_channelMap (poller_of el w) fd = None" and "fd \<noteq> el_evtFd (loops w el)"
    and "ret_err (env w (trace w) (SysGetsockname fd)) = None"
    and "ret_addr (env w (trace w) (SysGetsockname fd)) = Some lsa" and "addr_of (net w) lsa = Some la"
    and "addr_of (net w) (cn_unixSvrAddr (connectors w (cl_connector (clients w c)))) = Some pa"
  shows "\<exists>v. client_newConn ucb c fd w =
      (case cl_onConn (clients w c) of None \<Rightarrow> go_ret () | Some k \<Rightarrow> ucb k (n_conns w)) v \<and>
    GetConn c v = Inr (Some (n_conns w), v) \<and>
    conns v = (conns w)(n_conns w :=
      \<lparr>tc_el = el, tc_name = addr_text la @ ''-'' @ addr_text pa @ ''#'' @ decimal (unat (cl_nextConnId (clients w c))),
       tc_so = fd, tc_ch = n_chans w, tc_localAddr = Some la, tc_peerAddr = Some pa, tc_state = Connected,
       tc_onConn = cl_onConn (clients w c), tc_onMsg = cl_onMsg (clients w c), tc_onClose = Some (CcClient c),
       tc_onWriteComplete = cl_onWriteComplete (clients w c),
       tc_inbound = NewBuffer, tc_outbound = NewBuffer, tc_ctx = None\<rparr>) \<and>
    clients v = (clients w)(c := (clients w c)\<lparr>cl_nextConnId := cl_nextConnId (clients w c) + 1,
      cl_conn := Some (n_conns w)\<rparr>) \<and>
    poller_inv el v \<and> interest (trace v) (po_epollFd (poller_of el w)) fd = Some (eventRead, n_chans w)"
proof -
  let ?w1 = "add_call (SysGetsockname fd) w" and ?conn = "n_conns w"
  let ?v = "set_up c (client_name c la pa w) fd (Some la) (Some pa) ?w1"
  have el: "conns ?v = (conns w)(?conn := client_conn c (client_name c la pa w) fd (Some la) (Some pa) w)"
    "loops ?v = loops w" "env ?v = env w"
    "chans ?v (n_chans w) = \<lparr>ch_ele = None, ch_el = el, ch_fd = fd, ch_events = eventNone, ch_revents = 0,
        ch_index = channelNew, ch_readCallback = Some (RcConn ?conn), ch_writeCallback = None,
        ch_errorCallback = None, ch_closeCallback = None, ch_evtHandling = False\<rparr>"
    "n_chans ?v = Suc (n_chans w)"
    using assms(4) by (simp_all add: set_up_def with_reader_def add_call_def client_conn_def Let_def)
  have cc: "tc_el (conns ?v ?conn) = el" "tc_ch (conns ?v ?conn) = n_chans w" "tc_state (conns ?v ?conn) = Connecting"
    "tc_onConn (conns ?v ?conn) = cl_onConn (clients w c)" "tc_inbound (conns ?v ?conn) = NewBuffer"
    "tc_outbound (conns ?v ?conn) = NewBuffer"
    using assms(4) unfolding el by (simp_all add: client_conn_def Let_def)
  have inert: "inert_ext (trace w) (trace ?v)"
    by (simp add: set_up_def with_reader_def add_call_def inert_def)
  have "poller_inv el ?v"
    by (rule poller_inv_cong [OF poller_inv_new_chan [OF assms(1), of "chans ?v (n_chans w)"]])
      (use el assms(4) inert_ext_interest [OF inert] in \<open>auto simp: set_up_def with_reader_def add_call_def\<close>)
  moreover have "legal_trace (trace ?v)"
    using assms(3) by (simp add: inert_ext_legal [OF inert])
  moreover have "conn_ok ?conn ?v"
    using assms(5,6) unfolding conn_ok_def chan_ready_def chans_of_def cc by (simp add: el)
  ultimately obtain v where v: "connectEstablished ucb ?conn ?v =
      (case cl_onConn (clients w c) of None \<Rightarrow> go_ret () | Some k \<Rightarrow> ucb k ?conn) v"
    "conns v = (conns ?v)(?conn := (conns ?v ?conn)\<lparr>tc_state := Connected\<rparr>)" "poller_inv el v"
    "interest (trace v) (po_epollFd (poller_of el w)) fd = Some (eventNone OR eventRead, n_chans w)"
    "clients v = clients ?v"
    using connectEstablished_correct [of ?conn ?v ucb] assms(2) unfolding cc by (auto simp: el)
  have "conns v = (conns w)(?conn :=
      (client_conn c (client_name c la pa w) fd (Some la) (Some pa) w)\<lparr>tc_state := Connected\<rparr>)"
    using v(2) unfolding el by simp
  moreover have "eventNone OR eventRead = eventRead"
    by (simp add: eventNone_def eventRead_def)
  moreover have "clients ?v = (clients w)(c := (clients w c)\<lparr>cl_nextConnId := cl_nextConnId (clients w c) + 1,
      cl_conn := Some (n_conns w)\<rparr>)"
    by (simp add: set_up_def add_call_def)
  ultimately show ?thesis
    using client_newConn_unfold [OF assms(7-10), of ucb] v assms(4)
    by (intro exI [of _ v]) (simp add: GetConn_def go_gets_def client_conn_def client_name_def Let_def)
qed

text \<open>A kernel on which every local address is 10.0.0.1, and a loop with a client.\<close>

definition named_kernel :: "trace \<Rightarrow> syscall \<Rightarrow> sysret" where
  "named_kernel tr s = (quiet_kernel tr s)\<lparr>ret_addr := Some (SockaddrInet4 4711 [10, 0, 0, 1])\<rparr>"

definition one_client :: world where
  "one_client = one_channel\<lparr>env := named_kernel, n_clients := 1, n_connectors := 1,
     connectors := (\<lambda>_. blank_connector\<lparr>cn_unixSvrAddr := SockaddrInet4 80 [10, 0, 0, 2]\<rparr>)\<rparr>"

lemma one_client_ok:
  "poller_inv 0 one_client" "epoll_ctl_spec (env one_client)" "legal_trace (trace one_client)"
  "cl_el (clients one_client 0) = 0" "po_channelMap (poller_of 0 one_client) 9 = None"
  "9 \<noteq> el_evtFd (loops one_client 0)" "ret_err (env one_client (trace one_client) (SysGetsockname 9)) = None"
  "ret_addr (env one_client (trace one_client) (SysGetsockname 9)) = Some (SockaddrInet4 4711 [10, 0, 0, 1])"
  "addr_of (net one_client) (SockaddrInet4 4711 [10, 0, 0, 1]) =
     Some (TCPAddr (Some \<lparr>ta_IP = [10, 0, 0, 1], ta_Port = 4711, ta_Zone = []\<rparr>))"
  "addr_of (net one_client) (cn_unixSvrAddr (connectors one_client (cl_connector (clients one_client 0)))) =
     Some (TCPAddr (Some \<lparr>ta_IP = [10, 0, 0, 2], ta_Port = 80, ta_Zone = []\<rparr>))"
proof -
  show "poller_inv 0 one_client"
    by (rule poller_inv_cong [OF one_channel_ok(1)]) (simp_all add: one_client_def)
  show "epoll_ctl_spec (env one_client)"
    using quiet_kernel_spec(1) by (simp add: one_client_def epoll_ctl_spec_def named_kernel_def)
qed (simp_all add: one_client_def one_channel_def blank_defs named_kernel_def quiet_kernel_def addr_of_def)

theorem client_newConn_opens_witness:
  "\<exists>v. client_newConn (\<lambda>_ _. go_ret ()) 0 9 one_client = Inr ((), v) \<and> GetConn 0 v = Inr (Some 0, v) \<and>
    tc_state (conns v 0) = Connected \<and>
    tc_name (conns v 0) = ''10.0.0.1:4711-10.0.0.2:80#1''"
proof -
  have "tcpAddr_String (Some \<lparr>ta_IP = [10, 0, 0, 1], ta_Port = 4711, ta_Zone = []\<rparr>) = ''10.0.0.1:4711''"
    "tcpAddr_String (Some \<lparr>ta_IP = [10, 0, 0, 2], ta_Port = 80, ta_Zone = []\<rparr>) = ''10.0.0.2:80''"
    "decimal (Suc 0) = ''1''"
    by (simp_all add: ip_String_def To4_def JoinHostPort_def Itoa_def decimal.simps digit_def char_of_def Let_def
        bit_0)
  moreover
  have "cl_onConn (clients one_client 0) = None" "n_conns one_client = 0" "cl_nextConnId (clients one_client 0) = 1"
    by (simp_all add: one_client_def one_channel_def blank_defs)
  ultimately show ?thesis
    using client_newConn_opens [OF one_client_ok, of "\<lambda>_ _. go_ret ()"]
    by (auto simp: go_ret_def addr_text_def simp del: tcpAddr_String.simps)
qed

text \<open>The descriptors closed in a trace.\<close>

definition closes :: "trace \<Rightarrow> syscall list" where
  "closes tr = filter (\<lambda>s. case s of SysClose f \<Rightarrow> True | _ \<Rightarrow> False) (map fst tr)"

lemma closes_append [simp]: "closes (xs @ ys) = closes xs @ closes ys" "closes [] = []"
  "closes [(s, r)] = (case s of SysClose f \<Rightarrow> [s] | _ \<Rightarrow> [])"
  by (simp_all add: closes_def split: syscall.split)

lemma closes_channel:
  "wp any_panic (disableAll ch) (\<lambda>_ w'. closes (trace w') = closes (trace w) \<and> conns w' = conns w) w"
  "wp any_panic (removeChannel el ch) (\<lambda>_ w'. closes (trace w') = closes (trace w) \<and> conns w' = conns w) w"
  by (simp_all add: disableAll_def chan_update_def updateChannel_def removeChannel_def upd_poller_def Let_def)

lemma closes_destroyed:
  "wp any_panic (connectDestroyed (\<lambda>_ _. go_ret ()) p) (\<lambda>_ w'. closes (trace w') = closes (trace w)) w"
proof -
  let ?Q = "\<lambda>_ w'. closes (trace w') = closes (trace w)"
  have remove: "wp any_panic (removeChannel el ch) ?Q v" if "closes (trace v) = closes (trace w)" for el ch v
    using that wp_mono [OF closes_channel(2)] by simp
  have "wp any_panic (go_seq (go_bind (go_gets (\<lambda>w. tc_onConn (conns w p))) (\<lambda>onConn.
      case onConn of None \<Rightarrow> go_panic NilDereference | Some k \<Rightarrow> go_ret ())) (loop_removeChannel el ch)) ?Q v"
    if "closes (trace v) = closes (trace w)" for el ch v
    using that remove by (simp add: loop_removeChannel_def split: option.split)
  note rest = this
  show ?thesis
    by (simp add: connectDestroyed_def)
      (intro conjI impI; rule wp_mono [OF closes_channel(1)]; (rule rest)?; simp)
qed

text \<open>
  C33: the client never closes the socket of a connection that ended. \<open>removeConn\<close> and the
  destruction it submits bring the connection to \<open>Disconnected\<close>, but, unlike the server's
  closure, they close no descriptor.
\<close>

theorem client_leaks_socket:
  assumes "poller_inv (tc_el (conns w p)) w" and "epoll_ctl_spec (env w)" and "legal_trace (trace w)"
    and "tc_ch (conns w p) \<in> chans_of (tc_el (conns w p)) w" and "ch_index (conn_chan p w) \<noteq> channelNew"
    and "tc_state (conns w p) = Connected \<or> tc_state (conns w p) = Disconnecting"
    and "tc_onConn (conns w p) = Some k" and "\<not> (cl_retry (clients w c) \<and> cl_connect (clients w c))"
  shows "wp no_panic (go_seq (client_removeConn c p) (connectDestroyed (\<lambda>_ _. go_ret ()) p))
    (\<lambda>_ w'. tc_state (conns w' p) = Disconnected \<and> closes (trace w') = closes (trace w)) w"
proof -
  let ?l = "cl_el (clients w c)"
  define v where "v = (add_call (SysWrite (el_evtFd (loops w ?l)) [1, 0, 0, 0, 0, 0, 0, 0])
    (set_loop ?l (\<lambda>l. l\<lparr>el_pendingTasks := el_pendingTasks l @ [TkConnectDestroyed p]\<rparr>) w))
    \<lparr>clients := (clients w)(c := (clients w c)\<lparr>cl_conn := None\<rparr>)\<rparr>"
  have same: "conns v = conns w" "env v = env w" "chans v = chans w" "n_chans v = n_chans w"
    "poller_of el v = poller_of el w" "closes (trace v) = closes (trace w)" for el
    by (simp_all add: v_def add_call_def set_loop_def)
  have inert: "inert_ext (trace w) (trace v)"
    by (simp add: v_def add_call_def set_loop_def inert_def)
  have "poller_inv el v" if "poller_inv el w" for el
    by (rule poller_inv_cong [OF that]) (simp_all add: same inert_ext_interest [OF inert])
  then have "wp no_panic (connectDestroyed (\<lambda>_ _. go_ret ()) p) (\<lambda>_ w'. tc_state (conns w' p) = Disconnected) v"
    using assms(1-7) inert_ext_legal [OF inert]
    by (intro wp_mono [OF connectDestroyed_correct [of v p k no_panic]]) (simp_all add: same chans_of_def)
  moreover have "client_removeConn c p w = Inr ((), v)"
    using assms(8) by (auto simp: client_removeConn_def AsyncExecute_def Wakeup_def go_defs world_defs Let_def
        v_def add_call_def set_loop_def)
  ultimately show ?thesis
    using closes_destroyed [of p v] by (auto simp: wp_def go_seq_def go_bind_def same split: sum.splits)
qed

text \<open>A client whose connection is open: channel 0 is known to the poller.\<close>

definition client_open :: world where
  "client_open = off_channel\<lparr>conns := (\<lambda>_. blank_conn\<lparr>tc_state := Connected, tc_onConn := Some 0\<rparr>), n_conns := 1,
     n_clients := 1, clients := (\<lambda>_. blank_client\<lparr>cl_conn := Some 0\<rparr>)\<rparr>"

theorem client_leaks_socket_witness:
  "wp no_panic (go_seq (client_removeConn 0 0) (connectDestroyed (\<lambda>_ _. go_ret ()) 0))
    (\<lambda>_ w'. tc_state (conns w' 0) = Disconnected \<and> closes (trace w') = closes (trace client_open)) client_open"
proof -
  have "poller_inv 0 client_open"
    by (rule poller_inv_cong [OF off_channel_ok(1)]) (simp_all add: client_open_def)
  then show ?thesis
    using off_channel_ok
    by (intro client_leaks_socket) (simp_all add: client_open_def blank_conn_def blank_client_def chans_of_def index_consts)
qed

end
