(* ===== verification/Closed_Loop.thy ===== *)
theory Closed_Loop
  imports Tcp_Server Tcp_Client
begin

text \<open>
  The loop with its callbacks closed. The library calls functions of its user; here these are
  arbitrary terminating programs over the library's interface (\<open>prog\<close>), which look at the
  world between their calls and are run on the goroutine of the loop. All stored function
  values are interpreted, so that the loop, the timer queue, the connections, servers and
  clients and the user's code form one closed system. The locales at the end say which
  elementary steps a relation between worlds has to respect to be kept by all of it.
\<close>

section \<open>User programs\<close>

text \<open>
  The calls a user's function can make on loop \<open>el\<close>. The synchronous scheduling calls are
  for the loop's own goroutine; the others name their loop. Objects are named by pointers, so
  a call on an object that does not exist cannot be written in Go, and does nothing here.
  A server with worker engines starts loops that other goroutines run; in the closed system
  of one loop, \<open>Start\<close> is called on servers that have none.
\<close>

datatype api =
    ApSchedule timeoutCallback time
  | ApScheduleDelay timeoutCallback duration
  | ApScheduleAtFixRate timeoutCallback duration
  | ApAsyncSchedule loop_ptr timeoutCallback time
  | ApAsyncScheduleDelay loop_ptr timeoutCallback duration
  | ApAsyncScheduleAtFixRate loop_ptr timeoutCallback duration
  | ApCancel timer_ptr
  | ApAsyncExecute loop_ptr nat
  | ApStop loop_ptr
  | ApAsyncStop loop_ptr
  | ApWrite conn_ptr "byte list"
  | ApAsyncWrite conn_ptr "byte list" "nat option"
  | ApShutdownWrite conn_ptr
  | ApSetTcpNoDelay conn_ptr bool
  | ApSetContext conn_ptr nat
  | ApSetOnConn conn_ptr "nat option"
  | ApSetOnMsg conn_ptr "nat option"
  | ApSetOnWriteComplete conn_ptr "nat option"
  | ApNext conn_ptr int
  | ApAdvance conn_ptr int
  | ApNewTcpServer string string int
  | ApSetEngineCnt server_ptr int
  | ApServerSetTcpNoDelay server_ptr bool
  | ApServerSetOnConn server_ptr "nat option"
  | ApServerSetOnMsg server_ptr "nat option"
  | ApServerSetOnWriteComplete server_ptr "nat option"
  | ApServerStart server_ptr
  | ApNewTcpClient string
  | ApSetRetry client_ptr bool
  | ApClientSetOnConn client_ptr "nat option"
  | ApClientSetOnMsg client_ptr "nat option"
  | ApConnect client_ptr
  | ApDisconnect client_ptr
  | ApClientStop client_ptr
  | ApDestroy client_ptr
  | ApNewConnector string "nat option"
  | ApConnectorStart connector_ptr
  | ApConnectorStop connector_ptr
  | ApRestart connector_ptr

definition drop_result :: "(world, 'a) go \<Rightarrow> (world, unit) go" where
  "drop_result m = go_bind m (\<lambda>_. go_ret ())"

fun run_api :: "loop_ptr \<Rightarrow> api \<Rightarrow> (world, unit) go" where
  "run_api el (ApSchedule cb t) = drop_result (Schedule el cb t)"
| "run_api el (ApScheduleDelay cb d) = drop_result (ScheduleDelay el cb d)"
| "run_api el (ApScheduleAtFixRate cb d) = drop_result (ScheduleAtFixRate el cb d)"
| "run_api el (ApAsyncSchedule l cb t) = drop_result (AsyncSchedule l cb t)"
| "run_api el (ApAsyncScheduleDelay l cb d) = drop_result (AsyncScheduleDelay l cb d)"
| "run_api el (ApAsyncScheduleAtFixRate l cb d) = drop_result (AsyncScheduleAtFixRate l cb d)"
| "run_api el (ApCancel tt) = go_bind (go_gets n_timers) (\<lambda>n. go_when (tt < n) (Cancel tt))"
| "run_api el (ApAsyncExecute l k) = AsyncExecute l (TkUser k)"
| "run_api el (ApStop l) = Stop l"
| "run_api el (ApAsyncStop l) = AsyncStop l"
| "run_api el (ApWrite c data) = drop_result (tcp_Write c data)"
| "run_api el (ApAsyncWrite c data cb) = drop_result (AsyncWrite c data cb)"
| "run_api el (ApShutdownWrite c) = ShutdownWrite c"
| "run_api el (ApSetTcpNoDelay c b) = drop_result (SetTcpNoDelay c b)"
| "run_api el (ApSetContext c x) = SetContext c x"
| "run_api el (ApSetOnConn c cb) = SetOnConn c cb"
| "run_api el (ApSetOnMsg c cb) = SetOnMsg c cb"
| "run_api el (ApSetOnWriteComplete c cb) = SetOnWriteComplete c cb"
| "run_api el (ApNext c n) = drop_result (on_inbound c (Next n))"
| "run_api el (ApAdvance c n) = on_inbound c (Advance n)"
| "run_api el (ApNewTcpServer name addr cnt) = drop_result (NewTcpServer el name addr cnt)"
| "run_api el (ApSetEngineCnt s cnt) = SetEngineCnt s cnt"
| "run_api el (ApServerSetTcpNoDelay s b) = server_SetTcpNoDelay s b"
| "run_api el (ApServerSetOnConn s cb) = server_SetOnConn s cb"
| "run_api el (ApServerSetOnMsg s cb) = server_SetOnMsg s cb"
| "run_api el (ApServerSetOnWriteComplete s cb) = server_SetOnWriteComplete s cb"
| "run_api el (ApServerStart s) = go_bind (go_gets (\<lambda>w. gr_engineCnt (sv_group (servers w s)))) (\<lambda>cnt.
     go_when (cnt \<le> 0) (server_Start s))"
| "run_api el (ApNewTcpClient addr) = drop_result (NewTcpClient el addr)"
| "run_api el (ApSetRetry c b) = SetRetry c b"
| "run_api el (ApClientSetOnConn c cb) = client_SetOnConn c cb"
| "run_api el (ApClientSetOnMsg c cb) = client_SetOnMsg c cb"
| "run_api el (ApConnect c) = Connect c"
| "run_api el (ApDisconnect c) = Disconnect c"
| "run_api el (ApClientStop c) = client_Stop c"
| "run_api el (ApDestroy c) = Destroy c"
| "run_api el (ApNewConnector addr cb) = drop_result (NewConnector el addr (map_option KcUser cb))"
| "run_api el (ApConnectorStart c) = connector_Start c"
| "run_api el (ApConnectorStop c) = connector_Stop c"
| "run_api el (ApRestart c) = Restart c"

datatype prog = Done | Call api "world \<Rightarrow> prog"

primrec run_prog :: "loop_ptr \<Rightarrow> prog \<Rightarrow> (world, unit) go" where
  "run_prog el Done = go_ret ()"
| "run_prog el (Call a k) =
     go_seq (run_api el a) (go_bind (go_gets (\<lambda>w. w)) (\<lambda>w. run_prog el (k w)))"

text \<open>The user's functions, by their numbers.\<close>

record user =
  u_timeout :: "nat \<Rightarrow> prog"
  u_read :: "nat \<Rightarrow> time \<Rightarrow> prog"
  u_event :: "nat \<Rightarrow> prog"
  u_task :: "nat \<Rightarrow> prog"
  u_conn :: "nat \<Rightarrow> conn_ptr \<Rightarrow> prog"
  u_msg :: "nat \<Rightarrow> conn_ptr \<Rightarrow> time \<Rightarrow> prog"
  u_close :: "nat \<Rightarrow> conn_ptr \<Rightarrow> prog"
  u_connect :: "nat \<Rightarrow> int \<Rightarrow> prog"
  u_async :: "nat \<Rightarrow> conn_ptr \<Rightarrow> goerror option \<Rightarrow> prog \<times> goerror option"

section \<open>The stored function values\<close>

fun timeout_cb :: "user \<Rightarrow> loop_ptr \<Rightarrow> timeoutCallback \<Rightarrow> (world, unit) go" where
  "timeout_cb u el (ToUser k) = run_prog el (u_timeout u k)"
| "timeout_cb u el (ToConnectorStart c) = connector_start c"
| "timeout_cb u el ToNothing = go_ret ()"

definition conn_cb :: "user \<Rightarrow> loop_ptr \<Rightarrow> nat \<Rightarrow> conn_ptr \<Rightarrow> (world, unit) go" where
  "conn_cb u el k c = run_prog el (u_conn u k c)"

definition msg_cb :: "user \<Rightarrow> loop_ptr \<Rightarrow> nat \<Rightarrow> conn_ptr \<Rightarrow> time \<Rightarrow> (world, unit) go" where
  "msg_cb u el k c ts = run_prog el (u_msg u k c ts)"

fun close_cb :: "user \<Rightarrow> loop_ptr \<Rightarrow> closeCallback \<Rightarrow> conn_ptr \<Rightarrow> (world, unit) go" where
  "close_cb u el (CcUser k) c = run_prog el (u_close u k c)"
| "close_cb u el (CcServer s) c = server_removeConn s c"
| "close_cb u el (CcClient cl) c = client_removeConn cl c"
| "close_cb u el (CcClientDestroy cl) c = clientDestroyClose cl c"

fun accept_cb :: "acceptCallback \<Rightarrow> int \<Rightarrow> net_addr option \<Rightarrow> (world, unit) go" where
  "accept_cb (AcServer s) fd addr = server_newConn s fd addr"

fun connect_cb :: "user \<Rightarrow> loop_ptr \<Rightarrow> connectCallback \<Rightarrow> int \<Rightarrow> (world, unit) go" where
  "connect_cb u el (KcClient cl) fd = client_newConn (conn_cb u el) cl fd"
| "connect_cb u el (KcUser k) fd = run_prog el (u_connect u k fd)"

definition async_cb :: "user \<Rightarrow> loop_ptr \<Rightarrow> nat \<Rightarrow> conn_ptr \<Rightarrow> goerror option \<Rightarrow>
    (world, goerror option) go" where
  "async_cb u el k c err = go_seq (run_prog el (fst (u_async u k c err))) (go_ret (snd (u_async u k c err)))"

fun read_cb :: "user \<Rightarrow> loop_ptr \<Rightarrow> readCallback \<Rightarrow> time \<Rightarrow> (world, unit) go" where
  "read_cb u el (RcWakeup l) ts = loop_handleRead l"
| "read_cb u el (RcTimerQueue l) ts = tq_handleRead (timeout_cb u el) l ts"
| "read_cb u el (RcConn c) ts = conn_handleRead (msg_cb u el) (close_cb u el) c ts"
| "read_cb u el (RcAcceptor a) ts = acceptor_handleRead accept_cb a ts"
| "read_cb u el (RcUser k) ts = run_prog el (u_read u k ts)"

fun event_cb :: "user \<Rightarrow> loop_ptr \<Rightarrow> eventCallback \<Rightarrow> (world, unit) go" where
  "event_cb u el (EcConnWrite c) = handleWrite c"
| "event_cb u el (EcConnClose c) = handleClose (close_cb u el) c"
| "event_cb u el (EcConnectorWrite c) = connector_handleWrite (connect_cb u el) c"
| "event_cb u el (EcConnectorError c) = connector_handleError c"
| "event_cb u el (EcUser k) = run_prog el (u_event u k)"

fun task_cb :: "user \<Rightarrow> loop_ptr \<Rightarrow> task \<Rightarrow> (world, unit) go" where
  "task_cb u el (TkUser k) = run_prog el (u_task u k)"
| "task_cb u el (TkAddTask0 l tt) = addTask0 l tt"
| "task_cb u el (TkCancel l tt) = cancelTask l tt"
| "task_cb u el (TkWriteComplete c) = writeCompleteTask (conn_cb u el) c"
| "task_cb u el (TkAsyncWrite c data cb) = asyncWriteTask (async_cb u el) c data cb"
| "task_cb u el (TkShutdownWrite c) = shutdownWrite c"
| "task_cb u el (TkConnectEstablished c) = connectEstablished (conn_cb u el) c"
| "task_cb u el (TkConnectDestroyed c) = connectDestroyed (conn_cb u el) c"
| "task_cb u el (TkServerListen s) = listenTask s"
| "task_cb u el (TkServerRemove s c) = removeConnInLoop s c"
| "task_cb u el (TkServerDestroyConn c) = destroyConnTask (conn_cb u el) c"
| "task_cb u el (TkConnectorStart c) = connector_start c"
| "task_cb u el (TkConnectorNoChannel c) = noChannelTask c"
| "task_cb u el (TkClientDestroy cl c) = clientDestroyTask cl c"

text \<open>One iteration of the loop, and the loop, with all callbacks.\<close>

abbreviation iteration :: "user \<Rightarrow> loop_ptr \<Rightarrow> (world, unit) go" where
  "iteration u el \<equiv> loop_body (read_cb u el) (event_cb u el) (task_cb u el) el"

text \<open>The first part of an iteration: waiting for events and dispatching them.\<close>

abbreviation serve_events :: "user \<Rightarrow> loop_ptr \<Rightarrow> (world, unit) go" where
  "serve_events u el \<equiv>
     go_seq (upd_loop el (\<lambda>l. l\<lparr>el_activeChannels := []\<rparr>)) (
     go_bind (poll el pollTimeoutMills) (\<lambda>retTs.
     go_bind (go_gets (\<lambda>w. el_activeChannels (loops w el))) (\<lambda>active.
     go_for active (\<lambda>channel. handleEvent (read_cb u el) (event_cb u el) channel retTs))))"

lemma wp_seqI: "wp E m (\<lambda>_. Q) s \<Longrightarrow> (\<And>t. Q t \<Longrightarrow> wp E n R t) \<Longrightarrow> wp E (go_seq m n) R s"
  unfolding wp_seq by (rule wp_mono)

lemma iteration_split: "iteration u el = go_seq (serve_events u el) (runPendingTasks (task_cb u el) el)"
  by (auto simp: loop_body_def go_seq_def go_bind_def fun_eq_iff split: sum.splits)

section \<open>Relations that every step keeps\<close>

locale preserved = kept any_panic R for R :: "world \<Rightarrow> world \<Rightarrow> bool"
begin

lemma keeps_panic: "keeps (go_panic e)" and keeps_slice: "keeps (go_slice xs lo hi)"
  and keeps_Assert: "keeps (Assert b msg)"
  by (simp_all add: keeps_def refl)

lemmas keeps_control = keeps_compose keeps_panic keeps_slice keeps_Assert

end

text \<open>Tasks that have nothing to do with timers.\<close>

fun neutral_task :: "task \<Rightarrow> bool" where
  "neutral_task (TkAddTask0 l tt) = False"
| "neutral_task (TkCancel l tt) = False"
| "neutral_task _ = True"

text \<open>
  The elementary steps of channels, pollers, connections, sockets and servers. A relation that
  these keep is kept by every operation of \<open>channel.go\<close>, \<open>poller.go\<close>, \<open>socket.go\<close>,
  \<open>tcp_conn.go\<close>, \<open>acceptor.go\<close> and \<open>tcp_server.go\<close>.
\<close>

definition timer_reader :: "channel \<Rightarrow> loop_ptr option" where
  "timer_reader x = (case ch_readCallback x of Some (RcTimerQueue l) \<Rightarrow> Some l | _ \<Rightarrow> None)"

lemma timer_reader_Some: "timer_reader x = Some l \<longleftrightarrow> ch_readCallback x = Some (RcTimerQueue l)"
  by (auto simp: timer_reader_def split: option.splits readCallback.splits)

text \<open>Worlds that differ in acceptors, servers and clients only.\<close>

definition same_core :: "world \<Rightarrow> world \<Rightarrow> bool" where
  "same_core w w' \<longleftrightarrow> env w' = env w \<and> trace w' = trace w \<and> loops w' = loops w \<and> chans w' = chans w \<and>
     timers w' = timers w \<and> conns w' = conns w \<and> connectors w' = connectors w \<and>
     n_timers w' = n_timers w \<and> n_conns w' = n_conns w"

locale conn_steps = preserved +
  assumes sys_step: "\<not> sets_timer s \<Longrightarrow> R w (w\<lparr>trace := trace w @ [(s, env w (trace w) s)]\<rparr>)"
    and chan_step: "timer_reader x = None \<or> timer_reader x = timer_reader (chans w ch) \<Longrightarrow>
      R w (w\<lparr>chans := (chans w)(ch := x)\<rparr>)"
    and chan_alloc: "timer_reader x = None \<Longrightarrow>
      R w (w\<lparr>chans := (chans w)(n_chans w := x), n_chans := Suc (n_chans w)\<rparr>)"
    and poller_step: "R w (w\<lparr>loops := (loops w)(l := (loops w l)\<lparr>el_poller := p\<rparr>)\<rparr>)"
    and conn_step: "tc_state (conns w c) \<le> tc_state conn \<Longrightarrow>
      R w (w\<lparr>conns := (conns w)(c := conn)\<rparr>)"
    and conn_alloc: "R w (w\<lparr>conns := (conns w)(n_conns w := conn), n_conns := Suc (n_conns w)\<rparr>)"
    and connector_step: "cn_tt cx = cn_tt (connectors w k) \<Longrightarrow>
      R w (w\<lparr>connectors := (connectors w)(k := cx)\<rparr>)"
    and connector_alloc: "cn_tt cx = None \<Longrightarrow>
      R w (w\<lparr>connectors := (connectors w)(n_connectors w := cx), n_connectors := Suc (n_connectors w)\<rparr>)"
    and object_step: "same_core w w' \<Longrightarrow> R w w'"
    and task_step: "neutral_task t \<Longrightarrow>
      R w (w\<lparr>loops := (loops w)(l := (loops w l)\<lparr>el_pendingTasks := el_pendingTasks (loops w l) @ [t]\<rparr>)\<rparr>)"
    and quit_step: "R w (w\<lparr>loops := (loops w)(l := (loops w l)\<lparr>el_quit := 1\<rparr>)\<rparr>)"
begin

lemma keeps_sys: "\<not> sets_timer s \<Longrightarrow> keeps (sys s)"
  by (simp add: keeps_def sys_step)

lemma keeps_upd_chan: "(\<And>x. ch_readCallback (f x) = ch_readCallback x) \<Longrightarrow> keeps (upd_chan c f)"
  and keeps_upd_poller: "keeps (upd_poller l g)"
  by (simp_all add: keeps_def upd_poller_def chan_step poller_step timer_reader_def)

lemma keeps_reader: "(\<And>l. cb \<noteq> RcTimerQueue l) \<Longrightarrow> keeps (setReadCallback c cb)"
  by (cases cb) (auto simp: keeps_def setReadCallback_def timer_reader_def intro!: chan_step)

lemma keeps_new_chan: "keeps (NewChannel l fd)"
  by (simp add: keeps_def NewChannel_def chan_alloc timer_reader_def)

lemma keeps_objects: "keeps (upd_acceptor a f)" "keeps (upd_server s g)" "keeps (upd_client cl h)"
  "keeps (new_acceptor x)" "keeps (new_server y)" "keeps (new_client z)"
  by (auto simp: keeps_def same_core_def intro!: object_step)

lemma keeps_upd_connector: "(\<And>x. cn_tt (f x) = cn_tt x) \<Longrightarrow> keeps (upd_connector k f)"
  and keeps_new_connector: "cn_tt x = None \<Longrightarrow> keeps (new_connector x)"
  by (simp_all add: keeps_def connector_step connector_alloc)

lemma keeps_new_conn: "keeps (new_conn x)"
  by (simp add: keeps_def conn_alloc)

lemma keeps_upd_conn: "(\<And>t. tc_state t \<le> tc_state (f t)) \<Longrightarrow> keeps (upd_conn c f)"
  by (simp add: keeps_def conn_step)

lemma keeps_Async: "neutral_task t \<Longrightarrow> keeps (AsyncExecute l t)"
proof (rule keepsI)
  fix w
  assume "neutral_task t"
  then have "R w (w\<lparr>loops := (loops w)(l := (loops w l)\<lparr>el_pendingTasks := el_pendingTasks (loops w l) @ [t]\<rparr>)\<rparr>)"
    by (rule task_step)
  from trans [OF this sys_step [of "SysWrite (el_evtFd (loops w l)) [1, 0, 0, 0, 0, 0, 0, 0]"]]
  show "wp any_panic (AsyncExecute l t) (\<lambda>_. R w) w"
    by (simp add: Let_def)
qed

lemma keeps_buffers: "keeps (on_outbound c m)" "keeps (on_inbound c m)"
  by (auto simp: keeps_def wp_def on_outbound_def on_inbound_def go_zoom_def conn_step split: sum.splits)

lemma keeps_addresses: "keeps (SockaddrToTCPOrUnixAddr rs sa)" "keeps (SockaddrToTCPAddr rs sa)"
  "keeps (addr_String a)"
  by (intro keeps_pure address_functions)+

lemmas keeps_steps = keeps_control keeps_sys keeps_upd_chan keeps_upd_poller keeps_Async keeps_buffers
  keeps_reader keeps_new_chan keeps_objects keeps_upd_connector keeps_new_connector keeps_new_conn
  keeps_addresses

lemma keeps_sockets: "keeps (sysSocket f t p)" "keeps newSocket" "keeps (socket_bind fd n a)"
  "keeps (accept fd)" "keeps (socket_close fd)" "keeps (socket_listen fd)" "keeps (setReuseAddr fd b)"
  "keeps (setTcpNoDelay fd b)" "keeps (GetLocalAddr fd)"
proof -
  show so: "keeps (sysSocket f t p)" for f t p
    unfolding sysSocket_def by (intro keeps_steps) simp
  show "keeps newSocket"
    unfolding newSocket_def by (intro keeps_steps so)
  show "keeps (socket_bind fd n a)" "keeps (accept fd)" "keeps (socket_close fd)" "keeps (socket_listen fd)"
    "keeps (setReuseAddr fd b)" "keeps (setTcpNoDelay fd b)" "keeps (GetLocalAddr fd)"
    unfolding socket_bind_def accept_def socket_close_def socket_listen_def setReuseAddr_def
      setTcpNoDelay_def GetLocalAddr_def
    by (intro keeps_steps; simp)+
qed

lemma keeps_epoll: "keeps (update l op c)"
  unfolding update_def epollCtl_def by (intro keeps_steps) simp_all

lemma keeps_chan_update: "keeps (chan_update c)"
  unfolding chan_update_def updateChannel_def Let_def by (intro keeps_steps keeps_epoll) simp_all

lemma keeps_channel: "keeps (enableReading c)" "keeps (disableAll c)" "keeps (disableWriting c)"
  "keeps (enableWriting c)" "keeps (removeChannel l c)"
  unfolding enableReading_def disableAll_def disableWriting_def enableWriting_def removeChannel_def Let_def
  by (intro keeps_steps keeps_chan_update keeps_epoll; simp)+

lemma keeps_conn_writes: "keeps (tcp_Write c data)" "keeps (AsyncWrite c data cb)" "keeps (handleWrite c)"
  "keeps (shutdownWrite c)" "keeps (SetTcpNoDelay c b)"
proof -
  show "keeps (tcp_Write c data)"
    unfolding tcp_Write_def write_now_def Let_def by (intro keeps_steps keeps_channel) simp_all
  show "keeps (AsyncWrite c data cb)"
    unfolding AsyncWrite_def by (intro keeps_steps) simp
  show sh: "keeps (shutdownWrite c)" "keeps (SetTcpNoDelay c b)"
    unfolding shutdownWrite_def SetTcpNoDelay_def by (intro keeps_steps keeps_sockets; simp)+
  show "keeps (handleWrite c)"
    unfolding handleWrite_def handleError_def by (intro keeps_steps keeps_channel sh) simp_all
qed

lemma keeps_ShutdownWrite: "keeps (ShutdownWrite c)"
proof (rule keepsI)
  fix w :: world
  let ?v = "w\<lparr>conns := (conns w)(c := (conns w c)\<lparr>tc_state := Disconnecting\<rparr>)\<rparr>"
  have "R w ?v" if "tc_state (conns w c) = Connected"
    using that by (intro conn_step) (simp add: ConnState_order)
  then show "wp any_panic (ShutdownWrite c) (\<lambda>_. R w) w"
    using keeps_after [of w ?v "AsyncExecute (tc_el (conns w c)) (TkShutdownWrite c)"] refl
    by (simp add: ShutdownWrite_def keeps_Async del: wp_AsyncExecute)
qed

lemma keeps_lifecycle:
  assumes "\<And>k. keeps (ucb k c)"
  shows "keeps (connectEstablished ucb c)" "keeps (connectDestroyed ucb c)"
proof -
  define up :: "ConnState \<Rightarrow> world \<Rightarrow> world"
    where "up st w = w\<lparr>conns := (conns w)(c := (conns w c)\<lparr>tc_state := st\<rparr>)\<rparr>" for st w
  have st: "R w (up st w)" if "tc_state (conns w c) \<le> st" for w st
    using that unfolding up_def by (intro conn_step) simp
  let ?est = "\<lambda>conn. go_seq (enableReading (tc_ch conn)) (go_bind (go_gets (\<lambda>w. tc_onConn (conns w c))) (\<lambda>onConn.
      case onConn of None \<Rightarrow> go_ret () | Some k \<Rightarrow> ucb k c))"
  let ?des = "\<lambda>conn. go_seq (disableAll (tc_ch conn)) (
      go_seq (go_bind (go_gets (\<lambda>w. tc_onConn (conns w c))) (\<lambda>onConn.
               case onConn of None \<Rightarrow> go_panic NilDereference | Some k \<Rightarrow> ucb k c))
        (loop_removeChannel (tc_el conn) (tc_ch conn)))"
  have k: "keeps (?est conn)" "keeps (?des conn)" for conn
    unfolding loop_removeChannel_def by (intro keeps_steps keeps_channel assms)+
  have est: "wp any_panic (connectEstablished ucb c) Q w = (if tc_state (conns w c) = Connecting
      then wp any_panic (?est (conns w c)) Q (up Connected w) else True)" for Q w
    by (simp add: connectEstablished_def up_def)
  have des: "wp any_panic (connectDestroyed ucb c) Q w =
      (if tc_state (conns w c) = Connected \<or> tc_state (conns w c) = Disconnecting
      then wp any_panic (?des (conns w c)) Q (up Disconnected w) else True)" for Q w
    by (simp add: connectDestroyed_def up_def)
  show "keeps (connectEstablished ucb c)"
    by (rule keepsI) (auto simp only: est if_True if_False ConnState_order ConnState.case split: if_split
        intro!: keeps_after [OF st k(1)])
  show "keeps (connectDestroyed ucb c)"
    by (rule keepsI) (auto simp only: des if_True if_False ConnState_order ConnState.case split: if_split
        intro!: keeps_after [OF st k(2)])
qed

lemma keeps_conn_events:
  assumes "\<And>k c. keeps (ccb k c)" and "\<And>k c ts. keeps (umsg k c ts)"
  shows "keeps (handleClose ccb c)" "keeps (conn_handleRead umsg ccb c ts)"
proof -
  show close: "keeps (handleClose ccb c)"
    unfolding handleClose_def by (intro keeps_steps keeps_channel assms)
  show "keeps (conn_handleRead umsg ccb c ts)"
    unfolding conn_handleRead_def handleError_def by (intro keeps_steps close assms) simp
qed

lemma keeps_conn_tasks:
  assumes "\<And>k c e. keeps (acb k c e)" and "\<And>k c. keeps (ucb k c)"
  shows "keeps (asyncWriteTask acb c data cb)" "keeps (writeCompleteTask ucb c)"
  unfolding asyncWriteTask_def writeCompleteTask_def handleError_def
  by (intro keeps_steps keeps_conn_writes assms)+

lemma keeps_setters: "keeps (SetContext c x)" "keeps (SetOnConn c cb)" "keeps (SetOnMsg c cb)"
  "keeps (SetOnWriteComplete c cb)" "keeps (setOnClose c ccb)"
  unfolding SetContext_def SetOnConn_def SetOnMsg_def SetOnWriteComplete_def setOnClose_def
  by (intro keeps_upd_conn; simp)+

lemma keeps_NewTcpConn: "keeps (NewTcpConn l name fd a b)"
  unfolding NewTcpConn_def by (intro keeps_steps) simp

lemma keeps_acceptor: "keeps (newAcceptor l addr cb)" "keeps (acceptor_listen a)"
  unfolding newAcceptor_def acceptor_listen_def Let_def
  by (intro keeps_steps keeps_sockets keeps_channel; simp)+

lemma keeps_server_setters: "keeps (SetEngineCnt s n)" "keeps (server_SetTcpNoDelay s b)"
  "keeps (server_SetOnConn s cb)" "keeps (server_SetOnMsg s cb)" "keeps (server_SetOnWriteComplete s cb)"
  unfolding SetEngineCnt_def server_SetTcpNoDelay_def server_SetOnConn_def server_SetOnMsg_def
    server_SetOnWriteComplete_def
  by (intro keeps_steps)+

lemma keeps_server: "keeps (NewTcpServer l name addr n)" "keeps (listenTask s)" "keeps (server_newConn s fd addr')"
  "keeps (server_removeConn s c)" "keeps (removeConnInLoop s c)"
  unfolding NewTcpServer_def listenTask_def server_newConn_def server_removeConn_def removeConnInLoop_def Let_def
  by (intro keeps_steps keeps_acceptor keeps_NewTcpConn keeps_conn_writes keeps_setters; simp)+

lemma keeps_server_Start:
  "keeps (go_bind (go_gets (\<lambda>w. gr_engineCnt (sv_group (servers w s)))) (\<lambda>cnt. go_when (cnt \<le> 0) (server_Start s)))"
proof (rule keepsI)
  fix w :: world
  let ?m = "\<lambda>g. go_bind (go_gets (\<lambda>w. servers w s)) (\<lambda>x.
     go_seq (go_when (\<not> sv_started x)
       (go_seq (upd_server s (\<lambda>x. x\<lparr>sv_started := True\<rparr>)) (upd_server s (\<lambda>x. x\<lparr>sv_group := g\<rparr>)))) (
     go_bind (go_gets (\<lambda>w. ac_listening (acceptors w (sv_ac x)))) (\<lambda>listening.
     go_when (\<not> listening) (AsyncExecute (sv_el x) (TkServerListen s)))))"
  have "keeps (?m g)" for g
    by (intro keeps_steps) simp
  then have "wp any_panic (?m g) (\<lambda>_. R w) w" for g
    unfolding keeps_def by blast
  note m = this
  have "wp any_panic (server_Start s) (\<lambda>_. R w) w" if "gr_engineCnt (sv_group (servers w s)) \<le> 0"
  proof -
    let ?g = "if gr_started (sv_group (servers w s)) then sv_group (servers w s)
      else (sv_group (servers w s))\<lparr>gr_started := True\<rparr>"
    have "server_Start s w = ?m ?g w"
      using that by (simp add: server_Start_def Start_def go_bind_def [of "go_gets _"] go_gets_def go_when_def)
    then show ?thesis
      using m [of ?g] by (simp only: wp_def)
  qed
  then show "wp any_panic (go_bind (go_gets (\<lambda>w. gr_engineCnt (sv_group (servers w s)))) (\<lambda>cnt.
      go_when (cnt \<le> 0) (server_Start s))) (\<lambda>_. R w) w"
    using refl by simp
qed

lemma keeps_accepted: "(\<And>k fd a. keeps (acb k fd a)) \<Longrightarrow> keeps (acceptor_handleRead acb a ts)"
  unfolding acceptor_handleRead_def by (intro keeps_steps keeps_sockets)

lemma keeps_destroyConn: "(\<And>k. keeps (ucb k c)) \<Longrightarrow> keeps (destroyConnTask ucb c)"
  unfolding destroyConnTask_def by (intro keeps_steps keeps_sockets keeps_lifecycle)

lemma keeps_stops: "keeps (Stop l)" "keeps (AsyncStop l)"
proof -
  show "keeps (Stop l)"
    by (simp add: keeps_def Stop_def quit_step)
  then show "keeps (AsyncStop l)"
    unfolding AsyncStop_def Stop_def Wakeup_def by (intro keeps_steps) simp_all
qed

end


text \<open>
  With the scheduling calls, and the way the connector uses them, a relation is kept by the
  clients and by every program of the user.
\<close>

locale user_steps = conn_steps +
  fixes el :: loop_ptr
  assumes add_step: "keeps (addTask el cb t interval)"
    and add_async_step: "keeps (go_bind (newTimerTask l cb t interval) (\<lambda>tt.
      go_seq (AsyncExecute l (TkAddTask0 l tt)) (go_ret tt)))"
    and retry_step: "keeps (go_bind (newTimerTask l cb t interval) (\<lambda>tt.
      go_seq (AsyncExecute l (TkAddTask0 l tt)) (upd_connector k (\<lambda>x. x\<lparr>cn_tt := Some tt\<rparr>))))"
    and cancel_step: "keeps (go_bind (go_gets n_timers) (\<lambda>n. go_when (tt < n) (Cancel tt)))"
    and stop_step: "keeps (go_bind (go_gets (\<lambda>w. cn_tt (connectors w k))) (\<lambda>tt.
      case tt of None \<Rightarrow> go_ret () | Some t \<Rightarrow> Cancel t))"
begin

lemma keeps_now: "keeps time_Now"
  unfolding time_Now_def by (intro keeps_steps) simp

lemma keeps_delay: "keeps (AsyncScheduleDelay l cb d)"
  unfolding AsyncScheduleDelay_def by (intro keeps_steps keeps_now add_async_step)

lemma keeps_retry: "keeps (retry k fd)"
proof -
  let ?again = "\<lambda>x. go_seq (go_bind time_Now (\<lambda>now.
    go_bind (newTimerTask (cn_el x) (ToConnectorStart k) (now + cn_retryDelay x) 0) (\<lambda>tt.
      go_seq (AsyncExecute (cn_el x) (TkAddTask0 (cn_el x) tt)) (upd_connector k (\<lambda>x. x\<lparr>cn_tt := Some tt\<rparr>)))))
    (upd_connector k (\<lambda>x. x\<lparr>cn_retryDelay := next_delay (cn_retryDelay x)\<rparr>))"
  have "retry k fd = go_bind (sys (SysClose fd)) (\<lambda>_.
     go_seq (upd_connector k (\<lambda>x. x\<lparr>cn_state := connectorDisconnected\<rparr>)) (
     go_bind (go_gets (\<lambda>w. connectors w k)) (\<lambda>x. go_when (cn_connect x) (?again x))))"
    unfolding retry_def AsyncScheduleDelay_def
    by (auto simp: go_bind_def go_seq_def go_ret_def go_when_def fun_eq_iff split: sum.splits)
  then show ?thesis
    by (simp only:) (intro keeps_steps keeps_now retry_step; simp)
qed

lemma keeps_connecting: "keeps (connecting k fd)"
  unfolding connecting_def setWriteCallback_def setErrorCallback_def by (intro keeps_steps keeps_channel) simp_all

lemma keeps_start: "keeps (connector_start k)"
  unfolding connector_start_def connect0_def
  by (intro keeps_steps keeps_sockets keeps_connecting keeps_retry) simp_all

lemma keeps_connector: "keeps (NewConnector l addr cb)" "keeps (connector_Start k)" "keeps (connector_Stop k)"
  "keeps (Restart k)" "keeps (noChannelTask k)" "keeps (connector_handleError k)"
  unfolding NewConnector_def connector_Start_def connector_Stop_def Restart_def noChannelTask_def
    connector_handleError_def removeAndResetChannel_def loop_removeChannel_def Let_def
  by (intro keeps_steps keeps_channel keeps_start keeps_retry stop_step; simp)+

lemma keeps_connector_write: "(\<And>cb fd. keeps (kcb cb fd)) \<Longrightarrow> keeps (connector_handleWrite kcb k)"
  unfolding connector_handleWrite_def removeAndResetChannel_def loop_removeChannel_def
  by (intro keeps_steps keeps_channel keeps_retry; simp)

lemma keeps_client_setters: "keeps (SetRetry cl b)" "keeps (client_SetOnConn cl cb)" "keeps (client_SetOnMsg cl cb)"
  unfolding SetRetry_def client_SetOnConn_def client_SetOnMsg_def by (intro keeps_steps)+

lemma keeps_client: "keeps (NewTcpClient l addr)" "keeps (Connect cl)" "keeps (Disconnect cl)"
  "keeps (client_Stop cl)" "keeps (Destroy cl)" "keeps (clientDestroyTask cl c)" "keeps (clientDestroyClose cl c)"
  "keeps (client_removeConn cl c)"
  unfolding NewTcpClient_def Connect_def Disconnect_def client_Stop_def Destroy_def clientDestroyTask_def
    clientDestroyClose_def client_removeConn_def GetConn_def
  by (intro keeps_steps keeps_connector keeps_ShutdownWrite keeps_delay keeps_setters; simp)+

lemma keeps_client_newConn: "(\<And>k c. keeps (ucb k c)) \<Longrightarrow> keeps (client_newConn ucb cl fd)"
  unfolding client_newConn_def Let_def
  by (intro keeps_steps keeps_sockets keeps_NewTcpConn keeps_conn_writes keeps_setters keeps_lifecycle)

lemma keeps_api: "keeps (run_api el a)"
proof (cases a)
  case (ApServerStart s)
  then show ?thesis
    by (simp add: keeps_server_Start)
qed
    (simp only: run_api.simps drop_result_def Schedule_def ScheduleDelay_def ScheduleAtFixRate_def
      AsyncSchedule_def AsyncScheduleAtFixRate_def,
      (intro keeps_steps keeps_now keeps_delay keeps_conn_writes keeps_ShutdownWrite keeps_setters keeps_stops
        keeps_server keeps_server_setters keeps_client keeps_client_setters keeps_connector
        add_step add_async_step cancel_step; simp)?)+

lemma keeps_prog: "keeps (run_prog el p)"
  by (induction p) (auto intro!: keeps_steps keeps_api)

lemma keeps_callbacks: "keeps (timeout_cb u el cb)" "keeps (conn_cb u el k c)" "keeps (msg_cb u el k c ts)"
  "keeps (close_cb u el ccb c)" "keeps (async_cb u el k c err)" "keeps (accept_cb acb fd addr)"
proof -
  show "keeps (timeout_cb u el cb)"
    by (cases cb) (auto intro!: keeps_prog keeps_start keeps_ret)
  show "keeps (conn_cb u el k c)" "keeps (msg_cb u el k c ts)" "keeps (async_cb u el k c err)"
    by (auto simp: conn_cb_def msg_cb_def async_cb_def intro!: keeps_prog keeps_steps)
  show "keeps (close_cb u el ccb c)"
    by (cases ccb) (auto intro!: keeps_prog keeps_server keeps_client)
  show "keeps (accept_cb acb fd addr)"
    by (cases acb) (auto intro!: keeps_server)
qed

lemma keeps_connect: "keeps (connect_cb u el kcb fd)"
  by (cases kcb) (auto intro!: keeps_prog keeps_client_newConn keeps_callbacks)

lemma keeps_event: "keeps (event_cb u el ecb)"
  by (cases ecb) (auto intro!: keeps_prog keeps_conn_writes keeps_conn_events keeps_callbacks keeps_connector
      keeps_connector_write keeps_connect)

lemma keeps_read: "(\<And>l. cb \<noteq> RcTimerQueue l) \<Longrightarrow> keeps (read_cb u el cb ts)"
  by (cases cb) (auto simp: loop_handleRead_def
      intro!: keeps_prog keeps_conn_events keeps_callbacks keeps_steps keeps_accepted)

lemma keeps_task: "neutral_task tk \<Longrightarrow> keeps (task_cb u el tk)"
  by (cases tk) (auto intro!: keeps_prog keeps_conn_writes keeps_conn_tasks keeps_lifecycle keeps_callbacks
      keeps_server keeps_destroyConn keeps_start keeps_connector keeps_client)

end

text \<open>
  A relation that is also kept by whatever leaves the connections and the \<open>quit\<close> flags alone and
  takes nothing off the lists of pending tasks is kept by the operations of the timer queue, and so
  by every user program and by the dispatch of events.
\<close>

locale calm_steps = conn_steps +
  assumes calm: "conns w' = conns w \<Longrightarrow> n_conns w' = n_conns w \<Longrightarrow>
    (\<And>l. el_quit (loops w' l) = el_quit (loops w l)) \<Longrightarrow>
    (\<And>l. \<exists>ts. el_pendingTasks (loops w' l) = el_pendingTasks (loops w l) @ ts) \<Longrightarrow> R w w'"
begin

lemma keeps_calm:
  assumes "\<And>w. wp any_panic m (\<lambda>_ w'. conns w' = conns w \<and> n_conns w' = n_conns w \<and>
    (\<forall>l. el_quit (loops w' l) = el_quit (loops w l) \<and>
      (\<exists>ts. el_pendingTasks (loops w' l) = el_pendingTasks (loops w l) @ ts))) w"
  shows "keeps m"
  by (rule keepsI, rule wp_mono [OF assms]) (auto intro: calm)

lemma calm_heap: "keeps (with_heap l m)"
  by (rule keeps_calm) (auto simp: with_heap_def go_zoom_def wp_def put_heap_def split: sum.splits)

lemma calm_timer: "keeps (upd_timer p f)" "keeps (upd_connector k h)" "keeps (resetTimerFd fd t)"
  "keeps (newTimerTask l cb t iv)" "keeps (AsyncExecute l tk)" "keeps (sys s)"
  by (auto intro!: keeps_calm simp: Let_def)

lemma calm_loop:
  assumes "\<And>x. el_quit (g x) = el_quit x" and "\<And>x. el_pendingTasks (g x) = el_pendingTasks x"
  shows "keeps (upd_loop l g)"
  using assms by (auto intro!: keeps_calm)

lemma calm_insert: "keeps (insert l p)"
  by (rule keeps_calm) (auto simp: put_heap_def wp_eq [where m = "insert _ _", OF insert_result])

lemma calm_timer_ops: "keeps (addTask l cb t iv)" "keeps (addTask0 l p)" "keeps (cancelTask l p)"
  unfolding addTask_def addTask0_def cancelTask_def by (intro keeps_control calm_timer calm_heap calm_insert)+

end

sublocale calm_steps \<subseteq> user_steps R el for el
  by unfold_locales
    (unfold Cancel_def cancel_def, (intro keeps_control calm_timer calm_timer_ops)+)

context calm_steps
begin

lemma calm_handleRead: "keeps (tq_handleRead (timeout_cb u el) l ts)"
  unfolding tq_handleRead_def getExpired_def run_expired_def run_task_def reset_def reinsert_def
    restart_def Let_def
  by (intro keeps_control calm_timer calm_heap calm_insert keeps_callbacks)

lemma calm_read: "keeps (read_cb u el cb ts)"
  using keeps_read [of cb u el ts] calm_handleRead by (cases cb) auto

lemma calm_task: "keeps (task_cb u el tk)"
  using keeps_task [of tk u el] calm_timer_ops by (cases tk) auto

lemma calm_events: "keeps (serve_events u el)"
  unfolding poll_def epollWait_def fillActiveChannels_def handleEvent_def on_revents_def call_event_def
    call_read_def Let_def
  by (intro keeps_steps calm_timer calm_loop calm_read keeps_event) simp_all

end

end
