(* ===== verification/System.thy ===== *)
theory System
  imports Closed_Loop
begin

text \<open>
  Properties of the whole closed system: the relations that its steps keep are the order of
  the connection states and the invariant of the timers; the contract of the timer queue with
  its callbacks is interpreted on the functions the loop really calls.
\<close>

section \<open>Connections only move forward\<close>

definition conn_progress :: "world \<Rightarrow> world \<Rightarrow> bool" where
  "conn_progress w w' \<longleftrightarrow> n_conns w \<le> n_conns w' \<and>
     (\<forall>c < n_conns w. tc_state (conns w c) \<le> tc_state (conns w' c))"

interpretation cp: calm_steps conn_progress
  by unfold_locales (auto simp: conn_progress_def same_core_def intro: order_trans)

lemma cp_upd_loop: "cp.keeps (upd_loop l g)"
  by (rule cp.keepsI) (simp add: conn_progress_def)

lemma cp_iteration: "cp.keeps (iteration u el)"
  unfolding iteration_split runPendingTasks_def
  by (intro cp.keeps_control cp.calm_events cp.calm_task cp_upd_loop)

lemma cp_iterate: "cp.keeps (iterate (read_cb u el) (event_cb u el) (task_cb u el) el n)"
  by (induction n) (auto intro!: cp.keeps_control cp_iteration)

section \<open>Timers under the running loop\<close>

text \<open>
  The tasks that are waiting to be run: a timer task that is to be added exists, is not in the
  queue, and is to be added once; a task that is to be cancelled exists.
\<close>

definition adds :: "task list \<Rightarrow> timer_ptr list" where
  "adds ts = concat (map (\<lambda>t. case t of TkAddTask0 l p \<Rightarrow> [p] | _ \<Rightarrow> []) ts)"

definition pend_ok :: "loop_ptr \<Rightarrow> task list \<Rightarrow> world \<Rightarrow> bool" where
  "pend_ok el ts w \<longleftrightarrow> distinct (adds ts) \<and> (\<forall>p \<in> set (adds ts). idle_task el p w) \<and>
     (\<forall>l p. TkAddTask0 l p \<in> set ts \<longrightarrow> l = el) \<and>
     (\<forall>l p. TkCancel l p \<in> set ts \<longrightarrow> l = el \<and> p \<in> owned el w)"

text \<open>
  The invariant while a list of tasks is being run: \<open>rest\<close> is the part that has not been run
  yet, \<open>P\<close> are timer tasks that are in the hands of \<open>handleRead\<close>. The clock does not show a
  time before 1970, and the timer channels are those of this loop.
\<close>

definition clock_ok :: "(trace \<Rightarrow> syscall \<Rightarrow> sysret) \<Rightarrow> bool" where
  "clock_ok e \<longleftrightarrow> (\<forall>tr. 0 \<le> ret_n (e tr SysNow))"

definition own_timers :: "loop_ptr \<Rightarrow> world \<Rightarrow> bool" where
  "own_timers el w \<longleftrightarrow> (\<forall>c l. timer_reader (chans w c) = Some l \<longrightarrow> l = el)"

definition connector_timers :: "world \<Rightarrow> bool" where
  "connector_timers w \<longleftrightarrow> (\<forall>k t. cn_tt (connectors w k) = Some t \<longrightarrow> t < n_timers w)"

definition timers_ok :: "loop_ptr \<Rightarrow> timer_ptr set \<Rightarrow> task list \<Rightarrow> world \<Rightarrow> bool" where
  "timers_ok el P rest w \<longleftrightarrow> clock_ok (env w) \<and> own_timers el w \<and> connector_timers w \<and> timer_inv el w \<and> pend_ok el (rest @ el_pendingTasks (loops w el)) w \<and>
     (\<forall>p \<in> P. p < n_timers w) \<and> set (adds (rest @ el_pendingTasks (loops w el))) \<inter> P = {}"

definition timer_rel :: "loop_ptr \<Rightarrow> world \<Rightarrow> world \<Rightarrow> bool" where
  "timer_rel el w w' \<longleftrightarrow>
     (\<forall>P rest. timers_ok el P rest w \<longrightarrow> timers_ok el P rest w' \<and> callback_frame el w w')"

lemma adds_simps [simp]:
  "adds [] = []" "adds (xs @ ys) = adds xs @ adds ys" "adds (TkAddTask0 l p # ts) = p # adds ts"
  "neutral_task t \<Longrightarrow> adds (t # ts) = adds ts" "adds (TkCancel l p # ts) = adds ts"
  by (auto simp: adds_def split: task.splits)

lemma pend_ok_Cons:
  "pend_ok el (TkAddTask0 l p # ts) w \<longleftrightarrow>
     l = el \<and> idle_task el p w \<and> p \<notin> set (adds ts) \<and> pend_ok el ts w"
  "pend_ok el (TkCancel l p # ts) w \<longleftrightarrow> l = el \<and> p \<in> owned el w \<and> pend_ok el ts w"
  "neutral_task t \<Longrightarrow> pend_ok el (t # ts) w \<longleftrightarrow> pend_ok el ts w"
  by (auto simp: pend_ok_def)

lemma pend_ok_append:
  "pend_ok el (xs @ ys) w \<longleftrightarrow> pend_ok el xs w \<and> pend_ok el ys w \<and> set (adds xs) \<inter> set (adds ys) = {}"
  unfolding pend_ok_def by (auto simp: Un_iff)

lemma pend_ok_mono:
  assumes "pend_ok el ts w" and "owned el w \<subseteq> owned el w'"
    and "\<And>p. p \<in> set (adds ts) \<Longrightarrow> p \<in> queued el w' \<Longrightarrow> p \<in> queued el w"
  shows "pend_ok el ts w'"
  using assms(1) assms(2,3) unfolding pend_ok_def idle_task_def by blast

lemma timer_rel_refl: "timer_rel el w w"
  by (simp add: timer_rel_def timers_ok_def callback_frame_refl)

lemma timer_rel_trans: "timer_rel el w v \<Longrightarrow> timer_rel el v u \<Longrightarrow> timer_rel el w u"
  unfolding timer_rel_def by (blast intro: callback_frame_trans)

text \<open>Steps that do not touch the timer queue and submit no timer tasks.\<close>

lemma timer_rel_quiet:
  assumes "env w' = env w" and "timers w' = timers w" and "n_timers w' = n_timers w"
    and "el_tq (loops w' el) = el_tq (loops w el)"
    and "last_arm (timerFd el w) (trace w') = last_arm (timerFd el w) (trace w)"
    and "el_pendingTasks (loops w' el) = el_pendingTasks (loops w el) @ ts" and "\<forall>t \<in> set ts. neutral_task t"
    and "own_timers el w \<Longrightarrow> own_timers el w'" and "connector_timers w \<Longrightarrow> connector_timers w'"
  shows "timer_rel el w w'"
proof -
  have a: "adds ts = []"
    using assms(7) by (induction ts) auto
  have same: "queued el w' = queued el w" "owned el w' = owned el w" "timer_inv el w' = timer_inv el w"
    "armed el w' = armed el w" "armable el w' = armable el w"
    using assms by (simp_all add: queued_def owned_def timer_inv_def heap_of_def armed_def armable_def armed_for_def)
  have "callback_frame el w w'" if "timer_inv el w"
    using that same assms(1-4) by (simp add: callback_frame_def tasks_kept_def)
  moreover have "timers_ok el P rest w'" if "timers_ok el P rest w" for P rest
  proof -
    have "pend_ok el ts w"
      using a assms(7) by (auto simp: pend_ok_def)
    then have "pend_ok el ((rest @ el_pendingTasks (loops w el)) @ ts) w"
      using that a unfolding pend_ok_append timers_ok_def by simp
    then have "pend_ok el (rest @ el_pendingTasks (loops w' el)) w'"
      unfolding assms(6) append_assoc [symmetric] by (rule pend_ok_mono) (use same in auto)
    then show ?thesis
      using that a assms(1,3,6,8,9) same by (simp add: timers_ok_def)
  qed
  moreover have "timer_inv el w" if "timers_ok el P rest w" for P rest
    using that by (simp add: timers_ok_def)
  ultimately show ?thesis
    unfolding timer_rel_def by blast
qed

interpretation tm: conn_steps "timer_rel el" for el
proof unfold_locales
  fix t :: task and w :: world and l
  assume "neutral_task t"
  then show "timer_rel el w (w\<lparr>loops := (loops w)(l := (loops w l)\<lparr>el_pendingTasks := el_pendingTasks (loops w l) @ [t]\<rparr>)\<rparr>)"
    by (intro timer_rel_quiet [where ts = "if l = el then [t] else []"])
      (auto simp: own_timers_def connector_timers_def)
qed (rule timer_rel_refl, erule (1) timer_rel_trans,
    (rule timer_rel_quiet [where ts = "[]"]; auto simp: same_core_def own_timers_def connector_timers_def)+)


lemma pend_ok_frame: "pend_ok el ts w \<Longrightarrow> callback_frame el w w' \<Longrightarrow> pend_ok el ts w'"
  unfolding pend_ok_def using callback_frame_idle owned_kept by (metis callback_frame_def)

lemma pend_ok_fresh: "pend_ok el ts w \<Longrightarrow> p \<in> set (adds ts) \<Longrightarrow> p < n_timers w"
  by (auto simp: pend_ok_def idle_task_def owned_def)

lemma connector_timers_mono:
  "connector_timers w \<Longrightarrow> connectors w' = connectors w \<Longrightarrow> n_timers w \<le> n_timers w' \<Longrightarrow> connector_timers w'"
  by (auto simp: connector_timers_def intro: less_le_trans)

lemma tasks_kept_n: "tasks_kept w w' \<Longrightarrow> n_timers w \<le> n_timers w'"
  by (simp add: tasks_kept_def)

text \<open>Steps that add new timer tasks, directly or by submitting their addition.\<close>

lemma timers_okI:
  assumes "timers_ok el P rest w" and "callback_frame el w w'"
    and "el_pendingTasks (loops w' el) = el_pendingTasks (loops w el) @ ts"
    and "pend_ok el ts w'" and "\<forall>p \<in> set (adds ts). n_timers w \<le> p"
    and "chans w' = chans w" and "connector_timers w \<Longrightarrow> connector_timers w'"
  shows "timers_ok el P rest w'"
proof -
  let ?ts = "rest @ el_pendingTasks (loops w el)"
  have old: "pend_ok el ?ts w" "\<forall>p \<in> P. p < n_timers w" "set (adds ?ts) \<inter> P = {}"
    and env: "clock_ok (env w')" "own_timers el w'" "connector_timers w'"
    using assms(1,2,6,7) by (auto simp: timers_ok_def callback_frame_def own_timers_def)
  have "set (adds ?ts) \<inter> set (adds ts) = {}" "set (adds ts) \<inter> P = {}"
    using pend_ok_fresh [OF old(1)] old(2) assms(5) by fastforce+
  moreover have "pend_ok el ?ts w'"
    using old(1) assms(2) by (rule pend_ok_frame)
  ultimately have "pend_ok el (?ts @ ts) w'" "set (adds (?ts @ ts)) \<inter> P = {}"
    using assms(4) old(3) unfolding pend_ok_append [of el ?ts ts] by auto
  moreover have "n_timers w \<le> n_timers w'" "timer_inv el w'"
    using assms(2) by (auto simp: callback_frame_def tasks_kept_n)
  ultimately show ?thesis
    using old(2) assms(3) env by (auto simp: timers_ok_def)
qed

lemma callback_frame_added:
  assumes "timer_inv el w" and "tt_tq t = el" and "added el (n_timers w) (with_task t w) w'"
  shows "callback_frame el w w'"
proof -
  have "tasks_kept (with_task t w) w'" "timer_frame el (with_task t w) w'"
    using assms(3) by (simp_all add: added_def)
  moreover have "n_timers w \<notin> owned el w"
    by (simp add: owned_def)
  ultimately show ?thesis
    using assms armed_with_task [OF assms(1), of t] tasks_kept_trans [OF with_task_sel(10)]
      timer_frame_fields(2) [of el "with_task t w" w' el]
    unfolding callback_frame_def added_def timer_frame_def by auto
qed

lemma callback_frame_with_task:
  assumes "timer_inv el w" and "tt_index t = -1" and "tt_repeat t \<Longrightarrow> 0 < tt_interval t"
  shows "callback_frame el w (with_task t w)"
  using assms armed_with_task [OF assms(1), of t]
  by (simp add: callback_frame_def timer_inv_with_task)

lemma tm_add: "tm.keeps el (addTask el cb t iv)"
proof (rule tm.keepsI)
  fix w :: world
  let ?t = "\<lparr>tt_tq = el, tt_expire = t, tt_interval = iv, tt_repeat = iv > 0, tt_cb = cb,
    tt_index = -1, tt_canceled = False\<rparr>"
  show "wp any_panic (addTask el cb t iv) (\<lambda>_. timer_rel el w) w"
  proof (cases "timer_inv el w")
    case True
    have "timer_rel el w w'" if a: "added el (n_timers w) (with_task ?t w) w'" for w'
    proof -
      have f: "callback_frame el w w'"
        using True a by (intro callback_frame_added) auto
      moreover have "el_pendingTasks (loops w' el) = el_pendingTasks (loops w el)" "chans w' = chans w"
        "connectors w' = connectors w" "n_timers w \<le> n_timers w'"
        using a timer_frame_fields(3) [of el "with_task ?t w" w' el] by (simp_all add: added_def timer_frame_def)
      ultimately show ?thesis
        unfolding timer_rel_def
        by (auto intro: timers_okI [where ts = "[]"] connector_timers_mono simp: pend_ok_def)
    qed
    then show ?thesis
      by (intro wp_mono [OF addTask_correct [OF True, of cb t iv]]) auto
  next
    case False
    then have "timer_rel el w w'" for w'
      by (simp add: timer_rel_def timers_ok_def)
    then show ?thesis
      by (simp add: wp_def split: sum.splits)
  qed
qed


lemma timer_rel_pending:
  assumes "callback_frame el w v" and "loops v = loops w" and "env w' = env v" and "timers w' = timers v"
    and "n_timers w' = n_timers v" and "el_tq (loops w' el) = el_tq (loops v el)"
    and "last_arm (timerFd el v) (trace w') = last_arm (timerFd el v) (trace v)"
    and "el_pendingTasks (loops w' el) = el_pendingTasks (loops v el) @ ts"
    and "pend_ok el ts v" and "\<forall>p \<in> set (adds ts). n_timers w \<le> p" and "chans w' = chans w"
    and "connector_timers w \<Longrightarrow> connector_timers w'"
  shows "timer_rel el w w'"
proof -
  have same: "queued el w' = queued el v" "owned el w' = owned el v" "timer_inv el w' = timer_inv el v"
    "armed el w' = armed el v" "armable el w' = armable el v"
    using assms by (simp_all add: queued_def owned_def timer_inv_def heap_of_def armed_def armable_def armed_for_def)
  have "callback_frame el w w'"
    using assms(1,3-6) same by (simp add: callback_frame_def tasks_kept_def)
  moreover have "pend_ok el ts w'"
    using assms(9) unfolding pend_ok_def idle_task_def same(1,2) .
  ultimately show ?thesis
    unfolding timer_rel_def using assms(2,8,10-12) by (auto intro: timers_okI)
qed

lemma timer_rel_vacuous: "\<not> timer_inv el w \<Longrightarrow> timer_rel el w w'"
  by (simp add: timer_rel_def timers_ok_def)

text \<open>
  A new timer task whose addition is submitted, and which a connector may keep (\<open>k\<close> and \<open>f\<close>
  change the connectors).
\<close>

lemma tm_async:
  fixes w :: world
  assumes "\<And>x. cn_tt (f (n_timers w) x) = cn_tt x \<or> cn_tt (f (n_timers w) x) = Some (n_timers w)"
  shows "wp any_panic (newTimerTask l cb t iv) (\<lambda>tt. wp any_panic (AsyncExecute l (TkAddTask0 l tt))
    (\<lambda>_ v. timer_rel el w (v\<lparr>connectors := (connectors v)(k := f tt (connectors v k))\<rparr>))) w"
proof (cases "timer_inv el w")
  case True
  let ?t = "\<lparr>tt_tq = l, tt_expire = t, tt_interval = iv, tt_repeat = iv > 0, tt_cb = cb,
    tt_index = -1, tt_canceled = False\<rparr>"
  let ?ts = "if l = el then [TkAddTask0 l (n_timers w)] else []"
  have "pend_ok el ?ts (with_task ?t w)"
    using idle_with_task [OF True, of ?t] by (auto simp: pend_ok_def)
  moreover have "connector_timers v" if "connector_timers w" "n_timers v = Suc (n_timers w)"
    "connectors v = (connectors w)(k := f (n_timers w) (connectors w k))" for v
    using that assms [of "connectors w k"] by (auto simp: connector_timers_def less_Suc_eq)
  ultimately show ?thesis
    using True callback_frame_with_task [OF True, of ?t]
    by (auto simp: Let_def intro!: timer_rel_pending [where v = "with_task ?t w" and ts = ?ts] split: if_splits)
qed (simp add: timer_rel_vacuous Let_def)

lemma tm_add_async: "tm.keeps el (go_bind (newTimerTask l cb t iv) (\<lambda>tt.
    go_seq (AsyncExecute l (TkAddTask0 l tt)) (go_ret tt)))"
  by (rule tm.keepsI, simp only: wp_bind, rule wp_mono [OF tm_async [where f = "\<lambda>_ x. x" and el = el]])
    (auto elim!: wp_mono simp del: wp_AsyncExecute)

lemma tm_retry: "tm.keeps el (go_bind (newTimerTask l cb t iv) (\<lambda>tt.
    go_seq (AsyncExecute l (TkAddTask0 l tt)) (upd_connector k (\<lambda>x. x\<lparr>cn_tt := Some tt\<rparr>))))"
  by (rule tm.keepsI, simp only: wp_bind,
      rule wp_mono [OF tm_async [where f = "\<lambda>tt x. x\<lparr>cn_tt := Some tt\<rparr>" and k = k and el = el]])
    (auto elim!: wp_mono simp del: wp_AsyncExecute)

lemma tm_Cancel:
  fixes w :: world
  assumes "connector_timers w \<Longrightarrow> tt < n_timers w"
  shows "wp any_panic (Cancel tt) (\<lambda>_. timer_rel el w) w"
proof (cases "timer_inv el w \<and> connector_timers w")
  case True
  let ?ts = "if tt_tq (timers w tt) = el then [TkCancel el tt] else []"
  have "pend_ok el ?ts w"
    using True assms by (auto simp: pend_ok_def owned_def)
  then show ?thesis
    using True callback_frame_refl [of el w] timer_rel_refl
    by (auto simp: Cancel_def cancel_def Let_def connector_timers_def
        intro!: timer_rel_pending [where v = w and ts = ?ts] split: if_splits)
next
  case False
  then have "timer_rel el w w'" for w'
    by (auto simp: timer_rel_def timers_ok_def)
  then show ?thesis
    by (simp add: Cancel_def cancel_def Let_def)
qed

lemma tm_cancel: "tm.keeps el (go_bind (go_gets n_timers) (\<lambda>n. go_when (tt < n) (Cancel tt)))"
  by (rule tm.keepsI) (simp add: tm_Cancel timer_rel_refl)

lemma tm_stop: "tm.keeps el (go_bind (go_gets (\<lambda>w. cn_tt (connectors w k))) (\<lambda>tt.
    case tt of None \<Rightarrow> go_ret () | Some t \<Rightarrow> Cancel t))"
  by (rule tm.keepsI) (auto simp: timer_rel_refl connector_timers_def intro!: tm_Cancel split: option.split)

interpretation tm: user_steps "timer_rel el" el for el
  by unfold_locales (rule tm_add tm_add_async tm_retry tm_cancel tm_stop)+

text \<open>The contract that the timer queue has with its callbacks.\<close>

interpretation tc: timer_client "timeout_cb u el" el any_panic "timers_ok el P rest" P for u el P rest
proof unfold_locales
  fix cb w
  assume ok: "timers_ok el P rest w"
  have "wp any_panic (timeout_cb u el cb) (\<lambda>_. timer_rel el w) w"
    using tm.keeps_callbacks(1) [of el u cb] by (simp add: tm.keeps_def)
  then show "wp any_panic (timeout_cb u el cb) (\<lambda>_ w'. timers_ok el P rest w' \<and> callback_frame el w w') w"
    by (rule wp_mono) (use ok in \<open>auto simp: timer_rel_def\<close>)
next
  fix w w'
  assume "timers_ok el P rest w" "timer_frame el w w'" "n_timers w' = n_timers w"
    "\<And>e. timer_inv e w \<Longrightarrow> timer_inv e w'" "owned el w' = owned el w" "queued el w' \<subseteq> queued el w \<union> P"
  note a = this
  have "el_pendingTasks (loops w' el) = el_pendingTasks (loops w el)" "chans w' = chans w" "env w' = env w"
    "connectors w' = connectors w"
    using a(2) timer_frame_fields(3) [OF a(2)] by (simp_all add: timer_frame_def)
  moreover have "pend_ok el (rest @ el_pendingTasks (loops w el)) w'"
    by (rule pend_ok_mono [of el _ w]) (use a(1,5,6) in \<open>auto simp: timers_ok_def\<close>)
  ultimately show "timers_ok el P rest w'"
    using a(1,3,4) by (simp add: timers_ok_def own_timers_def connector_timers_def)
qed


text \<open>The invariant of the running loop: timers consistent, the timer armed.\<close>

definition timers_run :: "loop_ptr \<Rightarrow> task list \<Rightarrow> world \<Rightarrow> bool" where
  "timers_run el rest w \<longleftrightarrow> timers_ok el {} rest w \<and> armed el w"

definition timers_step :: "loop_ptr \<Rightarrow> task list \<Rightarrow> world \<Rightarrow> world \<Rightarrow> bool" where
  "timers_step el rest w w' \<longleftrightarrow> (timers_run el rest w \<longrightarrow> timers_run el rest w')"

interpretation tr: preserved "timers_step el rest" for el rest
  by unfold_locales (auto simp: timers_step_def)

lemma timer_rel_step: "timer_rel el w w' \<Longrightarrow> timers_step el rest w w'"
  by (auto simp: timer_rel_def timers_step_def timers_run_def callback_frame_def)

lemma tr_quiet: "tm.keeps el m \<Longrightarrow> tr.keeps el rest m"
  unfolding tm.keeps_def tr.keeps_def by (blast intro: wp_mono timer_rel_step)

lemma tr_handleRead: "tr.keeps el rest (tq_handleRead (timeout_cb u el) el ts)"
proof (rule tr.keepsI)
  fix w :: world
  show "wp any_panic (tq_handleRead (timeout_cb u el) el ts) (\<lambda>_. timers_step el rest w) w"
  proof (cases "timers_run el rest w")
    case True
    then have ok: "timers_ok el {} rest w" and inv: "timer_inv el w" and now: "0 \<le> read_clock el w"
      by (auto simp: timers_run_def timers_ok_def clock_ok_def read_clock_def Let_def)
    have "timers_ok el (queued el w) rest w"
      using ok timer_inv_queued [OF inv] by (auto simp: timers_ok_def pend_ok_def idle_task_def owned_def)
    from tc.handleRead_correct [OF this inv order_refl, of u ts] show ?thesis
      using now
      by (auto simp: timers_step_def timers_run_def timers_ok_def handled_def elim!: wp_mono)
  next
    case False
    then show ?thesis
      by (simp add: timers_step_def wp_def split: sum.splits)
  qed
qed

lemma tr_call_read: "tr.keeps el rest (call_read (read_cb u el) c ts)"
proof (rule tr.keepsI)
  fix w :: world
  have k: "wp any_panic m (\<lambda>_. timers_step el rest w) w" if "tr.keeps el rest m" for m :: "(world, unit) go"
    using that by (simp add: tr.keeps_def)
  show "wp any_panic (call_read (read_cb u el) c ts) (\<lambda>_. timers_step el rest w) w"
  proof (cases "ch_readCallback (chans w c)")
    case None
    then show ?thesis
      by (simp add: call_read_def timers_step_def)
  next
    case (Some cb)
    have eq: "wp any_panic (call_read (read_cb u el) c ts) Q w = wp any_panic (read_cb u el cb ts) Q w" for Q
      by (simp add: call_read_def Some)
    show ?thesis
    proof (cases "\<exists>l. cb = RcTimerQueue l \<and> l \<noteq> el")
      case True
      then have "\<not> timers_run el rest w"
        using Some by (auto simp: timers_run_def timers_ok_def own_timers_def timer_reader_Some)
      then show ?thesis
        by (simp add: timers_step_def wp_def split: sum.splits)
    next
      case False
      have "tr.keeps el rest (read_cb u el cb ts)"
      proof (cases "\<exists>l. cb = RcTimerQueue l")
        case True
        then show ?thesis
          using False tr_handleRead by auto
      qed (auto intro: tr_quiet tm.keeps_read)
      then show ?thesis
        unfolding eq by (rule k)
    qed
  qed
qed

lemma tm_loop_field:
  assumes "\<And>l. el_tq (f l) = el_tq l" and "\<And>l. el_pendingTasks (f l) = el_pendingTasks l"
  shows "tm.keeps el (upd_loop l f)"
  using assms
  by (auto intro!: tm.keepsI timer_rel_quiet [where ts = "[]"] simp: own_timers_def connector_timers_def)

lemma tr_handleEvent: "tr.keeps el rest (handleEvent (read_cb u el) (event_cb u el) c ts)"
  unfolding handleEvent_def on_revents_def
  by (intro tr.keeps_control tr_call_read tr_quiet [OF tm.keeps_upd_chan])
    (auto simp: call_event_def intro!: tr_quiet tm.keeps_control tm.keeps_event)

lemma tr_poll: "tr.keeps el rest (poll l ms)"
  unfolding poll_def epollWait_def fillActiveChannels_def Let_def
  by (rule tr_quiet) (intro tm.keeps_steps tm_loop_field; simp)

text \<open>Running one submitted task takes it off the list.\<close>

lemma timers_run_addTask0:
  assumes "timers_run el (TkAddTask0 l p # rest) w"
  shows "l = el" and "timer_inv el w" and "idle_task el p w" and "added el p w w' \<Longrightarrow> timers_run el rest w'"
proof -
  show l: "l = el" "timer_inv el w" "idle_task el p w"
    using assms by (auto simp: timers_run_def timers_ok_def pend_ok_Cons)
  assume a: "added el p w w'"
  then have k: "tasks_kept w w'" "timer_frame el w w'" "n_timers w' = n_timers w"
    and q: "queued el w' = Set.insert p (queued el w)" "timer_inv el w'" "armed el w'"
    using assms by (auto simp: added_def timers_run_def)
  have pend: "el_pendingTasks (loops w' el) = el_pendingTasks (loops w el)" "chans w' = chans w" "env w' = env w"
    "connectors w' = connectors w"
    using k(2) timer_frame_fields(3) [OF k(2)] by (simp_all add: timer_frame_def)
  have "pend_ok el (rest @ el_pendingTasks (loops w el)) w" "p \<notin> set (adds (rest @ el_pendingTasks (loops w el)))"
    using assms by (simp_all add: timers_run_def timers_ok_def pend_ok_Cons)
  note p = this
  have "pend_ok el (rest @ el_pendingTasks (loops w el)) w'"
    by (rule pend_ok_mono [OF p(1)]) (use owned_kept [OF k(1)] q(1) p(2) in auto)
  then show "timers_run el rest w'"
    using assms q k(3) pend by (simp add: timers_run_def timers_ok_def own_timers_def connector_timers_def)
qed

lemma timers_run_cancel:
  assumes "timers_run el (TkCancel l p # rest) w"
  shows "l = el" and "timer_inv el w" and "p \<in> owned el w" and "cancelled el p w w' \<Longrightarrow> timers_run el rest w'"
proof -
  show l: "l = el" "timer_inv el w" "p \<in> owned el w"
    using assms by (auto simp: timers_run_def timers_ok_def pend_ok_Cons)
  assume c: "cancelled el p w w'"
  then have k: "timer_frame el w w'" "n_timers w' = n_timers w" "timer_inv el w'" "queued el w' \<subseteq> queued el w"
    by (auto simp: cancelled_def split: if_splits)
  have pend: "el_pendingTasks (loops w' el) = el_pendingTasks (loops w el)" "chans w' = chans w" "env w' = env w"
    "connectors w' = connectors w"
    using k(1) timer_frame_fields(3) [OF k(1)] by (simp_all add: timer_frame_def)
  have "pend_ok el (rest @ el_pendingTasks (loops w el)) w"
    using assms by (simp add: timers_run_def timers_ok_def pend_ok_Cons)
  then have "pend_ok el (rest @ el_pendingTasks (loops w el)) w'"
    using k(4) cancelled_owned [OF c] pend_ok_mono by blast
  moreover have "armed el w'"
    using assms cancelled_armed(1) [OF c l(2)] by (simp add: timers_run_def)
  ultimately show "timers_run el rest w'"
    using assms k(2,3) pend by (simp add: timers_run_def timers_ok_def own_timers_def connector_timers_def)
qed

lemma run_task_next:
  assumes "timers_run el (tk # rest) w"
  shows "wp any_panic (task_cb u el tk) (\<lambda>_. timers_run el rest) w"
proof (cases "neutral_task tk")
  case True
  then have "timers_run el rest w"
    using assms by (simp add: timers_run_def timers_ok_def pend_ok_Cons)
  moreover have "wp any_panic (task_cb u el tk) (\<lambda>_. timers_step el rest w) w"
    using tr_quiet [OF tm.keeps_task [OF True]] by (simp add: tr.keeps_def)
  ultimately show ?thesis
    by (auto simp: timers_step_def elim!: wp_mono)
next
  case False
  then consider l p where "tk = TkAddTask0 l p" | l p where "tk = TkCancel l p"
    by (cases tk) auto
  then show ?thesis
  proof cases
    case 1
    note t = timers_run_addTask0 [OF assms [unfolded 1]]
    show ?thesis
      unfolding 1 t(1) task_cb.simps by (rule wp_mono [OF addTask0_correct [OF t(2,3)]]) (auto intro: t(4))
  next
    case 2
    note t = timers_run_cancel [OF assms [unfolded 2]]
    show ?thesis
      unfolding 2 t(1) task_cb.simps by (rule wp_mono [OF cancelTask_correct [OF t(2,3)]]) (auto intro: t(4))
  qed
qed

lemma run_tasks: "timers_run el ts w \<Longrightarrow> wp any_panic (go_for ts (task_cb u el)) (\<lambda>_. timers_run el []) w"
proof (induction ts arbitrary: w)
  case (Cons tk ts)
  then show ?case
    using run_task_next [OF Cons.prems, of u] by (auto elim!: wp_mono)
qed simp


lemma tr_after:
  "tr.keeps el rest m \<Longrightarrow> timers_run el rest w \<Longrightarrow> wp any_panic m (\<lambda>_. timers_run el rest) w"
  unfolding tr.keeps_def timers_step_def by (blast intro: wp_mono)

lemma run_pending: "timers_run el [] w \<Longrightarrow> wp any_panic (runPendingTasks (task_cb u el) el) (\<lambda>_. timers_run el []) w"
proof -
  assume run: "timers_run el [] w"
  let ?pt = "el_pendingTasks (loops w el)"
  define v where "v = w\<lparr>loops := (loops w)(el := (loops w el)\<lparr>el_runningPendingTasks := True, el_pendingTasks := []\<rparr>)\<rparr>"
  have same: "timers v = timers w" "n_timers v = n_timers w" "env v = env w" "trace v = trace w"
    "el_tq (loops v el) = el_tq (loops w el)" "chans v = chans w" "el_pendingTasks (loops v el) = []"
    "connectors v = connectors w"
    by (simp_all add: v_def)
  then have q: "queued el v = queued el w" "owned el v = owned el w" "timer_inv el v = timer_inv el w"
    "armed el v = armed el w"
    by (simp_all add: queued_def owned_def timer_inv_def heap_of_def armed_def armed_for_def)
  have "timers_run el ?pt v"
    using run pend_ok_mono [of el ?pt w v] 
    by (simp add: timers_run_def timers_ok_def same q own_timers_def connector_timers_def)
  then have "wp any_panic (go_for ?pt (task_cb u el)) (\<lambda>_. timers_run el []) v"
    by (rule run_tasks)
  moreover have "wp any_panic (upd_loop el (\<lambda>l. l\<lparr>el_runningPendingTasks := False\<rparr>)) (\<lambda>_. timers_run el []) v'"
    if "timers_run el [] v'" for v'
    using that by (intro tr_after tr_quiet tm_loop_field) auto
  ultimately have "wp any_panic (go_seq (go_for ?pt (task_cb u el))
      (upd_loop el (\<lambda>l. l\<lparr>el_runningPendingTasks := False\<rparr>))) (\<lambda>_. timers_run el []) v"
    unfolding wp_seq by (rule wp_mono)
  then show ?thesis
    by (simp add: runPendingTasks_def v_def)
qed

lemma run_iteration: "timers_run el [] w \<Longrightarrow> wp any_panic (iteration u el) (\<lambda>_. timers_run el []) w"
proof -
  assume run: "timers_run el [] w"
  have events: "tr.keeps el [] (serve_events u el)"
    by (intro tr.keeps_control tr_poll tr_handleEvent tr_quiet [OF tm_loop_field]) simp_all
  show ?thesis
    unfolding iteration_split by (rule wp_seqI [OF tr_after [OF events run] run_pending])
qed

lemma run_iterate:
  "timers_run el [] w \<Longrightarrow>
   wp any_panic (iterate (read_cb u el) (event_cb u el) (task_cb u el) el n) (\<lambda>_. timers_run el []) w"
proof (induction n arbitrary: w)
  case (Suc n)
  then show ?case
    using wp_mono [OF run_iteration [OF Suc.prems, of u]] Suc.IH by simp
qed simp

section \<open>Stopping\<close>

text \<open>A loop that was told to stop stays told, and its pending tasks are only added to.\<close>

definition stop_kept :: "world \<Rightarrow> world \<Rightarrow> bool" where
  "stop_kept w w' \<longleftrightarrow> (\<forall>l. (el_quit (loops w l) \<noteq> 0 \<longrightarrow> el_quit (loops w' l) \<noteq> 0) \<and>
     set (el_pendingTasks (loops w l)) \<subseteq> set (el_pendingTasks (loops w' l)))"

interpretation sk: calm_steps stop_kept
proof unfold_locales
  fix w w' :: world
  assume "\<And>l. el_quit (loops w' l) = el_quit (loops w l)"
    "\<And>l. \<exists>ts. el_pendingTasks (loops w' l) = el_pendingTasks (loops w l) @ ts"
  then show "stop_kept w w'"
    unfolding stop_kept_def by (metis set_append Un_upper1)
qed (auto simp: stop_kept_def same_core_def)

text \<open>Programs that call \<open>Stop\<close> or \<open>AsyncStop\<close> on the loop at some point, whatever they see on the way.\<close>

inductive reaches_stop :: "loop_ptr \<Rightarrow> prog \<Rightarrow> bool" for el where
  stop: "reaches_stop el (Call (ApStop el) k)"
| async_stop: "reaches_stop el (Call (ApAsyncStop el) k)"
| later: "(\<And>w. reaches_stop el (k w)) \<Longrightarrow> reaches_stop el (Call a k)"

abbreviation quits :: "loop_ptr \<Rightarrow> world \<Rightarrow> bool" where
  "quits el w \<equiv> el_quit (loops w el) \<noteq> 0"

lemma quits_after: "sk.keeps m \<Longrightarrow> quits el w \<Longrightarrow> wp any_panic m (\<lambda>_. quits el) w"
  unfolding sk.keeps_def stop_kept_def by (blast intro: wp_mono)

lemma stopping_prog: "reaches_stop el p \<Longrightarrow> wp any_panic (run_prog el p) (\<lambda>_. quits el) w"
proof (induction arbitrary: w rule: reaches_stop.induct)
  case (later k a)
  have called: "wp any_panic (run_api el a) (\<lambda>_ _. True) v" for v
    by (simp add: wp_def split: sum.splits)
  show ?case
    unfolding run_prog.simps by (rule wp_seqI [OF called]) (simp add: later.IH)
qed (use quits_after [OF sk.keeps_prog] in \<open>auto simp: Stop_def AsyncStop_def Wakeup_def\<close>)

lemma stopping_tasks:
  assumes "reaches_stop el (u_task u k)" and "TkUser k \<in> set ts"
  shows "wp any_panic (go_for ts (task_cb u el)) (\<lambda>_. quits el) w"
proof -
  obtain xs ys where ts: "ts = xs @ TkUser k # ys"
    using assms(2) by (meson split_list)
  have "wp any_panic (go_for (TkUser k # ys) (task_cb u el)) (\<lambda>_. quits el) v" for v
    unfolding go_for.simps wp_seq
    by (rule wp_mono [of _ _ "\<lambda>_. quits el"])
      (auto intro!: stopping_prog assms(1) quits_after sk.keeps_control sk.calm_task)
  then show ?thesis
    unfolding ts go_for_append wp_seq by (simp add: wp_def split: sum.splits)
qed

lemma stopping_iteration:
  assumes "reaches_stop el (u_task u k)" and "TkUser k \<in> set (el_pendingTasks (loops w el))"
  shows "wp any_panic (iteration u el) (\<lambda>_. quits el) w"
proof -
  have "wp any_panic (serve_events u el) (\<lambda>_ v. TkUser k \<in> set (el_pendingTasks (loops v el))) w"
    using sk.calm_events [where u = u and el = el] assms(2) unfolding sk.keeps_def stop_kept_def by (blast intro: wp_mono)
  then show ?thesis
    unfolding iteration_split
  proof (rule wp_seqI)
    fix v :: world
    assume "TkUser k \<in> set (el_pendingTasks (loops v el))"
    note run = stopping_tasks [OF assms(1) this]
    have "wp any_panic (go_seq (go_for (el_pendingTasks (loops v el)) (task_cb u el))
        (upd_loop el (\<lambda>l. l\<lparr>el_runningPendingTasks := False\<rparr>))) (\<lambda>_. quits el) x" for x
      by (rule wp_seqI [OF run]) simp
    then show "wp any_panic (runPendingTasks (task_cb u el) el) (\<lambda>_. quits el) v"
      unfolding runPendingTasks_def wp_bind wp_gets wp_seq by simp
  qed
qed

lemma iterate_quits: "quits el w \<Longrightarrow> iterate rcb ecb tkb el n w = Inr (True, w)"
  by (cases n) (simp_all add: go_defs)

section \<open>Properties\<close>

text \<open>
  C1: no timer is lost. From program start (a kernel that behaves as documented and a clock after
  1970, with any network) a loop is made by \<open>NewEventloop\<close>, any user program runs, which may
  schedule and cancel timers, submit tasks and open servers, clients and connections, and the loop
  makes any number of iterations, in which it calls whatever functions the user has installed, and
  these again call whatever they want. Unless something panics, the timer queue is consistent
  afterwards, and if a task is queued, the last setting of the timer asked for is the one for the
  earliest task.
\<close>

theorem timers_always_armed:
  assumes "epoll_ctl_spec e" and "creates e" and "fresh_fds e" and "clock_ok e"
  shows "wp any_panic
    (go_bind (NewEventloop name) (\<lambda>el. go_seq (run_prog el p)
      (iterate (read_cb u el) (event_cb u el) (task_cb u el) el n)))
    (\<lambda>_ w'. timer_inv 0 w' \<and> armed 0 w') (blank_world e\<lparr>net := rs\<rparr>)"
proof -
  let ?w = "blank_world e\<lparr>net := rs\<rparr>"
  have start: "stores_ok ?w" "env ?w = e" "legal_trace (trace ?w)" "n_loops ?w = 0"
    by (simp_all add: stores_ok_def blank_world_def)
  note made = with_wakeup_ok [of ?w, unfolded start(2,4), OF start(1) assms(1) start(3) assms(2,3), of name]
  have "ch_readCallback (chans (with_wakeup name ?w) c) \<in> {None, Some (RcTimerQueue 0), Some (RcWakeup 0)}" for c
    by (simp add: with_wakeup_def with_timers_def Let_def step_defs start) (simp add: blank_defs)
  note cbs = this
  have "own_timers 0 (with_wakeup name ?w)"
    unfolding own_timers_def
  proof (intro allI impI)
    fix c l
    assume "timer_reader (chans (with_wakeup name ?w) c) = Some l"
    then show "l = 0"
      using cbs [of c] by (simp add: timer_reader_Some)
  qed
  moreover have "connectors (with_wakeup name ?w) = (\<lambda>_. blank_connector)"
    by (simp add: with_wakeup_connectors blank_world_def)
  ultimately have "timers_run 0 [] (with_wakeup name ?w)"
    using made(1) with_wakeup_frame(1) [OF start(1), of name] assms(4) start(2)
    by (simp add: timers_run_def timers_ok_def new_loop_ok_def pend_ok_def connector_timers_def blank_connector_def)
  then have "wp any_panic (run_prog 0 p) (\<lambda>_. timers_run 0 []) (with_wakeup name ?w)"
    by (intro tr_after tr_quiet tm.keeps_prog)
  then have "wp any_panic (go_seq (run_prog 0 p) (iterate (read_cb u 0) (event_cb u 0) (task_cb u 0) 0 n))
      (\<lambda>_. timers_run 0 []) (with_wakeup name ?w)"
    using run_iterate by (rule wp_seqI)
  then show ?thesis
    by (simp add: wp_eq [where m = "NewEventloop name", OF made(2)] del: wp_seq)
      (erule wp_mono, simp_all add: timers_run_def timers_ok_def)
qed

text \<open>
  C9: exactly the tasks that are due are run. \<open>handleRead\<close> takes the queued tasks that have
  expired, in the order of their expiration times, and calls the functions of those that were
  not cancelled before the call, in that order and each once, before it resets the queue; the
  functions may be any user programs. A task that an earlier function of the same batch cancels is
  called all the same, because \<open>Cancel\<close> only submits the cancellation.
\<close>

theorem expired_tasks_run:
  assumes "timers_ok el {} [] w"
  shows "\<exists>ret v. distinct ret \<and> sorted (map (\<lambda>p. tt_expire (timers w p)) ret) \<and>
    set ret = {p \<in> queued el w. tt_expire (timers w p) \<le> read_clock el w} \<and>
    queued el v = queued el w - set ret \<and>
    tq_handleRead (timeout_cb u el) el ts w =
      go_seq (go_for (map (\<lambda>p. tt_cb (timers w p)) (filter (\<lambda>p. \<not> tt_canceled (timers w p)) ret)) (timeout_cb u el))
        (reset el ret (read_clock el w)) v"
proof -
  let ?now = "read_clock el w" and ?w = "after_read el w"
  have inv: "timer_inv el w"
    using assms by (simp add: timers_ok_def)
  then obtain ret v where get: "getExpired el ?now ?w = Inr (ret, v)" and t: "taken el ?now ret ?w v"
    using getExpired_correct [of el ?w ?now] by (auto simp: wp_returns)
  have read: "timers_ok el {} [] ?w"
    by (rule tc.frame [OF assms]) simp_all
  have other: "timer_inv e' v" if "timer_inv e' ?w" for e'
    using t that by (cases "e' = el") (auto simp: taken_def)
  have ok: "timers_ok el {} [] v"
    by (rule tc.frame [OF read]) (use t taken_owned [OF t] other in \<open>auto simp: taken_def\<close>)
  have k: "tasks_kept w v" "timer_inv el v" and n: "n_timers v = n_timers w"
    using t by (auto simp: taken_def tasks_kept_def)
  have ret: "\<forall>p \<in> set ret. p < n_timers v"
    using t timer_inv_queued [OF inv] by (auto simp: taken_def owned_def n)
  have "due ret v = due ret w"
    using ret n tasks_kept_fields [OF k(1)] unfolding due_def by (auto intro!: map_cong filter_cong)
  then have "go_for ret (run_expired (timeout_cb u el)) v = go_for (due ret w) (timeout_cb u el) v"
    using tc.run_expired_due [OF ok k(2) ret] by simp
  then have "tq_handleRead (timeout_cb u el) el ts w =
      go_seq (go_for (due ret w) (timeout_cb u el)) (reset el ret ?now) v"
    unfolding tq_handleRead_unfold by (simp add: get go_bind_def go_seq_def)
  moreover have "queued el v = queued el w - set ret"
    using t by (auto simp: taken_def)
  ultimately show ?thesis
    using t by (intro exI [of _ ret] exI [of _ v]) (simp add: taken_def due_def)
qed

text \<open>
  C11: what \<open>handleRead\<close> does to the tasks that existed. A repeating task that was due and not
  cancelled is queued again, one interval after the time of the call; the other tasks that
  were due have left the queue; all others are untouched; and the timer is armed.
\<close>

theorem handleRead_reschedules:
  assumes "timers_ok el {} [] w"
  shows "wp any_panic (tq_handleRead (timeout_cb u el) el ts) (\<lambda>_. handled el (read_clock el w) w) w"
proof -
  have inv: "timer_inv el w" and "timers_ok el (queued el w) [] w"
    using assms timer_inv_queued [of el w]
    by (auto simp: timers_ok_def pend_ok_def idle_task_def owned_def)
  from tc.handleRead_correct [OF this(2) inv order_refl, of u ts] show ?thesis
    by (auto elim!: wp_mono)
qed

text \<open>
  C22: stopping. If a user task is pending whose function calls \<open>Stop\<close> or \<open>AsyncStop\<close> on its loop, at
  whatever point, then \<open>Loop\<close> ends with the iteration in which the task runs, which is the
  first one: whatever events are dispatched, whatever other tasks and functions do, and whatever they install, \<open>Loop\<close> returns
  unless something panics, \<open>looping\<close> is cleared, and the last calls close the eventfd and the
  timer descriptor.
\<close>

theorem Stop_ends_loop:
  assumes "TkUser k \<in> set (el_pendingTasks (loops w el))" and "reaches_stop el (u_task u k)"
  shows "wp any_panic (Loop (read_cb u el) (event_cb u el) (task_cb u el) el (Suc n)) (\<lambda>stopped w'.
    stopped \<and> el_looping (loops w' el) = 0 \<and>
    (\<exists>tr. map fst (trace w') = tr @ [SysClose (el_evtFd (loops w' el)), SysClose (timerFd el w')])) w"
proof -
  let ?w = "started el w" and ?it = "iterate (read_cb u el) (event_cb u el) (task_cb u el) el"
  have "el_quit (loops ?w el) = 0" "TkUser k \<in> set (el_pendingTasks (loops ?w el))"
    using assms(1) by (simp_all add: started_def set_loop_def)
  then have "wp any_panic (?it (Suc n)) (\<lambda>stopped _. stopped) ?w"
    using wp_mono [OF stopping_iteration [OF assms(2)]]
    by (simp add: wp_eq [where m = "?it n", OF iterate_quits])
  then show ?thesis
    unfolding wp_def Loop_unfold
    by (auto simp: destroyed_def add_call_def set_loop_def split: sum.splits)
qed

text \<open>
  C10: a connection never goes back to an earlier state (\<open>Connecting\<close>, \<open>Connected\<close>,
  \<open>Disconnecting\<close>, \<open>Disconnected\<close>), through any number of iterations of the loop with any user
  functions.
\<close>

theorem connections_move_forward:
  "wp any_panic (iterate (read_cb u el) (event_cb u el) (task_cb u el) el n)
     (\<lambda>_ w'. n_conns w \<le> n_conns w' \<and>
        (\<forall>c < n_conns w. tc_state (conns w c) \<le> tc_state (conns w' c))) w"
  using cp_iterate [of u el n] unfolding cp.keeps_def conn_progress_def by (rule spec)

section \<open>Witnesses\<close>

lemma counting_clock: "clock_ok counting_kernel"
  by (simp add: clock_ok_def counting_kernel_def)

definition idle_user :: user where
  "idle_user = \<lparr>u_timeout = (\<lambda>_. Done), u_read = (\<lambda>_ _. Done), u_event = (\<lambda>_. Done), u_task = (\<lambda>_. Done),
     u_conn = (\<lambda>_ _. Done), u_msg = (\<lambda>_ _ _. Done), u_close = (\<lambda>_ _. Done),
     u_connect = (\<lambda>_ _. Done), u_async = (\<lambda>_ _ e. (Done, e))\<rparr>"

text \<open>A program that schedules two timers, one of them repeating.\<close>

definition two_schedules :: prog where
  "two_schedules = Call (ApSchedule (ToUser 0) 5) (\<lambda>_. Call (ApScheduleAtFixRate (ToUser 1) 7) (\<lambda>_. Done))"

lemma schedules_queue:
  assumes "timer_inv 0 w"
  shows "wp no_panic (run_prog 0 (Call (ApSchedule cb t) (\<lambda>_. Done))) (\<lambda>_ w'. n_timers w \<in> queued 0 w') w"
  using addTask_correct [OF assms, of cb t 0]
  by (auto simp: drop_result_def Schedule_def added_def elim!: wp_mono)

lemma schedule_at_start:
  fixes u :: user
  defines "m \<equiv> go_bind (NewEventloop ''boss'') (\<lambda>el. go_seq (run_prog el (Call (ApSchedule (ToUser 0) 5) (\<lambda>_. Done)))
    (iterate (read_cb u el) (event_cb u el) (task_cb u el) el 0))"
  shows "\<exists>b w'. m (blank_world counting_kernel\<lparr>net := rs\<rparr>) = Inr (b, w') \<and> queued 0 w' \<noteq> {}"
proof -
  let ?w = "blank_world counting_kernel\<lparr>net := rs\<rparr>"
  have "stores_ok ?w" "env ?w = counting_kernel" "legal_trace (trace ?w)" "n_loops ?w = 0"
    by (simp_all add: stores_ok_def blank_world_def)
  note start = this
  note made = with_wakeup_ok [of ?w, unfolded start(2,4), OF start(1) counting_kernel_ok(1) start(3)
      counting_kernel_ok(2,3), of "''boss''"]
  have "timer_inv 0 (with_wakeup ''boss'' ?w)"
    using made(1) by (simp add: new_loop_ok_def)
  from schedules_queue [OF this, of "ToUser 0" 5]
  obtain v where "run_prog 0 (Call (ApSchedule (ToUser 0) 5) (\<lambda>_. Done)) (with_wakeup ''boss'' ?w) = Inr ((), v)"
    "queued 0 v \<noteq> {}"
    unfolding wp_returns by auto
  then show ?thesis
    by (simp add: m_def made(2) go_bind_def go_seq_def go_gets_def go_ret_def del: run_prog.simps)
qed

theorem timers_always_armed_witness:
  "wp any_panic (go_bind (NewEventloop ''boss'') (\<lambda>el. go_seq (run_prog el two_schedules)
     (iterate (read_cb idle_user el) (event_cb idle_user el) (task_cb idle_user el) el 3)))
     (\<lambda>_ w'. timer_inv 0 w' \<and> armed 0 w') (blank_world counting_kernel\<lparr>net := two_hosts\<rparr>) \<and>
   (\<exists>b w'. go_bind (NewEventloop ''boss'') (\<lambda>el. go_seq (run_prog el (Call (ApSchedule (ToUser 0) 5) (\<lambda>_. Done)))
       (iterate (read_cb idle_user el) (event_cb idle_user el) (task_cb idle_user el) el 0))
       (blank_world counting_kernel\<lparr>net := two_hosts\<rparr>) = Inr (b, w') \<and>
     queued 0 w' \<noteq> {} \<and> armed_for 0 (top_expire 0 w') w')"
proof -
  note t = timers_always_armed [OF counting_kernel_ok(1-3) counting_clock, of "''boss''" _ idle_user _ two_hosts]
  show ?thesis
    using t [of two_schedules 3] schedule_at_start [of idle_user two_hosts]
      wp_result [OF _ t [of "Call (ApSchedule (ToUser 0) 5) (\<lambda>_. Done)" 0]]
    by (auto simp: armed_def)
qed

theorem connections_move_forward_witness:
  "wp any_panic (iterate (read_cb idle_user 0) (event_cb idle_user 0) (task_cb idle_user 0) 0 3)
     (\<lambda>_ w'. 1 \<le> n_conns w' \<and> Connected \<le> tc_state (conns w' 0)) client_open"
  by (rule wp_mono [OF connections_move_forward]) (simp_all add: client_open_def)

lemma two_timers_ok: "timers_ok 0 {} [] two_timers"
  using two_timers_inv
  by (simp add: timers_ok_def pend_ok_def clock_ok_def own_timers_def connector_timers_def timer_reader_Some
      two_timers_def blank_defs quiet_kernel_def)

text \<open>The same tasks at time 7, when the first one is due, and a user whose functions schedule another.\<close>

definition late_kernel :: "trace \<Rightarrow> syscall \<Rightarrow> sysret" where
  "late_kernel tr s = (if s = SysNow then (quiet_kernel tr s)\<lparr>ret_n := 7\<rparr> else quiet_kernel tr s)"

definition late_timers :: world where
  "late_timers = two_timers\<lparr>env := late_kernel\<rparr>"

definition busy_user :: user where
  "busy_user = idle_user\<lparr>u_timeout := (\<lambda>_. Call (ApSchedule (ToUser 2) 20) (\<lambda>_. Done))\<rparr>"

lemma late_timers_sel:
  "timers late_timers = timers two_timers" "queued 0 late_timers = {0, 1}" "read_clock 0 late_timers = 7"
  "owned 0 late_timers = {0, 1}" "timer_inv 0 late_timers"
  "{p \<in> {0, 1}. tt_expire (timers two_timers p) \<le> 7} = {0 :: timer_ptr}"
  "tt_cb (timers two_timers 0) = ToUser 0" "tt_expire (timers two_timers 0) = 5"
proof -
  show "timer_inv 0 late_timers"
    using two_timers_inv by (simp add: timer_inv_def late_timers_def owned_def heap_of_def)
  show "owned 0 late_timers = {0, 1}"
    using two_timers_owned by (simp add: late_timers_def owned_def)
  show "queued 0 late_timers = {0, 1}"
    using two_timers_queued by (simp add: late_timers_def queued_def)
qed (auto simp: late_timers_def read_clock_def late_kernel_def quiet_kernel_def two_timers_def blank_defs)

lemma late_timers_ok: "timers_ok 0 {} [] late_timers"
  using late_timers_sel(5)
  by (simp add: timers_ok_def pend_ok_def clock_ok_def own_timers_def connector_timers_def timer_reader_Some
      late_timers_def late_kernel_def two_timers_def blank_defs quiet_kernel_def)

theorem expired_tasks_run_witness:
  "\<exists>v. queued 0 v = {1} \<and> tq_handleRead (timeout_cb busy_user 0) 0 7 late_timers =
     go_seq (go_for [ToUser 0] (timeout_cb busy_user 0)) (reset 0 [0] 7) v"
proof -
  obtain ret v where r: "distinct ret" "set ret = {0}" "queued 0 v = {0, 1} - set ret"
    "tq_handleRead (timeout_cb busy_user 0) 0 7 late_timers =
      go_seq (go_for (map (\<lambda>p. tt_cb (timers late_timers p)) (filter (\<lambda>p. \<not> tt_canceled (timers late_timers p)) ret))
        (timeout_cb busy_user 0)) (reset 0 ret 7) v"
    using expired_tasks_run [OF late_timers_ok, of busy_user 7] unfolding late_timers_sel by blast
  have "ret = [0]"
    using r(1,2) by (cases ret; cases "tl ret") auto
  then show ?thesis
    using r(3,4) by (auto simp: late_timers_sel two_timers_def blank_defs)
qed

theorem handleRead_reschedules_witness:
  "wp any_panic (tq_handleRead (timeout_cb busy_user 0) 0 7) (\<lambda>_ w'. 0 \<in> queued 0 w' \<and> 1 \<in> queued 0 w' \<and>
     tt_expire (timers w' 0) = 14 \<and> tt_expire (timers w' 1) = 9 \<and> armed 0 w') late_timers"
proof (rule wp_mono [OF handleRead_reschedules [OF late_timers_ok]])
  fix w' :: world
  assume h: "handled 0 (read_clock 0 late_timers) late_timers w'"
  have "(timers w' 0)\<lparr>tt_index := 0\<rparr> = (restarted 7 (timers two_timers 0))\<lparr>tt_index := 0\<rparr>"
    "(timers w' 1)\<lparr>tt_index := 0\<rparr> = (timers two_timers 1)\<lparr>tt_index := 0\<rparr>"
    using h by (auto simp: handled_def late_timers_sel two_timers_def blank_defs)
  from this [THEN arg_cong [where f = tt_expire]]
  have "tt_expire (timers w' 0) = 14" "tt_expire (timers w' 1) = 9"
    by (simp_all add: restarted_def again_def two_timers_def blank_timer_def)
  moreover have "0 \<in> queued 0 w'" "1 \<in> queued 0 w'" "armed 0 w'"
    using h by (auto simp: handled_def late_timers_sel again_def two_timers_def blank_defs)
  ultimately show "0 \<in> queued 0 w' \<and> 1 \<in> queued 0 w' \<and>
     tt_expire (timers w' 0) = 14 \<and> tt_expire (timers w' 1) = 9 \<and> armed 0 w'"
    by blast
qed simp

text \<open>A loop with one pending task, which stops it.\<close>

definition stopping :: world where
  "stopping = (blank_world quiet_kernel)\<lparr>n_loops := 1,
     loops := (\<lambda>_. blank_loop\<lparr>el_pendingTasks := [TkUser 0]\<rparr>)\<rparr>"

definition stopping_user :: user where
  "stopping_user = idle_user\<lparr>u_task := (\<lambda>_. Call (ApStop 0) (\<lambda>_. Done))\<rparr>"

theorem Stop_ends_loop_witness:
  "\<exists>w'. Loop (read_cb stopping_user 0) (event_cb stopping_user 0) (task_cb stopping_user 0) 0 1 stopping =
       Inr (True, w') \<and> el_looping (loops w' 0) = 0"
proof -
  let ?loop = "Loop (read_cb stopping_user 0) (event_cb stopping_user 0) (task_cb stopping_user 0) 0 1"
  have "\<exists>b w'. ?loop stopping = Inr (b, w')"
    by (simp add: Loop_unfold loop_body_def poll_def epollWait_def runPendingTasks_def Stop_def upd_poller_def
        stopping_user_def go_defs world_defs Let_def started_def set_loop_def stopping_def blank_defs quiet_kernel_def)
      blast
  moreover have "wp any_panic ?loop (\<lambda>stopped w'. stopped \<and> el_looping (loops w' 0) = 0) stopping"
    using wp_mono [OF Stop_ends_loop [of 0 stopping 0 stopping_user 0]]
    by (simp add: stopping_def stopping_user_def reaches_stop.stop)
  ultimately show ?thesis
    by (auto dest: wp_result)
qed

end
