(* ===== verification/Memcached_Item.thy ===== *)
theory Memcached_Item
  imports Tcp_Server
begin

unbundle bit_operations_syntax

text \<open>
  \<open>examples/memcached/server/item.go\<close>: the cached items, with what the example uses of the
  standard library: \<open>hash/crc64\<close>, \<open>bytes.Fields\<close> and the number parsers of \<open>strconv\<close>. The
  methods of an item are operations on the item as state.
\<close>

section \<open>Standard library\<close>

definition bytes_of :: "string \<Rightarrow> byte list" where
  "bytes_of s = map (\<lambda>c. word_of_nat (of_char c)) s"

text \<open>\<open>crc64.MakeTable(crc64.ISO)\<close> and \<open>crc64.Checksum\<close>.\<close>

definition crc64_step :: "uint64 \<Rightarrow> uint64" where
  "crc64_step crc = (if crc AND 1 = 1 then drop_bit 1 crc XOR 0xD800000000000000 else drop_bit 1 crc)"

definition crc64_table :: "byte \<Rightarrow> uint64" where
  "crc64_table i = (crc64_step ^^ 8) (ucast i)"

definition crc64_Checksum :: "byte list \<Rightarrow> uint64" where
  "crc64_Checksum p =
     NOT (foldl (\<lambda>crc v. crc64_table (ucast crc XOR v) XOR drop_bit 8 crc) (NOT 0) p)"

text \<open>
  \<open>bytes.Fields\<close>: the maximal runs without white space. White space is \<open>unicode.IsSpace\<close> of
  the UTF-8 decoded runes; \<open>space_width\<close> is the length of the white-space rune at the front,
  0 if there is none. No encoding of a white-space rune starts with a continuation byte, so
  looking at every byte position finds the same ones as decoding does.
\<close>

definition space_width :: "byte list \<Rightarrow> nat" where
  "space_width p = (case p of
       [] \<Rightarrow> 0
     | a # q \<Rightarrow>
         if a \<in> {9, 10, 11, 12, 13, 32} then 1
         else if a = 0xC2 \<and> (take 1 q = [0x85] \<or> take 1 q = [0xA0]) then 2
         else if a = 0xE1 \<and> take 2 q = [0x9A, 0x80] \<or>
           a = 0xE2 \<and> (\<exists>b \<in> {0x80, 0x81, 0x82, 0x83, 0x84, 0x85, 0x86, 0x87, 0x88, 0x89, 0x8A, 0xA8, 0xA9, 0xAF}.
             take 2 q = [0x80, b]) \<or>
           a = 0xE2 \<and> take 2 q = [0x81, 0x9F] \<or> a = 0xE3 \<and> take 2 q = [0x80, 0x80] then 3
         else 0)"

function fields_from :: "byte list \<Rightarrow> byte list \<Rightarrow> byte list list" where
  "fields_from cur p =
     (if p = [] then (if cur = [] then [] else [cur])
      else if space_width p = 0 then fields_from (cur @ [hd p]) (tl p)
      else (if cur = [] then [] else [cur]) @ fields_from [] (drop (space_width p) p))"
  by pat_completeness auto
termination
  by (relation "measure (\<lambda>(cur, p). length p)") auto

declare fields_from.simps [simp del]

definition Fields :: "byte list \<Rightarrow> byte list list" where
  "Fields p = fields_from [] p"

text \<open>
  \<open>strconv.ParseUint\<close> and \<open>ParseInt\<close> in base 10: the value, which on an error is 0 or the
  nearest number in range, and the error.
\<close>

datatype numError = ErrSyntax | ErrRange

fun parse_digits :: "int \<Rightarrow> int \<Rightarrow> string \<Rightarrow> int \<times> numError option" where
  "parse_digits maxVal n [] = (n, None)"
| "parse_digits maxVal n (c # cs) =
     (if of_char c < (48::int) \<or> of_char c > (57::int) then (0, Some ErrSyntax)
      else let n1 = 10 * n + (of_char c - 48) in
        if n1 > maxVal then (maxVal, Some ErrRange) else parse_digits maxVal n1 cs)"

definition ParseUint :: "string \<Rightarrow> nat \<Rightarrow> int \<times> numError option" where
  "ParseUint s bitSize =
     (if s = [] then (0, Some ErrSyntax) else parse_digits (2 ^ bitSize - 1) 0 s)"

definition ParseInt :: "string \<Rightarrow> nat \<Rightarrow> int \<times> numError option" where
  "ParseInt s bitSize =
     (if s = [] then (0, Some ErrSyntax)
      else
        let neg = (hd s = CHR ''-''); t = (if hd s \<in> {CHR ''+'', CHR ''-''} then tl s else s);
            (un, err) = ParseUint t bitSize; cutoff = 2 ^ (bitSize - 1) in
        if err = Some ErrSyntax then (0, err)
        else if \<not> neg \<and> un \<ge> cutoff then (cutoff - 1, Some ErrRange)
        else if neg \<and> un > cutoff then (- cutoff, Some ErrRange)
        else (if neg then - un else un, None))"

section \<open>Items\<close>

datatype UpdatePolicy = Invalid | Set | Add | Replace | Append | Prepend | Cas

record item =
  it_keylen :: int
  it_flags :: uint32
  it_exptime :: int
  it_valuelen :: int
  it_recvBytes :: int
  it_cas :: uint64
  it_hash :: uint64
  it_data :: "byte list"

definition hash :: "byte list \<Rightarrow> uint64" where
  "hash key = crc64_Checksum key"

definition NewItem :: "byte list \<Rightarrow> uint32 \<Rightarrow> int \<Rightarrow> int \<Rightarrow> uint64 \<Rightarrow> ('s, item) go" where
  "NewItem key flags exptime valuelen cas =
     (let keylen = int (length key) in
      go_bind (go_make 0 (keylen + valuelen)) (\<lambda>data.
      go_ret \<lparr>it_keylen = keylen, it_flags = flags, it_exptime = exptime, it_valuelen = valuelen,
        it_recvBytes = 0, it_cas = cas, it_hash = hash key, it_data = data\<rparr>))"

definition NeedBytes :: "item \<Rightarrow> int" where
  "NeedBytes it = it_keylen it + it_valuelen it - it_recvBytes it"

definition item_Append :: "byte list \<Rightarrow> (item, unit) go" where
  "item_Append data =
     go_bind (\<lambda>it. go_slice (it_data it) (it_recvBytes it) (int (length (it_data it))) it) (\<lambda>_.
     go_modify (\<lambda>it. it\<lparr>it_data := copy_at (nat (it_recvBytes it)) data (it_data it),
       it_recvBytes := it_recvBytes it + int (length data)\<rparr>))"

definition EndWithCRLF :: "item \<Rightarrow> ('s, bool) go" where
  "EndWithCRLF it =
     go_bind (go_index (it_data it) (it_recvBytes it - 2)) (\<lambda>a.
     if a = 13 then go_bind (go_index (it_data it) (it_recvBytes it - 1)) (\<lambda>b. go_ret (b = 10))
     else go_ret False)"

definition item_Key :: "item \<Rightarrow> ('s, byte list) go" where
  "item_Key it = go_slice (it_data it) 0 (it_keylen it)"

definition item_Value :: "item \<Rightarrow> ('s, byte list) go" where
  "item_Value it = go_slice (it_data it) (it_keylen it) (int (length (it_data it)))"

definition ResetKey :: "byte list \<Rightarrow> (item, unit) go" where
  "ResetKey key =
     go_seq (go_modify (\<lambda>it. it\<lparr>it_keylen := int (length key), it_recvBytes := 0\<rparr>)) (
     go_seq (item_Append key)
       (go_modify (\<lambda>it. it\<lparr>it_hash := hash key\<rparr>)))"

text \<open>Writing to the buffer with the results of \<open>Write\<close> ignored.\<close>

definition emit :: "byte list \<Rightarrow> (buffer, unit) go" where
  "emit p = go_bind (Write p) (\<lambda>_. go_ret ())"

definition item_Output :: "item \<Rightarrow> bool \<Rightarrow> (buffer, unit) go" where
  "item_Output it needCas =
     go_seq (emit (bytes_of ''VALUE '')) (
     go_bind (go_slice (it_data it) 0 (it_keylen it)) (\<lambda>key.
     go_seq (emit key) (
     go_seq (emit (bytes_of '' '')) (
     go_seq (emit (bytes_of (Itoa (uint (it_flags it))))) (
     go_seq (emit (bytes_of '' '')) (
     go_seq (emit (bytes_of (Itoa (it_valuelen it - 2)))) (
     go_seq (go_when needCas (
       go_seq (emit (bytes_of '' ''))
         (emit (bytes_of (Itoa (sint (it_cas it))))))) (
     go_seq (emit [13, 10]) (
     go_bind (item_Value it) emit)))))))))"

section \<open>What an item holds\<close>

text \<open>
  The bytes received so far; a well-formed item has room for the key and the value, and has
  received no more than that.
\<close>

definition filled :: "item \<Rightarrow> byte list" where
  "filled it = take (nat (it_recvBytes it)) (it_data it)"

definition item_ok :: "item \<Rightarrow> bool" where
  "item_ok it \<longleftrightarrow> 0 \<le> it_keylen it \<and> int (length (it_data it)) = it_keylen it + it_valuelen it \<and>
     0 \<le> it_recvBytes it \<and> 0 \<le> NeedBytes it"

definition item_key :: "item \<Rightarrow> byte list" where
  "item_key it = take (nat (it_keylen it)) (it_data it)"

lemma NewItem_wp:
  "wp E (NewItem key flags exptime valuelen cas) Q s =
     (if 0 \<le> int (length key) + valuelen
      then Q \<lparr>it_keylen = int (length key), it_flags = flags, it_exptime = exptime, it_valuelen = valuelen,
        it_recvBytes = 0, it_cas = cas, it_hash = hash key,
        it_data = replicate (nat (int (length key) + valuelen)) 0\<rparr> s
      else E MakeSliceLen)"
  by (simp add: NewItem_def Let_def)

lemma item_Append_wp:
  "wp E (item_Append d) Q it =
     (if 0 \<le> it_recvBytes it \<and> it_recvBytes it \<le> int (length (it_data it))
      then Q () (it\<lparr>it_data := copy_at (nat (it_recvBytes it)) d (it_data it),
        it_recvBytes := it_recvBytes it + int (length d)\<rparr>)
      else E SliceBounds)"
  unfolding item_Append_def wp_bind
  by (simp add: wp_def go_slice_def go_panic_def go_ret_def go_modify_def)

text \<open>Appending no more than is needed extends what was received.\<close>

lemma item_Append_ok:
  assumes "item_ok it" and "int (length d) \<le> NeedBytes it"
    and "it' = it\<lparr>it_data := copy_at (nat (it_recvBytes it)) d (it_data it),
        it_recvBytes := it_recvBytes it + int (length d)\<rparr>"
  shows "item_ok it'" and "filled it' = filled it @ d" and "NeedBytes it' = NeedBytes it - int (length d)"
proof -
  let ?r = "nat (it_recvBytes it)"
  have r: "?r \<le> length (it_data it)" "length d \<le> length (it_data it) - ?r" "int ?r = it_recvBytes it"
    using assms(1,2) by (auto simp: item_ok_def NeedBytes_def)
  show "item_ok it'" "NeedBytes it' = NeedBytes it - int (length d)"
    using assms r(1) by (simp_all add: item_ok_def NeedBytes_def)
  have "take (?r + length d) (copy_at ?r d (it_data it)) = take ?r (it_data it) @ d"
    using slice_copy_at [of 0 ?r "it_data it" "length d" d] r by simp
  then show "filled it' = filled it @ d"
    using assms(1,3) by (simp add: filled_def item_ok_def nat_add_distrib)
qed

text \<open>A complete item consists of its key and its value.\<close>

lemma filled_complete: "item_ok it \<Longrightarrow> NeedBytes it = 0 \<Longrightarrow> filled it = it_data it"
  by (auto simp: filled_def item_ok_def NeedBytes_def)

lemma item_Key_wp: "wp E (item_Key it) Q s =
    (if 0 \<le> it_keylen it \<and> it_keylen it \<le> int (length (it_data it)) then Q (item_key it) s else E SliceBounds)"
  by (simp add: item_Key_def item_key_def)

lemma item_Value_wp: "wp E (item_Value it) Q s =
    (if 0 \<le> it_keylen it \<and> it_keylen it \<le> int (length (it_data it))
     then Q (drop (nat (it_keylen it)) (it_data it)) s else E SliceBounds)"
  by (auto simp: item_Value_def)

lemma string_of_bytes_of [simp]: "string_of (bytes_of s) = s" "bytes_of (string_of p) = p"
proof -
  have "unat (word_of_nat (of_char c) :: byte) = of_char c" for c
    by (simp add: unat_of_nat)
  moreover have "(of_char (char_of (unat x)) :: nat) = unat x" for x :: byte
    using unsigned_less [where 'a = nat and w = x] by simp
  ultimately show "string_of (bytes_of s) = s" "bytes_of (string_of p) = p"
    by (simp_all add: string_of_def bytes_of_def comp_def)
qed

lemma string_of_inj: "string_of p = string_of q \<longleftrightarrow> p = q"
  by (metis string_of_bytes_of(2))

lemma length_bytes_of [simp]: "length (bytes_of s) = length s" "length (string_of p) = length p"
  by (simp_all add: bytes_of_def string_of_def)

lemma bytes_of_append [simp]: "bytes_of (s @ t) = bytes_of s @ bytes_of t" "bytes_of [] = []"
  by (simp_all add: bytes_of_def)

section \<open>The answer to a get\<close>

lemma emit_wp:
  assumes "buffer_inv b" and "int (length d) \<le> WritableBytes b"
  shows "wp E (emit d) (\<lambda>_ b'. buffer_inv b' \<and> contents b' = contents b @ d \<and>
    WritableBytes b' = WritableBytes b - int (length d)) b"
proof -
  have acc: "accepted b (length d) = length d"
    using assms by (simp add: accepted_def write_room_def)
  have room: "wp E (Write d) (\<lambda>n b'. WritableBytes b' = WritableBytes b - int (length d)) b"
    using assms unfolding Write_def ensureWritableBytes_def
    by (auto simp: wp_def go_defs Let_def WritableBytes_def buffer_inv_def)
  show ?thesis
    unfolding emit_def wp_bind by (rule wp_mono [OF wp_conj [OF Write_wp [OF assms(1)] room]]) (simp_all add: acc)
qed

definition response :: "byte list \<Rightarrow> item \<Rightarrow> bool \<Rightarrow> byte list" where
  "response key it needCas = bytes_of ''VALUE '' @ key @ bytes_of '' '' @ bytes_of (Itoa (uint (it_flags it))) @
     bytes_of '' '' @ bytes_of (Itoa (it_valuelen it - 2)) @
     (if needCas then bytes_of '' '' @ bytes_of (Itoa (sint (it_cas it))) else []) @ [13, 10] @
     drop (nat (it_keylen it)) (it_data it)"

lemma emits_wp:
  assumes "buffer_inv b" and "int (length d) \<le> WritableBytes b"
    and "\<And>b'. buffer_inv b' \<Longrightarrow> contents b' = contents b @ d \<Longrightarrow> WritableBytes b' = WritableBytes b - int (length d) \<Longrightarrow> wp E m Q b'"
  shows "wp E (go_seq (emit d) m) Q b"
  unfolding wp_seq by (rule wp_mono [OF emit_wp]) (use assms in auto)

text \<open>
  An item is printed as the protocol wants it: when the buffer has room for it, \<open>Output\<close>
  appends the line with key, flags and length, the unique number if that is asked for, and the
  value with its CRLF.
\<close>

lemma item_Output_correct:
  assumes "buffer_inv b" and "item_ok it" and "item_key it = key" and "0 \<le> it_valuelen it"
    and "int (length (response key it needCas)) \<le> WritableBytes b"
  shows "wp E (item_Output it needCas) (\<lambda>_ b'. buffer_inv b' \<and> contents b' = contents b @ response key it needCas \<and>
    WritableBytes b' = WritableBytes b - int (length (response key it needCas))) b"
proof -
  have key: "0 \<le> it_keylen it" "it_keylen it \<le> int (length (it_data it))" "take (nat (it_keylen it)) (it_data it) = key"
    using assms(2-4) by (auto simp: item_ok_def item_key_def)
  show ?thesis
    using assms(1,5) key unfolding item_Output_def response_def
    by (cases needCas) (auto simp: item_Value_wp go_seq_assoc go_when_def simp del: wp_seq intro!: emits_wp wp_mono [OF emit_wp])
qed

end
