(* ===== verification/Memcached_Server.thy ===== *)
theory Memcached_Server
  imports Memcached_Item
begin

text \<open>
  \<open>examples/memcached/server/memcached_server.go\<close>: the slots of the cache, the update policies
  and the sessions of the server. The objects of the example extend the store of the library.
  A slot is locked for the whole of each operation on it, so each operation is one step.
\<close>

section \<open>State\<close>

type_synonym item_ptr = nat
type_synonym memcached_ptr = nat
type_synonym session_ptr = nat

record slot =
  sl_items :: "string \<rightharpoonup> item_ptr"

record Options =
  op_engineCnt :: int
  op_port :: int

type_synonym Option = "Options \<Rightarrow> Options"

text \<open>\<open>stime\<close> is the zero \<open>time.Time\<close> (\<open>None\<close>) until \<open>Start\<close>.\<close>

record memcached =
  mc_slots :: "slot list"
  mc_slotn :: int
  mc_server :: server_ptr
  mc_el :: loop_ptr
  mc_stime :: "time option"
  mc_sessions :: "string \<rightharpoonup> session_ptr"

datatype SessionState = NewCommand | RecvValue | DiscardValue

datatype ProtocolType = Ascii | Binary | Auto

record session =
  ss_m :: memcached_ptr
  ss_conn :: conn_ptr
  ss_state :: SessionState
  ss_protocol :: ProtocolType
  ss_command :: string
  ss_noreply :: bool
  ss_policy :: UpdatePolicy
  ss_currItem :: "item_ptr option"
  ss_bytesToDiscard :: uint64
  ss_needle :: item_ptr
  ss_outputBuffer :: buffer
  ss_bytesRead :: uint64
  ss_reqProcessed :: uint64

record mcworld =
  mw_world :: world
  mw_items :: "item_ptr \<Rightarrow> item"
  mw_memcacheds :: "memcached_ptr \<Rightarrow> memcached"
  mw_sessions :: "session_ptr \<Rightarrow> session"
  n_items :: nat
  n_memcacheds :: nat
  n_sessions :: nat
  g_cas :: uint64

text \<open>Calls of the library, methods of an item, allocation and update.\<close>

definition lib :: "(world, 'a) go \<Rightarrow> (mcworld, 'a) go" where
  "lib m = go_zoom mw_world (\<lambda>w s. s\<lparr>mw_world := w\<rparr>) m"

definition on_item :: "item_ptr \<Rightarrow> (item, 'a) go \<Rightarrow> (mcworld, 'a) go" where
  "on_item p m = go_zoom (\<lambda>s. mw_items s p) (\<lambda>it s. s\<lparr>mw_items := (mw_items s)(p := it)\<rparr>) m"

definition upd_memcached :: "memcached_ptr \<Rightarrow> (memcached \<Rightarrow> memcached) \<Rightarrow> (mcworld, unit) go" where
  "upd_memcached m f = go_modify (\<lambda>s. s\<lparr>mw_memcacheds := (mw_memcacheds s)(m := f (mw_memcacheds s m))\<rparr>)"

definition upd_session :: "session_ptr \<Rightarrow> (session \<Rightarrow> session) \<Rightarrow> (mcworld, unit) go" where
  "upd_session p f = go_modify (\<lambda>s. s\<lparr>mw_sessions := (mw_sessions s)(p := f (mw_sessions s p))\<rparr>)"

definition new_item :: "item \<Rightarrow> (mcworld, item_ptr) go" where
  "new_item it s = Inr (n_items s, s\<lparr>mw_items := (mw_items s)(n_items s := it), n_items := Suc (n_items s)\<rparr>)"

definition new_memcached :: "memcached \<Rightarrow> (mcworld, memcached_ptr) go" where
  "new_memcached x s = Inr (n_memcacheds s,
     s\<lparr>mw_memcacheds := (mw_memcacheds s)(n_memcacheds s := x), n_memcacheds := Suc (n_memcacheds s)\<rparr>)"

definition new_session :: "session \<Rightarrow> (mcworld, session_ptr) go" where
  "new_session x s = Inr (n_sessions s,
     s\<lparr>mw_sessions := (mw_sessions s)(n_sessions s := x), n_sessions := Suc (n_sessions s)\<rparr>)"

section \<open>The server\<close>

definition loadOptions :: "Option list \<Rightarrow> Options" where
  "loadOptions options = foldl (\<lambda>opts option. option opts) \<lparr>op_engineCnt = 0, op_port = 0\<rparr> options"

definition WithEngineCnt :: "int \<Rightarrow> Option" where
  "WithEngineCnt engineCnt = (\<lambda>opts. opts\<lparr>op_engineCnt := engineCnt\<rparr>)"

definition WithPort :: "int \<Rightarrow> Option" where
  "WithPort port = (\<lambda>opts. opts\<lparr>op_port := port\<rparr>)"

definition NewMemcached :: "loop_ptr \<Rightarrow> Option list \<Rightarrow> (mcworld, memcached_ptr) go" where
  "NewMemcached el opts =
     (let options = loadOptions opts in
      go_bind (lib (NewTcpServer el ''memcached'' (''tcp4://:'' @ Itoa (op_port options)) (op_engineCnt options)))
        (\<lambda>server.
      new_memcached \<lparr>mc_slots = replicate 1024 \<lparr>sl_items = (\<lambda>_. None)\<rparr>, mc_slotn = 1024, mc_server = server,
        mc_el = el, mc_stime = None, mc_sessions = (\<lambda>_. None)\<rparr>))"

definition memcached_Start :: "memcached_ptr \<Rightarrow> (mcworld, unit) go" where
  "memcached_Start m =
     go_bind (lib (sys SysNow)) (\<lambda>r.
     go_seq (upd_memcached m (\<lambda>x. x\<lparr>mc_stime := Some (ret_n r)\<rparr>)) (
     go_bind (go_gets (\<lambda>s. mc_server (mw_memcacheds s m))) (\<lambda>server.
     lib (server_Start server))))"

definition setEngineCnt :: "memcached_ptr \<Rightarrow> int \<Rightarrow> (mcworld, unit) go" where
  "setEngineCnt m engineCnt =
     go_bind (go_gets (\<lambda>s. mc_server (mw_memcacheds s m))) (\<lambda>server.
     lib (SetEngineCnt server engineCnt))"

definition startTime :: "memcached_ptr \<Rightarrow> (mcworld, time option) go" where
  "startTime m = go_gets (\<lambda>s. mc_stime (mw_memcacheds s m))"

section \<open>The slots\<close>

text \<open>\<open>h % uint64(m.slotn)\<close>, the slot with that number, and a write to its map.\<close>

definition slot_number :: "memcached_ptr \<Rightarrow> uint64 \<Rightarrow> (mcworld, int) go" where
  "slot_number m h =
     go_bind (go_gets (\<lambda>s. word_of_int (mc_slotn (mw_memcacheds s m)))) (\<lambda>slotn.
     if slotn = 0 then go_panic DivideByZero else go_ret (uint (h mod slotn)))"

definition slot_items :: "memcached_ptr \<Rightarrow> int \<Rightarrow> (mcworld, string \<rightharpoonup> item_ptr) go" where
  "slot_items m i =
     go_bind (go_gets (\<lambda>s. mc_slots (mw_memcacheds s m))) (\<lambda>slots.
     go_bind (go_index slots i) (\<lambda>slot. go_ret (sl_items slot)))"

definition set_slot :: "memcached_ptr \<Rightarrow> int \<Rightarrow> string \<Rightarrow> item_ptr option \<Rightarrow> (mcworld, unit) go" where
  "set_slot m i key p = upd_memcached m (\<lambda>x. x\<lparr>mc_slots := (mc_slots x)[nat i :=
     (mc_slots x ! nat i)\<lparr>sl_items := (sl_items (mc_slots x ! nat i))(key := p)\<rparr>]\<rparr>)"

text \<open>\<open>atomic.AddUint64(&_g_cas, 1)\<close>; and the assignment of a new number and of the item.\<close>

definition next_cas :: "(mcworld, uint64) go" where
  "next_cas = go_seq (go_modify (\<lambda>s. s\<lparr>g_cas := g_cas s + 1\<rparr>)) (go_gets g_cas)"

definition put_item :: "memcached_ptr \<Rightarrow> int \<Rightarrow> string \<Rightarrow> item_ptr \<Rightarrow> (mcworld, unit) go" where
  "put_item m i key p =
     go_bind next_cas (\<lambda>cas.
     go_seq (on_item p (go_modify (\<lambda>it. it\<lparr>it_cas := cas\<rparr>)))
       (set_slot m i key (Some p)))"

text \<open>The branch of \<open>Append\<close> and \<open>Prepend\<close>: a new item from the old one and the given one.\<close>

definition store_joined :: "memcached_ptr \<Rightarrow> int \<Rightarrow> string \<Rightarrow> item_ptr \<Rightarrow> item_ptr \<Rightarrow> UpdatePolicy \<Rightarrow>
    (mcworld, unit) go" where
  "store_joined m i keyStr p oldp policy =
     go_bind (go_gets (\<lambda>s. (mw_items s p, mw_items s oldp))) (\<lambda>(it, oldItem).
     let newLen = it_valuelen it + it_valuelen oldItem - 2 in
     go_bind (item_Key it) (\<lambda>key.
     go_bind next_cas (\<lambda>cas.
     go_bind (NewItem key (it_flags it) (it_exptime it) newLen cas) (\<lambda>newIt.
     go_bind (new_item newIt) (\<lambda>newp.
     go_seq (if policy = Append
             then go_bind (item_Value oldItem) (\<lambda>oldValue.
                  go_bind (go_slice oldValue 0 (it_valuelen oldItem - 2)) (\<lambda>old.
                  go_seq (on_item newp (item_Append old))
                    (go_bind (item_Value it) (\<lambda>value. on_item newp (item_Append value)))))
             else go_bind (item_Value it) (\<lambda>value.
                  go_bind (go_slice value 0 (it_valuelen it - 2)) (\<lambda>new.
                  go_seq (on_item newp (item_Append new))
                    (go_bind (item_Value oldItem) (\<lambda>oldValue. on_item newp (item_Append oldValue)))))) (
     go_bind (go_gets (\<lambda>s. mw_items s newp)) (\<lambda>newItem.
     go_seq (Assert (it_keylen newItem + it_valuelen newItem - it_recvBytes newItem = 0)
       ''newItem.keylen+newItem.valuelen-newItem.recvBytes == 0'') (
     go_bind (EndWithCRLF newItem) (\<lambda>crlf.
     go_seq (Assert crlf ''newItem.EndWithCRLF()'')
       (set_slot m i keyStr (Some newp)))))))))))"

definition Store :: "memcached_ptr \<Rightarrow> item_ptr \<Rightarrow> UpdatePolicy \<Rightarrow> (mcworld, bool \<times> bool) go" where
  "Store m p policy =
     go_bind (go_gets (\<lambda>s. mw_items s p)) (\<lambda>it.
     go_bind (slot_number m (it_hash it)) (\<lambda>i.
     go_bind (slot_items m i) (\<lambda>items.
     go_bind (item_Key it) (\<lambda>key.
     let keyStr = string_of key; oldItem = items keyStr; exist = (oldItem \<noteq> None) in
     if policy = Set then go_seq (put_item m i keyStr p) (go_ret (True, exist))
     else if policy = Add then
       (if exist then go_ret (False, exist)
        else go_seq (put_item m i keyStr p) (go_ret (True, exist)))
     else if policy = Replace then
       (if exist then go_seq (put_item m i keyStr p) (go_ret (True, exist))
        else go_ret (False, exist))
     else if policy = Append \<or> policy = Prepend then
       (case oldItem of
          Some oldp \<Rightarrow> go_seq (store_joined m i keyStr p oldp policy) (go_ret (True, exist))
        | None \<Rightarrow> go_ret (False, exist))
     else if policy = Cas then
       (case oldItem of
          Some oldp \<Rightarrow>
            go_bind (go_gets (\<lambda>s. it_cas (mw_items s oldp))) (\<lambda>oldCas.
            if oldCas = it_cas it then go_seq (put_item m i keyStr p) (go_ret (True, exist))
            else go_ret (False, exist))
        | None \<Rightarrow> go_ret (False, exist))
     else go_seq (Assert False ''invalid policy'') (go_ret (False, exist))))))"

definition memcached_Get :: "memcached_ptr \<Rightarrow> byte list \<Rightarrow> (mcworld, item_ptr option) go" where
  "memcached_Get m key =
     go_bind (slot_number m (hash key)) (\<lambda>i.
     go_bind (slot_items m i) (\<lambda>items.
     go_ret (items (string_of key))))"

definition memcached_Delete :: "memcached_ptr \<Rightarrow> byte list \<Rightarrow> (mcworld, bool) go" where
  "memcached_Delete m key =
     go_bind (slot_number m (hash key)) (\<lambda>i.
     go_bind (slot_items m i) (\<lambda>items.
     if items (string_of key) \<noteq> None
     then go_seq (set_slot m i (string_of key) None) (go_ret True)
     else go_ret False))"

section \<open>Sessions\<close>

definition LongestKeySize :: int where
  "LongestKeySize = 250"

definition LongestKey :: "byte list" where
  "LongestKey = replicate (nat LongestKeySize) (of_char CHR ''x'')"

definition NewSession :: "memcached_ptr \<Rightarrow> conn_ptr \<Rightarrow> (mcworld, session_ptr) go" where
  "NewSession m conn =
     go_bind (NewItem LongestKey 0 0 2 0) (\<lambda>it.
     go_bind (new_item it) (\<lambda>needle.
     new_session \<lparr>ss_m = m, ss_conn = conn, ss_state = NewCommand, ss_protocol = Ascii, ss_command = [],
       ss_noreply = False, ss_policy = Invalid, ss_currItem = None, ss_bytesToDiscard = 0,
       ss_needle = needle, ss_outputBuffer = NewBuffer, ss_bytesRead = 0, ss_reqProcessed = 0\<rparr>))"

definition memcached_onConn :: "memcached_ptr \<Rightarrow> conn_ptr \<Rightarrow> (mcworld, unit) go" where
  "memcached_onConn m conn =
     go_bind (lib (IsConnected conn)) (\<lambda>connected.
     if connected then
       go_bind (NewSession m conn) (\<lambda>sess.
       go_bind (go_gets (\<lambda>s. mc_sessions (mw_memcacheds s m))) (\<lambda>sessions.
       go_bind (lib (conn_Name conn)) (\<lambda>name.
       go_seq (Assert (sessions name = None) ''m.sessions[conn.Name()] == nil'')
         (upd_memcached m (\<lambda>x. x\<lparr>mc_sessions := (mc_sessions x)(name \<mapsto> sess)\<rparr>)))))
     else
       go_bind (lib (conn_Name conn)) (\<lambda>name.
       upd_memcached m (\<lambda>x. x\<lparr>mc_sessions := (mc_sessions x)(name := None)\<rparr>)))"

section \<open>Their preconditions\<close>

lemma wp_lib [simp]: "wp E (lib m) Q s = wp E m (\<lambda>a w. Q a (s\<lparr>mw_world := w\<rparr>)) (mw_world s)"
  by (simp add: lib_def)

lemma wp_on_item [simp]:
  "wp E (on_item p m) Q s = wp E m (\<lambda>a it. Q a (s\<lparr>mw_items := (mw_items s)(p := it)\<rparr>)) (mw_items s p)"
  by (simp add: on_item_def)

lemma wp_mc_updates [simp]:
  "wp E (upd_memcached m f) Q s = Q () (s\<lparr>mw_memcacheds := (mw_memcacheds s)(m := f (mw_memcacheds s m))\<rparr>)"
  "wp E (upd_session p g) R s = R () (s\<lparr>mw_sessions := (mw_sessions s)(p := g (mw_sessions s p))\<rparr>)"
  by (simp_all add: upd_memcached_def upd_session_def)

lemma wp_mc_new [simp]:
  "wp E (new_item it) Q s = Q (n_items s) (s\<lparr>mw_items := (mw_items s)(n_items s := it), n_items := Suc (n_items s)\<rparr>)"
  "wp E (new_memcached x) R s = R (n_memcacheds s)
     (s\<lparr>mw_memcacheds := (mw_memcacheds s)(n_memcacheds s := x), n_memcacheds := Suc (n_memcacheds s)\<rparr>)"
  "wp E (new_session y) S s = S (n_sessions s)
     (s\<lparr>mw_sessions := (mw_sessions s)(n_sessions s := y), n_sessions := Suc (n_sessions s)\<rparr>)"
  by (simp_all add: wp_def new_item_def new_memcached_def new_session_def)

lemma wp_next_cas [simp]: "wp E next_cas Q s = Q (g_cas s + 1) (s\<lparr>g_cas := g_cas s + 1\<rparr>)"
  by (simp add: next_cas_def)

section \<open>The cache as a map\<close>

text \<open>The slot of a key, and the item that is filed there under the key.\<close>

definition slot_of :: "byte list \<Rightarrow> nat" where
  "slot_of key = unat (hash key mod 1024)"

definition filed :: "memcached_ptr \<Rightarrow> mcworld \<Rightarrow> byte list \<Rightarrow> item_ptr option" where
  "filed m s key = sl_items (mc_slots (mw_memcacheds s m) ! slot_of key) (string_of key)"

text \<open>
  The invariant of the slots: there are 1024, every key is in its own slot, and every item is
  complete, holds the key it is filed under, and has that key's hash.
\<close>

definition well_filed :: "byte list \<Rightarrow> item \<Rightarrow> bool" where
  "well_filed key it \<longleftrightarrow> item_ok it \<and> NeedBytes it = 0 \<and> 0 \<le> it_valuelen it \<and> item_key it = key \<and> it_hash it = hash key"

lemma well_filed_fields:
  assumes "well_filed key it"
  shows "it_hash it = hash key" and "item_key it = key" and "it_keylen it = int (length key)"
    and "length (it_data it) = length key + nat (it_valuelen it)" and "0 \<le> it_valuelen it"
  using assms by (auto simp: well_filed_def item_ok_def item_key_def nat_add_distrib)

definition slots_ok :: "memcached_ptr \<Rightarrow> mcworld \<Rightarrow> bool" where
  "slots_ok m s \<longleftrightarrow> mc_slotn (mw_memcacheds s m) = 1024 \<and> length (mc_slots (mw_memcacheds s m)) = 1024 \<and>
     (\<forall>i < 1024. \<forall>k p. sl_items (mc_slots (mw_memcacheds s m) ! i) k = Some p \<longrightarrow>
        i = slot_of (bytes_of k) \<and> p < n_items s \<and> well_filed (bytes_of k) (mw_items s p))"

text \<open>What the cache holds: per key the flags, expiry time, value and unique number.\<close>

record entry =
  en_flags :: uint32
  en_exptime :: int
  en_value :: "byte list"
  en_cas :: uint64

definition entry_of :: "item \<Rightarrow> entry" where
  "entry_of it = \<lparr>en_flags = it_flags it, en_exptime = it_exptime it,
     en_value = drop (nat (it_keylen it)) (it_data it), en_cas = it_cas it\<rparr>"

definition cache :: "memcached_ptr \<Rightarrow> mcworld \<Rightarrow> byte list \<rightharpoonup> entry" where
  "cache m s key = map_option (\<lambda>p. entry_of (mw_items s p)) (filed m s key)"

lemma slot_of_less [simp]: "slot_of key < 1024"
  by (simp add: slot_of_def unat_mod)

lemma slot_number_wp: "slots_ok m s \<Longrightarrow> wp E (slot_number m (hash key)) Q s = Q (int (slot_of key)) s"
  by (simp add: slot_number_def slots_ok_def slot_of_def)

lemma slot_items_wp:
  "slots_ok m s \<Longrightarrow> i < 1024 \<Longrightarrow> wp E (slot_items m (int i)) Q s = Q (sl_items (mc_slots (mw_memcacheds s m) ! i)) s"
  by (simp add: slot_items_def slots_ok_def)

lemma filed_items: "sl_items (mc_slots (mw_memcacheds s m) ! slot_of key) (string_of key) = filed m s key"
  by (simp add: filed_def)

lemma filed_ok: "slots_ok m s \<Longrightarrow> filed m s key = Some p \<Longrightarrow> p < n_items s \<and> well_filed key (mw_items s p)"
  unfolding slots_ok_def filed_def by (metis slot_of_less string_of_bytes_of(2))

lemma Get_wp: "slots_ok m s \<Longrightarrow> wp E (memcached_Get m key) Q s = Q (filed m s key) s"
  by (simp add: memcached_Get_def slot_number_wp slot_items_wp filed_def)

text \<open>Writing one entry of the slots.\<close>

definition with_slot :: "memcached_ptr \<Rightarrow> byte list \<Rightarrow> item_ptr option \<Rightarrow> mcworld \<Rightarrow> mcworld" where
  "with_slot m key p s = s\<lparr>mw_memcacheds := (mw_memcacheds s)(m := (mw_memcacheds s m)\<lparr>mc_slots :=
     (mc_slots (mw_memcacheds s m))[slot_of key := (mc_slots (mw_memcacheds s m) ! slot_of key)\<lparr>sl_items :=
       (sl_items (mc_slots (mw_memcacheds s m) ! slot_of key))(string_of key := p)\<rparr>]\<rparr>)\<rparr>"

lemma set_slot_wp: "wp E (set_slot m (int (slot_of key)) (string_of key) p) Q s = Q () (with_slot m key p s)"
  by (simp add: set_slot_def with_slot_def)

lemma with_slot_fields [simp]:
  "mw_items (with_slot m key p s) = mw_items s" "n_items (with_slot m key p s) = n_items s"
  "g_cas (with_slot m key p s) = g_cas s" "mw_world (with_slot m key p s) = mw_world s"
  "mw_sessions (with_slot m key p s) = mw_sessions s"
  by (simp_all add: with_slot_def)

lemma filed_with_slot [simp]:
  assumes "slots_ok m s"
  shows "filed m (with_slot m key p s) = (filed m s)(key := p)"
proof
  fix k
  show "filed m (with_slot m key p s) k = ((filed m s)(key := p)) k"
    using assms by (cases "slot_of k = slot_of key")
      (auto simp: filed_def with_slot_def slots_ok_def string_of_inj nth_list_update)
qed

lemma slots_ok_with_slot:
  assumes "slots_ok m s" and "\<And>q. p = Some q \<Longrightarrow> q < n_items s \<and> well_filed key (mw_items s q)"
  shows "slots_ok m (with_slot m key p s)"
proof -
  have "sl_items ((mc_slots (mw_memcacheds s m))[slot_of key := (mc_slots (mw_memcacheds s m) ! slot_of key)\<lparr>sl_items :=
       (sl_items (mc_slots (mw_memcacheds s m) ! slot_of key))(string_of key := p)\<rparr>] ! i) k = Some q \<Longrightarrow> i < 1024 \<Longrightarrow>
     i = slot_of (bytes_of k) \<and> q < n_items s \<and> well_filed (bytes_of k) (mw_items s q)" for i k q
    using assms by (auto simp: slots_ok_def nth_list_update split: if_splits)
  then show ?thesis
    using assms(1) by (auto simp: slots_ok_def with_slot_def)
qed

text \<open>Changing or adding items that no slot refers to.\<close>

lemma slots_ok_items:
  assumes "slots_ok m s" and "mw_memcacheds t m = mw_memcacheds s m" and "n_items s \<le> n_items t"
    and "\<And>q. q < n_items s \<Longrightarrow> q \<notin> ran (filed m s) \<or> mw_items t q = mw_items s q"
  shows "slots_ok m t" and "cache m t = cache m s" and "filed m t = filed m s"
proof -
  show f: "filed m t = filed m s"
    using assms(2) by (simp add: filed_def fun_eq_iff)
  have same: "mw_items t q = mw_items s q \<and> q < n_items t" if "filed m s k = Some q" for k q
    using filed_ok [OF assms(1) that] assms(3,4) that by (auto simp: ran_def)
  have "i = slot_of (bytes_of k) \<and> q < n_items t \<and> well_filed (bytes_of k) (mw_items t q)"
    if "sl_items (mc_slots (mw_memcacheds s m) ! i) k = Some q" "i < 1024" for i k q
  proof -
    have "filed m s (bytes_of k) = Some q"
      using assms(1) that by (auto simp: slots_ok_def filed_def)
    then show ?thesis
      using assms(1) that same by (auto simp: slots_ok_def)
  qed
  then show "slots_ok m t"
    using assms(1,2) by (auto simp: slots_ok_def)
  show "cache m t = cache m s"
    using same by (auto simp: cache_def f fun_eq_iff map_option_case split: option.split)
qed

lemma Delete_correct:
  assumes "slots_ok m s"
  shows "wp E (memcached_Delete m key) (\<lambda>r t. slots_ok m t \<and> cache m t = (cache m s)(key := None) \<and>
    r = (cache m s key \<noteq> None) \<and> g_cas t = g_cas s) s"
  using assms slots_ok_with_slot [OF assms, of None]
  by (auto simp: memcached_Delete_def slot_number_wp slot_items_wp filed_items set_slot_wp cache_def)

text \<open>The policies: when an update is carried out, given what the cache holds for the key.\<close>

fun accepts :: "UpdatePolicy \<Rightarrow> entry \<Rightarrow> entry option \<Rightarrow> bool" where
  "accepts Set e old = True"
| "accepts Add e old = (old = None)"
| "accepts Replace e old = (old \<noteq> None)"
| "accepts Cas e old = (case old of None \<Rightarrow> False | Some x \<Rightarrow> en_cas x = en_cas e)"
| "accepts _ e old = False"

lemma put_item_correct:
  assumes "slots_ok m s" and "p < n_items s" and "well_filed key (mw_items s p)" and "p \<notin> ran (filed m s)"
  shows "wp E (put_item m (int (slot_of key)) (string_of key) p) (\<lambda>_ t. slots_ok m t \<and>
    cache m t = (cache m s)(key \<mapsto> (entry_of (mw_items s p))\<lparr>en_cas := g_cas s + 1\<rparr>) \<and> g_cas t = g_cas s + 1 \<and>
    mw_world t = mw_world s \<and> mw_sessions t = mw_sessions s) s"
proof -
  define t where "t = s\<lparr>g_cas := g_cas s + 1, mw_items := (mw_items s)(p := (mw_items s p)\<lparr>it_cas := g_cas s + 1\<rparr>)\<rparr>"
  have t: "slots_ok m t" "cache m t = cache m s" "filed m t = filed m s"
    by (rule slots_ok_items [OF assms(1)]; use assms(4) in \<open>auto simp: t_def\<close>)+
  have "slots_ok m (with_slot m key (Some p) t)"
    using assms(2,3) by (intro slots_ok_with_slot t)
      (auto simp: t_def well_filed_def item_ok_def NeedBytes_def item_key_def)
  moreover have "cache m (with_slot m key (Some p) t) = (cache m t)(key \<mapsto> entry_of (mw_items t p))"
    using t(1) by (auto simp: cache_def fun_eq_iff)
  moreover have "entry_of (mw_items t p) = (entry_of (mw_items s p))\<lparr>en_cas := g_cas s + 1\<rparr>"
    by (simp add: t_def entry_of_def)
  ultimately show ?thesis
    by (simp add: put_item_def set_slot_wp t(2)) (simp add: t_def)
qed

lemma Store_correct:
  assumes "slots_ok m s" and "p < n_items s" and "well_filed key (mw_items s p)" and "p \<notin> ran (filed m s)"
    and "policy \<in> {Set, Add, Replace, Cas}"
  shows "wp E (Store m p policy) (\<lambda>(success, exist) t. slots_ok m t \<and> exist = (cache m s key \<noteq> None) \<and>
    success = accepts policy (entry_of (mw_items s p)) (cache m s key) \<and>
    cache m t = (if success then (cache m s)(key \<mapsto> (entry_of (mw_items s p))\<lparr>en_cas := g_cas s + 1\<rparr>) else cache m s) \<and>
    g_cas t = (if success then g_cas s + 1 else g_cas s) \<and> mw_world t = mw_world s \<and> mw_sessions t = mw_sessions s) s"
proof -
  have it: "it_hash (mw_items s p) = hash key" "item_key (mw_items s p) = key"
    "0 \<le> it_keylen (mw_items s p)" "it_keylen (mw_items s p) \<le> int (length (it_data (mw_items s p)))"
    using assms(3) by (auto simp: well_filed_def item_ok_def)
  have put: "wp E (put_item m (int (slot_of key)) (string_of key) p) (\<lambda>_. Q) s"
    if "\<And>t. slots_ok m t \<Longrightarrow> cache m t = (cache m s)(key \<mapsto> (entry_of (mw_items s p))\<lparr>en_cas := g_cas s + 1\<rparr>) \<Longrightarrow>
      g_cas t = g_cas s + 1 \<Longrightarrow> mw_world t = mw_world s \<Longrightarrow> mw_sessions t = mw_sessions s \<Longrightarrow> Q t" for Q
    by (rule wp_mono [OF put_item_correct [OF assms(1-4)]]) (use that in auto)
  show ?thesis
    using assms(1,5)
    by (auto simp: Store_def Let_def slot_number_wp slot_items_wp item_Key_wp it filed_items entry_of_def cache_def
        intro!: put split: option.split)
qed

text \<open>What an update leaves alone: all other items, and which of them the slots refer to.\<close>

lemma Store_frame:
  assumes "slots_ok m s" and "well_filed key (mw_items s p)" and "policy \<in> {Set, Add, Replace, Cas}"
  shows "wp E (Store m p policy) (\<lambda>_ t. n_items t = n_items s \<and>
    (\<forall>q. q \<noteq> p \<longrightarrow> mw_items t q = mw_items s q) \<and> ran (filed m t) \<subseteq> Set.insert p (ran (filed m s))) s"
proof -
  have it: "it_hash (mw_items s p) = hash key" "item_key (mw_items s p) = key"
    "0 \<le> it_keylen (mw_items s p)" "it_keylen (mw_items s p) \<le> int (length (it_data (mw_items s p)))"
    using assms(2) by (auto simp: well_filed_def item_ok_def)
  define t where "t = s\<lparr>g_cas := g_cas s + 1, mw_items := (mw_items s)(p := (mw_items s p)\<lparr>it_cas := g_cas s + 1\<rparr>)\<rparr>"
  have "filed m t = filed m s"
    by (simp add: t_def filed_def fun_eq_iff)
  moreover have "filed m (with_slot m key (Some p) t) = (filed m t)(key \<mapsto> p)"
    using assms(1) by (auto simp: filed_def with_slot_def t_def slots_ok_def string_of_inj nth_list_update fun_eq_iff)
  ultimately have "ran (filed m (with_slot m key (Some p) t)) \<subseteq> Set.insert p (ran (filed m s))"
    by (auto simp: ran_def)
  then have put: "wp E (put_item m (int (slot_of key)) (string_of key) p) (\<lambda>_ t. n_items t = n_items s \<and>
      (\<forall>q. q \<noteq> p \<longrightarrow> mw_items t q = mw_items s q) \<and> ran (filed m t) \<subseteq> Set.insert p (ran (filed m s))) s"
    by (simp add: put_item_def set_slot_wp t_def)
  show ?thesis
    using assms(1,3)
    by (auto simp: Store_def Let_def slot_number_wp slot_items_wp item_Key_wp it filed_items put
        intro!: wp_mono [OF put] split: option.split)
qed

section \<open>Histories\<close>

text \<open>
  A store of values by key, whose updates take references to prepared items, are conditional, and
  stamp what they store: its calls, their results, and the reference on a plain map and a counter,
  which is told the key and the value of every item (\<open>kv\<close>).
\<close>

datatype ('k, 'i, 'p) kv_call = KvGet 'k | KvDelete 'k | KvPut 'p 'i

datatype 'v kv_result = RsGet "'v option" | RsDelete bool | RsPut bool bool

fun ref_call :: "('p \<Rightarrow> 'v \<Rightarrow> 'v option \<Rightarrow> bool) \<Rightarrow> ('c \<Rightarrow> 'v \<Rightarrow> 'v) \<Rightarrow> ('c \<Rightarrow> 'c) \<Rightarrow> ('i \<Rightarrow> 'k \<times> 'v) \<Rightarrow>
    ('k, 'i, 'p) kv_call \<Rightarrow> ('k \<rightharpoonup> 'v) \<times> 'c \<Rightarrow> 'v kv_result \<times> (('k \<rightharpoonup> 'v) \<times> 'c)" where
  "ref_call acc stamp tick kv (KvGet k) (tb, c) = (RsGet (tb k), tb, c)"
| "ref_call acc stamp tick kv (KvDelete k) (tb, c) = (RsDelete (tb k \<noteq> None), tb(k := None), c)"
| "ref_call acc stamp tick kv (KvPut p q) (tb, c) = (let (k, v) = kv q in
     if acc p v (tb k) then (RsPut True (tb k \<noteq> None), tb(k \<mapsto> stamp c v), tick c)
     else (RsPut False (tb k \<noteq> None), tb, c))"

fun ref_calls :: "('p \<Rightarrow> 'v \<Rightarrow> 'v option \<Rightarrow> bool) \<Rightarrow> ('c \<Rightarrow> 'v \<Rightarrow> 'v) \<Rightarrow> ('c \<Rightarrow> 'c) \<Rightarrow> ('i \<Rightarrow> 'k \<times> 'v) \<Rightarrow>
    ('k, 'i, 'p) kv_call list \<Rightarrow> ('k \<rightharpoonup> 'v) \<times> 'c \<Rightarrow> 'v kv_result list \<times> (('k \<rightharpoonup> 'v) \<times> 'c)" where
  "ref_calls acc stamp tick kv [] st = ([], st)"
| "ref_calls acc stamp tick kv (x # xs) st =
     (let (r, st) = ref_call acc stamp tick kv x st; (rs, st) = ref_calls acc stamp tick kv xs st in (r # rs, st))"

fun kv_run :: "('k \<Rightarrow> ('s, 'v option) go) \<Rightarrow> ('k \<Rightarrow> ('s, bool) go) \<Rightarrow> ('p \<Rightarrow> 'i \<Rightarrow> ('s, bool \<times> bool) go) \<Rightarrow>
    ('k, 'i, 'p) kv_call \<Rightarrow> ('s, 'v kv_result) go" where
  "kv_run get delete put (KvGet k) = go_bind (get k) (\<lambda>r. go_ret (RsGet r))"
| "kv_run get delete put (KvDelete k) = go_bind (delete k) (\<lambda>r. go_ret (RsDelete r))"
| "kv_run get delete put (KvPut p q) = go_bind (put p q) (\<lambda>(succ, exist). go_ret (RsPut succ exist))"

fun kv_runs :: "('k \<Rightarrow> ('s, 'v option) go) \<Rightarrow> ('k \<Rightarrow> ('s, bool) go) \<Rightarrow> ('p \<Rightarrow> 'i \<Rightarrow> ('s, bool \<times> bool) go) \<Rightarrow>
    ('k, 'i, 'p) kv_call list \<Rightarrow> ('s, 'v kv_result list) go" where
  "kv_runs get delete put [] = go_ret []"
| "kv_runs get delete put (x # xs) =
     go_bind (kv_run get delete put x) (\<lambda>r. go_bind (kv_runs get delete put xs) (\<lambda>rs. go_ret (r # rs)))"

text \<open>The policies and the items of the updates in a sequence of calls.\<close>

fun put_of :: "('k, 'i, 'p) kv_call \<Rightarrow> ('p \<times> 'i) list" where
  "put_of (KvPut p q) = [(p, q)]"
| "put_of _ = []"

definition puts :: "('k, 'i, 'p) kv_call list \<Rightarrow> ('p \<times> 'i) list" where
  "puts xs = concat (map put_of xs)"

lemma puts_simps [simp]: "puts [] = []" "puts (x # xs) = put_of x @ puts xs"
  by (simp_all add: puts_def)

text \<open>The invariant speaks of a set of items that are ready to be stored; storing one takes it out.\<close>

locale kv_store =
  fixes inv :: "'i set \<Rightarrow> 's \<Rightarrow> bool" and tab :: "'s \<Rightarrow> ('k \<rightharpoonup> 'v)" and clock :: "'s \<Rightarrow> 'c"
    and get :: "'k \<Rightarrow> ('s, 'v option) go" and delete :: "'k \<Rightarrow> ('s, bool) go"
    and put :: "'p \<Rightarrow> 'i \<Rightarrow> ('s, bool \<times> bool) go"
    and acc :: "'p \<Rightarrow> 'v \<Rightarrow> 'v option \<Rightarrow> bool" and stamp :: "'c \<Rightarrow> 'v \<Rightarrow> 'v" and tick :: "'c \<Rightarrow> 'c"
    and kv :: "'i \<Rightarrow> 'k \<times> 'v" and ok :: "'p \<Rightarrow> bool"
  assumes get_law: "inv I s \<Longrightarrow> wp no_panic (get k)
      (\<lambda>r t. r = tab s k \<and> inv I t \<and> tab t = tab s \<and> clock t = clock s) s"
    and delete_law: "inv I s \<Longrightarrow> wp no_panic (delete k)
      (\<lambda>r t. r = (tab s k \<noteq> None) \<and> inv I t \<and> tab t = (tab s)(k := None) \<and> clock t = clock s) s"
    and put_law: "inv I s \<Longrightarrow> ok p \<Longrightarrow> q \<in> I \<Longrightarrow> kv q = (k, v) \<Longrightarrow> wp no_panic (put p q)
      (\<lambda>(succ, exist) t. exist = (tab s k \<noteq> None) \<and> succ = acc p v (tab s k) \<and> inv (I - {q}) t \<and>
         tab t = (if succ then (tab s)(k \<mapsto> stamp (clock s) v) else tab s) \<and>
         clock t = (if succ then tick (clock s) else clock s)) s"
begin

lemma call_refines:
  assumes "inv I s" and "\<forall>(p, q) \<in> set (put_of x). ok p \<and> q \<in> I"
  shows "wp no_panic (kv_run get delete put x) (\<lambda>r t. inv (I - snd ` set (put_of x)) t \<and>
    (r, tab t, clock t) = ref_call acc stamp tick kv x (tab s, clock s)) s"
proof (cases x)
  case (KvGet k)
  then show ?thesis
    using assms(1) by (simp add: wp_mono [OF get_law])
next
  case (KvDelete k)
  then show ?thesis
    using assms(1) by (simp add: wp_mono [OF delete_law])
next
  case (KvPut p q)
  obtain k v where kv: "kv q = (k, v)"
    by fastforce
  have "wp no_panic (put p q) (\<lambda>(succ, exist) t. inv (I - {q}) t \<and>
      (RsPut succ exist, tab t, clock t) = ref_call acc stamp tick kv x (tab s, clock s)) s"
    using assms KvPut kv by (intro wp_mono [OF put_law [where k = k and v = v]]) (auto split: if_splits)
  then show ?thesis
    unfolding KvPut kv_run.simps wp_bind by (rule wp_mono) (simp_all add: case_prod_beta)
qed

lemma calls_refine:
  assumes "inv I s" and "\<forall>(p, q) \<in> set (puts xs). ok p \<and> q \<in> I" and "distinct (map snd (puts xs))"
  shows "wp no_panic (kv_runs get delete put xs) (\<lambda>rs t. (\<exists>J. inv J t) \<and>
    (rs, tab t, clock t) = ref_calls acc stamp tick kv xs (tab s, clock s)) s"
  using assms
proof (induction xs arbitrary: s I)
  case Nil
  then show ?case
    by auto
next
  case (Cons x xs)
  show ?case
    unfolding kv_runs.simps wp_bind
  proof (rule wp_mono [OF call_refines [of I]])
    fix r t
    assume t: "inv (I - snd ` set (put_of x)) t \<and> (r, tab t, clock t) = ref_call acc stamp tick kv x (tab s, clock s)"
    have "wp no_panic (kv_runs get delete put xs)
        (\<lambda>rs u. (\<exists>J. inv J u) \<and> (rs, tab u, clock u) = ref_calls acc stamp tick kv xs (tab t, clock t)) t"
    proof (intro Cons.IH [of "I - snd ` set (put_of x)"])
      show "\<forall>(p, q) \<in> set (puts xs). ok p \<and> q \<in> I - snd ` set (put_of x)"
        using Cons.prems(2,3) by (force simp: disjoint_iff)
    qed (use t Cons.prems(3) in auto)
    then show "wp no_panic (kv_runs get delete put xs) (\<lambda>rs. wp no_panic (go_ret (r # rs))
        (\<lambda>rs u. (\<exists>J. inv J u) \<and> (rs, tab u, clock u) = ref_calls acc stamp tick kv (x # xs) (tab s, clock s))) t"
      by (rule wp_mono) (use t in \<open>auto simp: Let_def split: prod.splits\<close>)
  qed (use Cons.prems in auto)
qed

end

text \<open>
  The calls on the cache of the server: \<open>Get\<close>, with a look at the item it points to, \<open>Delete\<close>,
  and \<open>Store\<close>.
\<close>

definition cache_get :: "memcached_ptr \<Rightarrow> byte list \<Rightarrow> (mcworld, entry option) go" where
  "cache_get m key = go_bind (memcached_Get m key) (\<lambda>p. go_gets (\<lambda>s. map_option (\<lambda>p. entry_of (mw_items s p)) p))"

definition stamp_entry :: "uint64 \<Rightarrow> entry \<Rightarrow> entry" where
  "stamp_entry c e = e\<lparr>en_cas := c + 1\<rparr>"

definition plain_policy :: "UpdatePolicy \<Rightarrow> bool" where
  "plain_policy policy \<longleftrightarrow> policy \<in> {Set, Add, Replace, Cas}"

text \<open>
  An item that is ready to be stored: it exists, no slot refers to it, it is complete, and its
  bytes start with its key, of which it has the hash.
\<close>

definition ready_item :: "memcached_ptr \<Rightarrow> mcworld \<Rightarrow> item_ptr \<Rightarrow> bool" where
  "ready_item m s q \<longleftrightarrow> q < n_items s \<and> q \<notin> ran (filed m s) \<and> well_filed (item_key (mw_items s q)) (mw_items s q)"

definition key_value :: "mcworld \<Rightarrow> item_ptr \<Rightarrow> byte list \<times> entry" where
  "key_value s q = (item_key (mw_items s q), entry_of (mw_items s q))"

definition cache_inv :: "memcached_ptr \<Rightarrow> (item_ptr \<Rightarrow> byte list \<times> entry) \<Rightarrow> item_ptr set \<Rightarrow> mcworld \<Rightarrow> bool" where
  "cache_inv m kv I s \<longleftrightarrow> slots_ok m s \<and> (\<forall>q \<in> I. ready_item m s q \<and> key_value s q = kv q)"

lemma Delete_frame:
  assumes "slots_ok m s"
  shows "wp E (memcached_Delete m key) (\<lambda>_ t. n_items t = n_items s \<and> mw_items t = mw_items s \<and>
    ran (filed m t) \<subseteq> ran (filed m s)) s"
  using assms by (auto simp: memcached_Delete_def slot_number_wp slot_items_wp filed_items set_slot_wp ran_def
      split: if_splits)

interpretation mc: kv_store "cache_inv m kv" "cache m" g_cas "cache_get m" "memcached_Delete m"
    "\<lambda>policy q. Store m q policy" accepts stamp_entry "\<lambda>c. c + 1" kv plain_policy for m kv
proof unfold_locales
  fix I s k
  assume "cache_inv m kv I s"
  then have s: "slots_ok m s" and I: "\<And>q. q \<in> I \<Longrightarrow> ready_item m s q \<and> key_value s q = kv q"
    by (simp_all add: cache_inv_def)
  then show "wp no_panic (cache_get m k) (\<lambda>r t. r = cache m s k \<and> cache_inv m kv I t \<and> cache m t = cache m s \<and>
      g_cas t = g_cas s) s"
    by (simp add: cache_get_def Get_wp cache_def cache_inv_def)
  show "wp no_panic (memcached_Delete m k) (\<lambda>r t. r = (cache m s k \<noteq> None) \<and> cache_inv m kv I t \<and>
      cache m t = (cache m s)(k := None) \<and> g_cas t = g_cas s) s"
    using I by (intro wp_mono [OF wp_conj [OF Delete_correct [OF s] Delete_frame [OF s]]])
      (auto simp: cache_inv_def ready_item_def key_value_def)
next
  fix I s p q k v
  assume "cache_inv m kv I s" and p: "plain_policy p" and q: "q \<in> I" "kv q = (k, v)"
  then have s: "slots_ok m s" and I: "\<And>q. q \<in> I \<Longrightarrow> ready_item m s q \<and> key_value s q = kv q"
    by (simp_all add: cache_inv_def)
  have wf: "q < n_items s" "well_filed k (mw_items s q)" "q \<notin> ran (filed m s)" "entry_of (mw_items s q) = v"
    using I [OF q(1)] q(2) by (auto simp: ready_item_def key_value_def)
  show "wp no_panic (Store m q p) (\<lambda>(succ, exist) t. exist = (cache m s k \<noteq> None) \<and>
      succ = accepts p v (cache m s k) \<and> cache_inv m kv (I - {q}) t \<and>
      cache m t = (if succ then (cache m s)(k \<mapsto> stamp_entry (g_cas s) v) else cache m s) \<and>
      g_cas t = (if succ then g_cas s + 1 else g_cas s)) s"
    using I
    by (intro wp_mono [OF wp_conj [OF Store_correct [OF s wf(1-3) p [unfolded plain_policy_def]]
          Store_frame [OF s wf(2) p [unfolded plain_policy_def]]]])
      (auto simp: wf(4) stamp_entry_def cache_inv_def ready_item_def key_value_def)
qed

section \<open>What the cache promises\<close>

text \<open>A new server has an empty cache.\<close>

lemma NewMemcached_empty:
  "wp any_panic (NewMemcached el opts) (\<lambda>m t. slots_ok m t \<and> cache m t = Map.empty) s"
proof -
  have empty: "slots_ok m t \<and> cache m t = Map.empty"
    if "mc_slotn (mw_memcacheds t m) = 1024" "mc_slots (mw_memcacheds t m) = replicate 1024 \<lparr>sl_items = (\<lambda>_. None)\<rparr>" for m t
    using that by (auto simp: slots_ok_def cache_def filed_def)
  have any: "wp any_panic n (\<lambda>_ _. True) u" for n :: "(world, 'a) go" and u
    by (simp add: wp_def split: sum.splits prod.splits)
  show ?thesis
    by (auto simp: NewMemcached_def Let_def intro!: wp_mono [OF any] empty)
qed

text \<open>
  C6: the slots implement a map from keys to entries. Over any sequence of lookups, deletions and
  updates no call panics, every call returns what the reference on a plain map and a counter
  returns, and the slots keep their invariant: each key in the slot of its hash. The updates are
  those of the policies \<open>Set\<close>, \<open>Add\<close>, \<open>Replace\<close> and \<open>Cas\<close> (\<open>Append\<close> and \<open>Prepend\<close> are the subject
  of the next statement), and each stores an item of its own, which is complete and whose bytes
  start with its key. \<open>NewItem\<close> does not put the key there; see \<open>set_waits_for_key\<close> for what the
  session makes of that.
\<close>

theorem cache_refines_map:
  assumes "slots_ok m s" and "\<forall>(policy, q) \<in> set (puts xs). plain_policy policy \<and> ready_item m s q"
    and "distinct (map snd (puts xs))"
  shows "wp no_panic (kv_runs (cache_get m) (memcached_Delete m) (\<lambda>policy q. Store m q policy) xs)
    (\<lambda>rs t. slots_ok m t \<and> (rs, cache m t, g_cas t) =
       ref_calls accepts stamp_entry (\<lambda>c. c + 1) (key_value s) xs (cache m s, g_cas s)) s"
proof -
  have "cache_inv m (key_value s) (snd ` set (puts xs)) s"
    using assms(1,2) by (auto simp: cache_inv_def)
  moreover have "\<forall>(policy, q) \<in> set (puts xs). plain_policy policy \<and> q \<in> snd ` set (puts xs)"
    using assms(2) by force
  ultimately show ?thesis
    by (intro wp_mono [OF mc.calls_refine [OF _ _ assms(3)]]) (auto simp: cache_inv_def)
qed

text \<open>
  C32: an \<open>append\<close> or \<open>prepend\<close> to a key that the cache holds always panics: the joined item is
  made for key and value but is given the value only, so the assertion that it is complete fails.
\<close>

theorem append_panics:
  assumes "slots_ok m s" and "well_filed key (mw_items s p)" and "p < n_items s" and "filed m s key = Some q"
    and "key \<noteq> []" and "2 \<le> it_valuelen (mw_items s p)" and "2 \<le> it_valuelen (mw_items s q)"
    and "policy = Append \<or> policy = Prepend"
  shows "Store m p policy s = Inl (AssertFailed ''newItem.keylen+newItem.valuelen-newItem.recvBytes == 0'')"
proof -
  let ?it = "mw_items s p" and ?old = "mw_items s q"
  let ?E = "\<lambda>e. e = AssertFailed ''newItem.keylen+newItem.valuelen-newItem.recvBytes == 0''"
  have q: "q < n_items s" "well_filed key ?old"
    using filed_ok [OF assms(1,4)] by auto
  note it = well_filed_fields [OF assms(2)] well_filed_fields [OF q(2)]
  have "0 < length key" "p \<noteq> n_items s" "q \<noteq> n_items s"
    using assms(3,5) q(1) by auto
  then have joined: "wp ?E (store_joined m i k p q policy) Q s" for i k Q
    using assms(6-8)
    by (auto simp: it store_joined_def Let_def item_Key_wp item_Value_wp NewItem_wp item_Append_wp)
  have "wp ?E (Store m p policy) (\<lambda>_ _. False) s"
    using assms(1,8)
    by (auto simp: joined it Store_def Let_def slot_number_wp slot_items_wp item_Key_wp filed_items assms(4))
  then show ?thesis
    by (simp add: wp_panics)
qed

section \<open>Witnesses\<close>

definition blank_item :: item where
  "blank_item = \<lparr>it_keylen = 0, it_flags = 0, it_exptime = 0, it_valuelen = 0, it_recvBytes = 0,
     it_cas = 0, it_hash = hash [], it_data = []\<rparr>"

definition one_cache :: "world \<Rightarrow> mcworld" where
  "one_cache w = \<lparr>mw_world = w, mw_items = (\<lambda>_. blank_item),
     mw_memcacheds = (\<lambda>_. \<lparr>mc_slots = replicate 1024 \<lparr>sl_items = (\<lambda>_. None)\<rparr>, mc_slotn = 1024, mc_server = 0,
       mc_el = 0, mc_stime = None, mc_sessions = (\<lambda>_. None)\<rparr>),
     mw_sessions = (\<lambda>_. \<lparr>ss_m = 0, ss_conn = 0, ss_state = NewCommand, ss_protocol = Ascii, ss_command = [],
       ss_noreply = False, ss_policy = Invalid, ss_currItem = None, ss_bytesToDiscard = 0,
       ss_needle = 0, ss_outputBuffer = NewBuffer, ss_bytesRead = 0, ss_reqProcessed = 0\<rparr>),
     n_items = 1, n_memcacheds = 1, n_sessions = 1, g_cas = 0\<rparr>"

lemma one_cache_ok: "slots_ok m (one_cache w)" "cache m (one_cache w) = Map.empty"
  by (auto simp: slots_ok_def cache_def filed_def one_cache_def)

text \<open>A cache that holds one item, and a second one that is to be appended to it.\<close>

definition letter :: item where
  "letter = \<lparr>it_keylen = 1, it_flags = 0, it_exptime = 0, it_valuelen = 3, it_recvBytes = 4,
     it_cas = 0, it_hash = hash [97], it_data = [97, 120, 13, 10]\<rparr>"

definition letter_cache :: "world \<Rightarrow> mcworld" where
  "letter_cache w = with_slot 0 [97] (Some 0) ((one_cache w)\<lparr>mw_items := (\<lambda>_. letter), n_items := 2\<rparr>)"

lemma letter_ok: "well_filed [97] letter"
  by (simp add: well_filed_def letter_def item_ok_def NeedBytes_def item_key_def)

lemma letter_cache_ok: "slots_ok 0 (letter_cache w)" "filed 0 (letter_cache w) = [[97] \<mapsto> 0]"
proof -
  have "slots_ok 0 ((one_cache w)\<lparr>mw_items := (\<lambda>_. letter), n_items := 2\<rparr>)"
      "filed 0 ((one_cache w)\<lparr>mw_items := (\<lambda>_. letter), n_items := 2\<rparr>) = Map.empty"
    by (auto simp: slots_ok_def filed_def one_cache_def)
  then show "slots_ok 0 (letter_cache w)" "filed 0 (letter_cache w) = [[97] \<mapsto> 0]"
    unfolding letter_cache_def by (auto simp: letter_ok intro!: slots_ok_with_slot)
qed

text \<open>Two items for the same key in an empty cache.\<close>

definition two_letters :: "world \<Rightarrow> mcworld" where
  "two_letters w = (one_cache w)\<lparr>mw_items := (\<lambda>q. letter\<lparr>it_flags := if q = 0 then 5 else 6\<rparr>), n_items := 2\<rparr>"

lemma two_letters_ok: "slots_ok m (two_letters w)" "filed m (two_letters w) = Map.empty"
  "cache m (two_letters w) = Map.empty" "g_cas (two_letters w) = 0"
  "mw_items (two_letters w) q = letter\<lparr>it_flags := if q = 0 then 5 else 6\<rparr>" "n_items (two_letters w) = 2"
  by (auto simp: slots_ok_def filed_def cache_def two_letters_def one_cache_def)

theorem cache_refines_map_witness:
  "wp no_panic (kv_runs (cache_get 0) (memcached_Delete 0) (\<lambda>policy q. Store 0 q policy)
      [KvPut Set 0, KvGet [97], KvPut Add 1, KvDelete [97], KvGet [97]])
    (\<lambda>rs t. rs = [RsPut True False, RsGet (Some \<lparr>en_flags = 5, en_exptime = 0, en_value = [120, 13, 10], en_cas = 1\<rparr>),
       RsPut False True, RsDelete True, RsGet None]) (two_letters (blank_world quiet_kernel))"
proof (rule wp_mono [OF cache_refines_map])
  have "item_key (letter\<lparr>it_flags := f\<rparr>) = [97]" "well_filed [97] (letter\<lparr>it_flags := f\<rparr>)" for f
    by (simp_all add: well_filed_def letter_def item_ok_def NeedBytes_def item_key_def)
  note letters = this
  show "\<forall>(policy, q) \<in> set (puts [KvPut Set 0, KvGet [97], KvPut Add 1, KvDelete [97], KvGet [97]]).
      plain_policy policy \<and> ready_item 0 (two_letters (blank_world quiet_kernel)) q"
    by (simp add: plain_policy_def ready_item_def two_letters_ok letters)
  fix rs t
  assume "slots_ok 0 t \<and> (rs, cache 0 t, g_cas t) = ref_calls accepts stamp_entry (\<lambda>c. c + 1)
      (key_value (two_letters (blank_world quiet_kernel)))
      [KvPut Set 0, KvGet [97], KvPut Add 1, KvDelete [97], KvGet [97]]
      (cache 0 (two_letters (blank_world quiet_kernel)), g_cas (two_letters (blank_world quiet_kernel)))"
  then show "rs = [RsPut True False, RsGet (Some \<lparr>en_flags = 5, en_exptime = 0, en_value = [120, 13, 10], en_cas = 1\<rparr>),
       RsPut False True, RsDelete True, RsGet None]"
    by (simp add: two_letters_ok key_value_def letters stamp_entry_def entry_of_def) (simp add: letter_def)
qed (simp_all add: two_letters_ok)

theorem append_panics_witness:
  "Store 0 1 Append (letter_cache (blank_world quiet_kernel)) =
     Inl (AssertFailed ''newItem.keylen+newItem.valuelen-newItem.recvBytes == 0'')"
  by (rule append_panics [OF letter_cache_ok(1), where key = "[97]" and q = 0])
    (simp_all add: letter_cache_ok(2), simp_all add: letter_ok letter_cache_def, simp_all add: letter_def)

end
