(* ===== verification/Memcached_Session.thy ===== *)
theory Memcached_Session
  imports Memcached_Server
begin

text \<open>
  \<open>examples/memcached/server/session.go\<close>: the protocol session of a connection, which cuts the
  inbound bytes into command lines and data blocks. The loop of \<open>OnMsg\<close> takes a bound on its
  iterations and returns \<open>False\<close> when that is used up. \<open>buf\<close> is the inbound buffer of the
  connection, as the library passes it.
\<close>

section \<open>Requests\<close>

abbreviation sess :: "session_ptr \<Rightarrow> mcworld \<Rightarrow> session" where
  "sess p s \<equiv> mw_sessions s p"

definition CRLF :: "byte list" where
  "CRLF = [13, 10]"

definition on_output :: "session_ptr \<Rightarrow> (buffer, 'a) go \<Rightarrow> (mcworld, 'a) go" where
  "on_output p m = go_zoom (\<lambda>s. ss_outputBuffer (sess p s))
     (\<lambda>b s. s\<lparr>mw_sessions := (mw_sessions s)(p := (sess p s)\<lparr>ss_outputBuffer := b\<rparr>)\<rparr>) m"

definition Replay :: "session_ptr \<Rightarrow> byte list \<Rightarrow> (mcworld, unit) go" where
  "Replay p msg =
     go_bind (go_gets (sess p)) (\<lambda>x.
     go_when (\<not> ss_noreply x) (go_bind (lib (AsyncWrite (ss_conn x) msg None)) (\<lambda>_. go_ret ())))"

definition resetRequest :: "session_ptr \<Rightarrow> (mcworld, unit) go" where
  "resetRequest p = upd_session p (\<lambda>x. x\<lparr>ss_command := [], ss_noreply := False, ss_policy := Invalid,
     ss_currItem := None, ss_bytesToDiscard := 0\<rparr>)"

definition reset_needle :: "session_ptr \<Rightarrow> byte list \<Rightarrow> (mcworld, unit) go" where
  "reset_needle p key = go_bind (go_gets (\<lambda>s. ss_needle (sess p s))) (\<lambda>needle. on_item needle (ResetKey key))"

text \<open>\<open>time.Time.UnixMilli\<close>, of the zero time as well; and arithmetic at 64 bits.\<close>

definition UnixMilli :: "time option \<Rightarrow> int" where
  "UnixMilli t = (case t of None \<Rightarrow> -62135596800000 | Some ns \<Rightarrow> ns div 1000000)"

definition int64 :: "int \<Rightarrow> int" where
  "int64 x = sint (word_of_int x :: 64 word)"

definition policy_of :: "string \<Rightarrow> UpdatePolicy option" where
  "policy_of command =
     (if command = ''set'' then Some Set
      else if command = ''add'' then Some Add
      else if command = ''replace'' then Some Replace
      else if command = ''append'' then Some Append
      else if command = ''prepend'' then Some Prepend
      else if command = ''cas'' then Some Cas
      else None)"

text \<open>The end of \<open>DoUpdate\<close>: the request is refused, too large, or its value is awaited.\<close>

definition beginUpdate :: "session_ptr \<Rightarrow> byte list \<Rightarrow> int \<Rightarrow> int \<Rightarrow> int \<Rightarrow> int \<Rightarrow> bool \<Rightarrow> (mcworld, bool) go" where
  "beginUpdate p key flags exptime b cas good =
     (if \<not> good then
        go_seq (Replay p (bytes_of ''CLIENT_ERROR bad command line format'' @ CRLF)) (go_ret True)
      else if b > 1024 * 1024 then
        go_seq (Replay p (bytes_of ''SERVER_ERROR object too large for cache'' @ CRLF)) (
        go_seq (reset_needle p key) (
        go_bind (go_gets (\<lambda>s. ss_m (sess p s))) (\<lambda>m.
        go_bind (memcached_Delete m key) (\<lambda>_.
        go_seq (upd_session p (\<lambda>x. x\<lparr>ss_bytesToDiscard := word_of_int (b + 2), ss_state := DiscardValue\<rparr>))
          (go_ret True)))))
      else
        go_bind (NewItem key (word_of_int flags) exptime (b + 2) (word_of_int cas)) (\<lambda>it.
        go_bind (new_item it) (\<lambda>currItem.
        go_seq (upd_session p (\<lambda>x. x\<lparr>ss_currItem := Some currItem, ss_state := RecvValue\<rparr>))
          (go_ret False))))"

definition DoUpdate :: "session_ptr \<Rightarrow> byte list list \<Rightarrow> (mcworld, bool) go" where
  "DoUpdate p tokens =
     go_bind (go_gets (sess p)) (\<lambda>x.
     go_seq (case policy_of (ss_command x) of
         Some policy \<Rightarrow> upd_session p (\<lambda>x. x\<lparr>ss_policy := policy\<rparr>)
       | None \<Rightarrow> Assert False ''invalid policy'') (
     go_bind (go_index tokens 0) (\<lambda>key.
     go_bind (go_index tokens 1) (\<lambda>t1.
     let (flags, e1) = ParseUint (string_of t1) 32 in
     go_bind (go_index tokens 2) (\<lambda>t2.
     let (exptime, e2) = ParseInt (string_of t2) 64 in
     go_bind (go_index tokens 3) (\<lambda>t3.
     let (b, e3) = ParseInt (string_of t3) 32;
         good = (length key \<le> 250 \<and> e1 = None \<and> e2 = None \<and> e3 = None) in
     go_bind (startTime (ss_m x)) (\<lambda>stime.
     let exptime = (if exptime > 60 * 60 * 24 * 30
       then (let d = int64 (exptime - UnixMilli stime) in if d < 1 then 1 else d) else exptime) in
     go_bind (go_gets (\<lambda>s. ss_policy (sess p s))) (\<lambda>policy.
     go_bind (if good \<and> policy = Cas
              then go_bind (go_index tokens 4) (\<lambda>t4.
                   let (cas, e4) = ParseUint (string_of t4) 64 in go_ret (cas, e4 = None))
              else go_ret (0, good)) (\<lambda>(cas, good).
     beginUpdate p key flags exptime b cas good)))))))))"

definition DoDelete :: "session_ptr \<Rightarrow> byte list list \<Rightarrow> (mcworld, unit) go" where
  "DoDelete p tokens =
     go_bind (go_index tokens 0) (\<lambda>key.
     if \<not> length key \<le> 250 then
       Replay p (bytes_of ''CLIENT_ERROR bad command line format'' @ CRLF)
     else
       go_bind (if 1 \<ge> length tokens
                then go_bind (go_index tokens 1) (\<lambda>t. go_ret (string_of t \<noteq> ''0''))
                else go_ret False) (\<lambda>bad.
       if bad then
         Replay p (bytes_of (''CLIENT_ERROR bad command line format.  Usage: delete <key> [noreply]'' @
           [CHR 0x5C, CHR ''r'', CHR 0x5C, CHR ''n'']))
       else
         go_seq (reset_needle p key) (
         go_bind (go_gets (\<lambda>s. ss_m (sess p s))) (\<lambda>m.
         go_bind (memcached_Delete m key) (\<lambda>deleted.
         if deleted then Replay p (bytes_of ''DELETED'' @ CRLF)
         else Replay p (bytes_of ''NOT_FOUND'' @ CRLF))))))"

text \<open>The keys of a \<open>get\<close>; the result says that a key was refused, which ends the request.\<close>

fun get_keys :: "session_ptr \<Rightarrow> bool \<Rightarrow> byte list list \<Rightarrow> (mcworld, bool) go" where
  "get_keys p cas [] = go_ret False"
| "get_keys p cas (key # keys) =
     (if \<not> length key \<le> 250 then
        go_seq (Replay p (bytes_of ''CLIENT_ERROR bad command line format'' @ CRLF)) (go_ret True)
      else
        go_seq (reset_needle p key) (
        go_bind (go_gets (\<lambda>s. ss_m (sess p s))) (\<lambda>m.
        go_bind (memcached_Get m key) (\<lambda>found.
        go_seq (case found of
            None \<Rightarrow> go_ret ()
          | Some q \<Rightarrow> go_bind (go_gets (\<lambda>s. mw_items s q)) (\<lambda>it. on_output p (item_Output it cas)))
          (get_keys p cas keys)))))"

definition DoGet :: "session_ptr \<Rightarrow> bool \<Rightarrow> byte list list \<Rightarrow> (mcworld, unit) go" where
  "DoGet p cas keys =
     go_bind (get_keys p cas keys) (\<lambda>refused.
     go_when (\<not> refused)
       (go_seq (on_output p (emit (bytes_of ''END'' @ CRLF))) (
        go_bind (go_gets (sess p)) (\<lambda>x.
        go_bind (lib (GetOutboundBuffer (ss_conn x))) (\<lambda>outbound.
        go_seq (go_when (WritableBytes outbound > 65536 + ReadableBytes (ss_outputBuffer x))
          (on_output p (Shrink (65536 + ReadableBytes (ss_outputBuffer x))))) (
        go_bind (on_output p (Next (-1))) (\<lambda>data.
        go_bind (lib (tcp_Write (ss_conn x) data)) (\<lambda>_. go_ret ()))))))))"

text \<open>The switch over the command.\<close>

definition dispatch :: "session_ptr \<Rightarrow> string \<Rightarrow> byte list list \<Rightarrow> (mcworld, bool) go" where
  "dispatch p command tokens =
     (if policy_of command \<noteq> None then DoUpdate p tokens
      else if command = ''get'' \<or> command = ''gets'' then
        go_seq (DoGet p (command = ''gets'') tokens) (go_ret True)
      else if command = ''delete'' then go_seq (DoDelete p tokens) (go_ret True)
      else if command = ''version'' then
        go_seq (Replay p (bytes_of ''VERSION 0.0.1 muduo'' @ CRLF)) (go_ret True)
      else if command = ''quit'' \<or> command = ''shutdown'' then
        go_bind (go_gets (\<lambda>s. ss_conn (sess p s))) (\<lambda>conn.
        go_seq (lib (ShutdownWrite conn)) (go_ret True))
      else go_seq (Replay p (bytes_of ''ERROR'' @ CRLF)) (go_ret True))"

definition processRequest :: "session_ptr \<Rightarrow> byte list \<Rightarrow> (mcworld, bool) go" where
  "processRequest p line =
     go_bind (go_gets (sess p)) (\<lambda>x.
     go_seq (Assert (ss_command x = []) ''command should be empty'') (
     go_seq (Assert (ss_noreply x = False) ''noreply should be false'') (
     go_seq (Assert (ss_policy x = Invalid) ''policy should be invalid'') (
     go_seq (Assert (ss_currItem x = None) ''currItem should be nil'') (
     go_seq (Assert (ss_bytesToDiscard x = 0) ''bytesToDiscard should be zero'') (
     go_seq (upd_session p (\<lambda>x. x\<lparr>ss_reqProcessed := ss_reqProcessed x + 1\<rparr>)) (
     let quiet = (length line \<ge> 8 \<and> string_of (drop (length line - 8) line) = '' noreply'');
         rest = (if quiet then take (length line - 8) line else line) in
     go_seq (go_when quiet (upd_session p (\<lambda>x. x\<lparr>ss_noreply := True\<rparr>))) (
     case Fields rest of
       [] \<Rightarrow> go_seq (Replay p (bytes_of ''ERROR'' @ CRLF)) (go_ret True)
     | t # tokens \<Rightarrow>
         go_seq (upd_session p (\<lambda>x. x\<lparr>ss_command := string_of t\<rparr>))
           (dispatch p (string_of t) tokens)))))))))"

section \<open>Data blocks and the loop\<close>

text \<open>The answer to an update.\<close>

definition reply_stored :: "UpdatePolicy \<Rightarrow> bool \<Rightarrow> bool \<Rightarrow> string" where
  "reply_stored policy succ exists =
     (if succ then ''STORED''
      else if policy = Cas then (if exists then ''EXISTS'' else ''NOT_FOUND'')
      else ''NOT_STORED'')"

definition finishValue :: "session_ptr \<Rightarrow> item_ptr \<Rightarrow> (mcworld, unit) go" where
  "finishValue p q =
     go_bind (go_gets (\<lambda>s. mw_items s q)) (\<lambda>it.
     go_bind (EndWithCRLF it) (\<lambda>crlf.
     go_seq (if crlf then
         go_bind (go_gets (sess p)) (\<lambda>x.
         go_bind (Store (ss_m x) q (ss_policy x)) (\<lambda>(succ, exists).
         Replay p (bytes_of (reply_stored (ss_policy x) succ exists) @ CRLF)))
       else Replay p (bytes_of ''CLIENT_ERROR bad data chunk'' @ CRLF)) (
     go_seq (resetRequest p)
       (upd_session p (\<lambda>x. x\<lparr>ss_state := NewCommand\<rparr>)))))"

definition recvValue :: "session_ptr \<Rightarrow> conn_ptr \<Rightarrow> (mcworld, unit) go" where
  "recvValue p c =
     go_bind (go_gets (sess p)) (\<lambda>x.
     go_seq (Assert (ss_state x = RecvValue) ''state should be recv value'') (
     case ss_currItem x of
       None \<Rightarrow> Assert False ''currItem should not be nil''
     | Some q \<Rightarrow>
         go_bind (lib (GetInboundBuffer c)) (\<lambda>buf.
         go_bind (go_gets (\<lambda>s. NeedBytes (mw_items s q))) (\<lambda>need.
         let avail = (if need \<le> ReadableBytes buf then need else ReadableBytes buf) in
         go_bind (lib (on_inbound c Peek)) (\<lambda>data.
         go_bind (go_slice data 0 avail) (\<lambda>chunk.
         go_seq (on_item q (item_Append chunk)) (
         go_seq (lib (on_inbound c (Advance avail))) (
         go_bind (go_gets (\<lambda>s. NeedBytes (mw_items s q))) (\<lambda>need.
         go_when (need = 0) (finishValue p q))))))))))"

definition discardValue :: "session_ptr \<Rightarrow> conn_ptr \<Rightarrow> (mcworld, unit) go" where
  "discardValue p c =
     go_bind (go_gets (sess p)) (\<lambda>x.
     go_seq (Assert (ss_state x = DiscardValue) ''state should be discard value'') (
     go_seq (Assert (ss_currItem x = None) ''currItem should be nil'') (
     go_bind (lib (GetInboundBuffer c)) (\<lambda>buf.
     if ReadableBytes buf < sint (ss_bytesToDiscard x) then
       go_seq (upd_session p (\<lambda>x. x\<lparr>ss_bytesToDiscard := ss_bytesToDiscard x - word_of_int (ReadableBytes buf)\<rparr>))
         (lib (on_inbound c (Reset 0)))
     else
       go_seq (lib (on_inbound c (Advance (sint (ss_bytesToDiscard x))))) (
       go_seq (upd_session p (\<lambda>x. x\<lparr>ss_bytesToDiscard := 0\<rparr>)) (
       go_seq (resetRequest p)
         (upd_session p (\<lambda>x. x\<lparr>ss_state := NewCommand\<rparr>))))))))"

definition IsBinaryProtocol :: "byte \<Rightarrow> bool" where
  "IsBinaryProtocol first \<longleftrightarrow> first = 0x80"

text \<open>A command line, and one iteration of the loop of \<open>OnMsg\<close>; the result says \<open>break\<close>.\<close>

definition readCommand :: "session_ptr \<Rightarrow> conn_ptr \<Rightarrow> (mcworld, bool) go" where
  "readCommand p c =
     go_bind (go_gets (sess p)) (\<lambda>x.
     go_seq (go_when (ss_protocol x = Auto)
       (go_seq (Assert (ss_bytesRead x = 0) ''bytesRead should be zero'') (
        go_bind (lib (on_inbound c Peek)) (\<lambda>data.
        go_bind (go_index data 0) (\<lambda>first.
        upd_session p (\<lambda>x. x\<lparr>ss_protocol := (if IsBinaryProtocol first then Binary else Ascii)\<rparr>)))))) (
     go_bind (go_gets (\<lambda>s. ss_protocol (sess p s))) (\<lambda>protocol.
     go_seq (Assert (protocol = Ascii \<or> protocol = Binary) ''protocol should be ascii or binary'')
     (if protocol = Ascii then
        go_bind (lib (on_inbound c (Search CRLF))) (\<lambda>search.
        if search > 0 then
          go_bind (lib (on_inbound c Peek)) (\<lambda>data.
          go_bind (go_slice data 0 search) (\<lambda>line.
          go_bind (processRequest p line) (\<lambda>done.
          go_seq (go_when done (resetRequest p)) (
          go_seq (lib (on_inbound c (Advance (search + int (length CRLF)))))
            (go_ret False)))))
        else
          go_bind (lib (GetInboundBuffer c)) (\<lambda>buf.
          go_seq (go_when (ReadableBytes buf > 1024) (lib (ShutdownWrite c)))
            (go_ret True)))
      else go_ret False))))"

definition OnMsg_step :: "session_ptr \<Rightarrow> conn_ptr \<Rightarrow> (mcworld, bool) go" where
  "OnMsg_step p c =
     go_bind (go_gets (\<lambda>s. ss_state (sess p s))) (\<lambda>state.
     case state of
       NewCommand \<Rightarrow> readCommand p c
     | RecvValue \<Rightarrow> go_seq (recvValue p c) (go_ret False)
     | DiscardValue \<Rightarrow> go_seq (discardValue p c) (go_ret False))"

primrec OnMsg_loop :: "nat \<Rightarrow> session_ptr \<Rightarrow> conn_ptr \<Rightarrow> (mcworld, bool) go" where
  "OnMsg_loop 0 p c = go_ret False"
| "OnMsg_loop (Suc n) p c =
     go_bind (lib (GetInboundBuffer c)) (\<lambda>buf.
     if ReadableBytes buf > 0
     then go_bind (OnMsg_step p c) (\<lambda>brk. if brk then go_ret True else OnMsg_loop n p c)
     else go_ret True)"

definition OnMsg :: "nat \<Rightarrow> session_ptr \<Rightarrow> conn_ptr \<Rightarrow> time \<Rightarrow> (mcworld, bool) go" where
  "OnMsg n p c t =
     go_bind (lib (GetInboundBuffer c)) (\<lambda>initial.
     go_bind (OnMsg_loop n p c) (\<lambda>finished.
     go_bind (lib (GetInboundBuffer c)) (\<lambda>left.
     go_seq (go_when finished (upd_session p (\<lambda>x. x\<lparr>ss_bytesRead := ss_bytesRead x +
         word_of_int (ReadableBytes initial - ReadableBytes left)\<rparr>)))
       (go_ret finished))))"

section \<open>What the steps leave alone\<close>

text \<open>The inbound buffers; and the panics other than the assertions of the session itself.\<close>

definition inb :: "mcworld \<Rightarrow> conn_ptr \<Rightarrow> buffer" where
  "inb s c = tc_inbound (conns (mw_world s) c)"

definition session_asserts :: "string set" where
  "session_asserts = {''invalid policy'', ''command should be empty'', ''noreply should be false'',
     ''policy should be invalid'', ''currItem should be nil'', ''bytesToDiscard should be zero'',
     ''state should be recv value'', ''currItem should not be nil'', ''state should be discard value'',
     ''bytesRead should be zero'', ''protocol should be ascii or binary''}"

definition other_panic :: "panic \<Rightarrow> bool" where
  "other_panic e \<longleftrightarrow> (\<forall>msg \<in> session_asserts. e \<noteq> AssertFailed msg)"

lemma other_panic_simps [simp]:
  "other_panic SliceBounds" "other_panic IndexOutOfRange" "other_panic NilDereference" "other_panic MakeSliceLen"
  "other_panic DivideByZero" "other_panic (PanicErr x)"
  "other_panic (AssertFailed msg) \<longleftrightarrow> msg \<notin> session_asserts"
  by (auto simp: other_panic_def)

text \<open>A world with the same inbound buffers.\<close>

definition same_inbound :: "world \<Rightarrow> world \<Rightarrow> bool" where
  "same_inbound w w' \<longleftrightarrow> (\<forall>c. tc_inbound (conns w' c) = tc_inbound (conns w c))"

lemma same_inbound_inb: "same_inbound (mw_world s) w \<Longrightarrow> inb (s\<lparr>mw_world := w\<rparr>) = inb s"
  by (simp add: same_inbound_def inb_def fun_eq_iff)

lemma AsyncWrite_inbound: "wp E (AsyncWrite c d cb) (\<lambda>_ w'. same_inbound w w') w"
  by (simp add: AsyncWrite_def AsyncExecute_def Wakeup_def same_inbound_def)

lemma ShutdownWrite_inbound: "wp E (ShutdownWrite c) (\<lambda>_ w'. same_inbound w w') w"
  by (simp add: ShutdownWrite_def AsyncExecute_def Wakeup_def same_inbound_def)

lemma buffer_Write_panics: "wp other_panic (Write d) (\<lambda>_ _. True) b"
  by (auto simp: Write_def ensureWritableBytes_def makeSpace_def wp_def go_defs Let_def split: sum.splits prod.splits)

lemma enableWriting_conns: "wp other_panic (enableWriting ch) (\<lambda>_ w'. conns w' = conns w) w"
  by (simp add: enableWriting_def chan_update_def updateChannel_def update_def epollCtl_def upd_poller_def Let_def session_asserts_def)

lemma write_now_conns: "wp E (write_now c d) (\<lambda>_ w'. conns w' = conns w) w"
  by (simp add: write_now_def Let_def AsyncExecute_def Wakeup_def)

lemma tcp_Write_inbound: "wp other_panic (tcp_Write c d) (\<lambda>_ w'. same_inbound w w') w"
  unfolding tcp_Write_def
  by (auto simp: same_inbound_def intro!: wp_mono [OF write_now_conns] wp_mono [OF buffer_Write_panics]
      wp_mono [OF enableWriting_conns] split: sum.split if_splits)

text \<open>Operations that touch neither the sessions nor the inbound buffers, and fail no assertion.\<close>

definition steady :: "mcworld \<Rightarrow> mcworld \<Rightarrow> bool" where
  "steady s t \<longleftrightarrow> mw_sessions t = mw_sessions s \<and> inb t = inb s"

interpretation st: kept other_panic steady
  by unfold_locales (auto simp: steady_def)

lemma steady_basic:
  "st.keeps (go_slice xs lo hi)" "st.keeps (go_index xs i)" "st.keeps (go_make z k)" "st.keeps (go_panic DivideByZero)"
  "st.keeps next_cas" "st.keeps (new_item it)" "st.keeps (upd_memcached m h)"
  by (simp_all add: st.keeps_def steady_def inb_def fun_eq_iff)

lemma steady_Assert: "b \<or> msg \<notin> session_asserts \<Longrightarrow> st.keeps (Assert b msg)"
  by (auto simp: st.keeps_def steady_def)

lemma steady_item:
  assumes "\<And>it. wp other_panic m (\<lambda>_ _. True) it"
  shows "st.keeps (on_item q m)"
  by (rule st.keepsI, unfold wp_on_item, rule wp_mono [OF assms]) (simp_all add: steady_def inb_def fun_eq_iff)

lemma steady_lib:
  assumes "\<And>w. wp other_panic m (\<lambda>_ w'. same_inbound w w') w"
  shows "st.keeps (lib m)"
  by (rule st.keepsI, unfold wp_lib, rule wp_mono [OF assms]) (simp_all add: steady_def same_inbound_inb)

lemmas steady_control = steady_basic st.keeps_compose steady_item steady_lib

lemma item_ops_panics:
  "wp other_panic (item_Append d) (\<lambda>_ _. True) it" "wp other_panic (ResetKey d) (\<lambda>_ _. True) it"
  by (simp_all add: ResetKey_def item_Append_wp)

lemma steady_slots:
  "st.keeps (slot_number m h)" "st.keeps (slot_items m i)" "st.keeps (set_slot m i k q)"
  "st.keeps (EndWithCRLF it)" "st.keeps (item_Key it)" "st.keeps (item_Value it)" "st.keeps (NewItem key f e v c)"
  unfolding slot_number_def slot_items_def set_slot_def EndWithCRLF_def item_Key_def item_Value_def NewItem_def Let_def
  by (intro steady_control; simp)+

lemma steady_cache: "st.keeps (memcached_Get m key)" "st.keeps (memcached_Delete m key)" "st.keeps (put_item m i k q)"
  unfolding memcached_Get_def memcached_Delete_def put_item_def
  by (intro steady_control steady_slots; simp)+

lemma steady_joined: "st.keeps (store_joined m i k q oldq policy)"
  unfolding store_joined_def Let_def
  by (intro steady_control steady_slots steady_Assert item_ops_panics) (simp_all add: session_asserts_def)

lemma steady_Store: "policy \<noteq> Invalid \<Longrightarrow> st.keeps (Store m q policy)"
  unfolding Store_def Let_def
  by (intro steady_control steady_slots steady_cache steady_joined steady_Assert) (cases policy; simp)

lemma steady_Replay: "st.keeps (Replay p msg)"
  unfolding Replay_def by (intro steady_control AsyncWrite_inbound)

lemma steady_needle: "st.keeps (reset_needle p key)"
  unfolding reset_needle_def by (intro steady_control item_ops_panics)

lemma steady_DoDelete: "st.keeps (DoDelete p tokens)"
  unfolding DoDelete_def by (intro steady_control steady_Replay steady_needle steady_cache)

text \<open>Operations of a buffer: only what they panic with matters here.\<close>

interpretation bp: kept other_panic "\<lambda>(_ :: buffer) _. True"
  by unfold_locales auto

lemma buffer_panics: "bp.keeps (Write d)" "bp.keeps (go_slice xs lo hi)" "bp.keeps (go_modify f)"
  by (simp_all add: bp.keeps_def buffer_Write_panics)

lemma output_panics: "bp.keeps (emit d)" "bp.keeps (item_Output it cas)" "bp.keeps (Shrink k)" "bp.keeps (Next k)"
proof -
  show e: "bp.keeps (emit d)" for d
    unfolding emit_def by (intro bp.keeps_compose buffer_panics)
  show "bp.keeps (item_Output it cas)"
    unfolding item_Output_def item_Value_def by (intro bp.keeps_compose buffer_panics e)
  show "bp.keeps (Shrink k)" "bp.keeps (Next k)"
    by (auto simp: bp.keeps_def Shrink_def Next_def Peek_def Reset_def Advance_def wp_def go_defs)
qed

text \<open>Operations that change a session, but not what its progress depends on.\<close>

definition calm :: "session_ptr \<Rightarrow> mcworld \<Rightarrow> mcworld \<Rightarrow> bool" where
  "calm p s t \<longleftrightarrow> inb t = inb s \<and> ss_protocol (sess p t) = ss_protocol (sess p s) \<and>
     ss_state (sess p t) = ss_state (sess p s)"

interpretation ca: kept other_panic "calm p" for p
  by unfold_locales (auto simp: calm_def)

lemma calm_steady: "st.keeps m \<Longrightarrow> ca.keeps p m"
  by (rule ca.keepsI, erule st.keepsD) (simp add: calm_def steady_def)

lemma calm_output:
  assumes "bp.keeps m"
  shows "ca.keeps p (on_output p m)"
  by (rule ca.keepsI, unfold on_output_def wp_zoom, rule wp_mono [OF assms [unfolded bp.keeps_def, rule_format]]) (simp_all add: calm_def inb_def fun_eq_iff)

lemma calm_session: "(\<And>x. ss_protocol (f x) = ss_protocol x \<and> ss_state (f x) = ss_state x) \<Longrightarrow> ca.keeps p (upd_session p f)"
  by (simp add: ca.keeps_def calm_def inb_def fun_eq_iff)

lemma calm_get_keys: "ca.keeps p (get_keys p cas keys)"
proof (induction keys)
  case Nil
  then show ?case
    by (simp add: ca.keeps_ret)
next
  case (Cons key keys)
  then show ?case
    unfolding get_keys.simps
    by (intro ca.keeps_compose calm_output output_panics) (simp_all add: calm_steady steady_Replay steady_needle steady_cache)
qed

lemma calm_DoGet: "ca.keeps p (DoGet p cas keys)"
  unfolding DoGet_def GetOutboundBuffer_def
  by (intro ca.keeps_compose calm_get_keys calm_output output_panics calm_steady [OF steady_lib] tcp_Write_inbound)
    (simp_all add: same_inbound_def)

section \<open>The states of a session\<close>

text \<open>
  Between requests all fields of the request are cleared; a value is received for a policy and
  an item. The invariant is about the session only.
\<close>

definition cleared :: "session \<Rightarrow> bool" where
  "cleared x \<longleftrightarrow> ss_command x = [] \<and> \<not> ss_noreply x \<and> ss_policy x = Invalid \<and> ss_currItem x = None \<and>
     ss_bytesToDiscard x = 0"

definition session_ok :: "session \<Rightarrow> bool" where
  "session_ok x \<longleftrightarrow> ss_protocol x = Ascii \<and>
     (if ss_state x = RecvValue then ss_policy x \<noteq> Invalid \<and> ss_currItem x \<noteq> None else cleared x)"

text \<open>What a request leaves: a value to be received, or a request to be cleared.\<close>

definition request_done :: "session_ptr \<Rightarrow> mcworld \<Rightarrow> bool \<Rightarrow> mcworld \<Rightarrow> bool" where
  "request_done p s over t \<longleftrightarrow> inb t = inb s \<and> ss_protocol (sess p t) = ss_protocol (sess p s) \<and>
     (if over then ss_state (sess p t) \<noteq> RecvValue
      else ss_state (sess p t) = RecvValue \<and> ss_policy (sess p t) \<noteq> Invalid \<and> ss_currItem (sess p t) \<noteq> None)"

lemma policy_of_valid: "policy_of c = Some policy \<Longrightarrow> policy \<noteq> Invalid"
  by (auto simp: policy_of_def split: if_splits)

lemma request_done_steady:
  "steady s t \<Longrightarrow> ss_state (sess p s) \<noteq> RecvValue \<Longrightarrow> request_done p s True t"
  by (simp add: request_done_def steady_def)

lemma beginUpdate_done:
  assumes "inb t = inb s" and "ss_protocol (sess p t) = ss_protocol (sess p s)" and "ss_state (sess p t) \<noteq> RecvValue"
    and "ss_policy (sess p t) \<noteq> Invalid"
  shows "wp other_panic (beginUpdate p key flags exptime b cas good) (request_done p s) t"
proof -
  have bad: "wp other_panic (go_seq (Replay p msg) (go_ret True)) (request_done p s) t" for msg
    unfolding wp_seq by (rule st.keepsD [OF steady_Replay]) (use assms in \<open>simp add: steady_def request_done_def\<close>)
  have large: "wp other_panic (go_seq (Replay p msg) (go_seq (reset_needle p key) (go_bind (go_gets (\<lambda>s. ss_m (sess p s)))
      (\<lambda>m. go_bind (memcached_Delete m key) (\<lambda>_. go_seq (upd_session p (\<lambda>x. x\<lparr>ss_bytesToDiscard := d, ss_state := DiscardValue\<rparr>))
        (go_ret True)))))) (request_done p s) t" for msg d
    unfolding wp_seq wp_bind
    by (rule st.keepsD [OF steady_Replay], rule st.keepsD [OF steady_needle], unfold wp_gets, rule st.keepsD [OF steady_cache(2)])
      (use assms in \<open>simp add: steady_def request_done_def inb_def fun_eq_iff\<close>)
  show ?thesis
    unfolding beginUpdate_def using assms(1,2,4)
    by (simp only: wp_if bad large if_True) (simp add: NewItem_wp request_done_def inb_def fun_eq_iff)
qed

lemma DoUpdate_done:
  assumes "policy_of (ss_command (sess p s)) = Some policy" and "ss_state (sess p s) \<noteq> RecvValue"
  shows "wp other_panic (DoUpdate p tokens) (request_done p s) s"
  using assms policy_of_valid [OF assms(1)] unfolding DoUpdate_def
  by (simp add: Let_def case_prod_beta startTime_def beginUpdate_done inb_def fun_eq_iff)

lemma calm_done:
  assumes "ca.keeps p m" and "calm p s t" and "ss_state (sess p s) \<noteq> RecvValue"
  shows "wp other_panic (go_seq m (go_ret True)) (request_done p s) t"
  unfolding wp_seq by (rule ca.keepsD [OF assms(1)]) (use assms(2,3) in \<open>simp add: calm_def request_done_def\<close>)

lemmas calm_ops = calm_steady [OF steady_Replay] calm_steady [OF steady_DoDelete] calm_DoGet
  calm_steady [OF steady_lib [OF ShutdownWrite_inbound]]

lemma request_done_calm: "calm p s t \<Longrightarrow> request_done p t over u \<Longrightarrow> request_done p s over u"
  by (simp add: calm_def request_done_def)

lemma dispatch_done:
  assumes "calm p s t" and "ss_state (sess p s) \<noteq> RecvValue" and "ss_command (sess p t) = command"
  shows "wp other_panic (dispatch p command tokens) (request_done p s) t"
proof -
  have st: "ss_state (sess p t) \<noteq> RecvValue"
    using assms(1,2) by (simp add: calm_def)
  have "wp other_panic (DoUpdate p tokens) (request_done p s) t" if "policy_of command = Some policy" for policy
    by (rule wp_mono [OF DoUpdate_done [OF _ st]]) (use that assms in \<open>auto intro: request_done_calm\<close>)
  moreover have "wp other_panic (go_bind (go_gets (\<lambda>s. ss_conn (sess p s))) (\<lambda>conn. go_seq (lib (ShutdownWrite conn))
      (go_ret True))) (request_done p s) t"
    unfolding wp_bind wp_gets by (intro calm_done calm_ops assms(1,2))
  ultimately show ?thesis
    unfolding dispatch_def by (intro wp_ifI calm_done calm_ops assms(1,2)) auto
qed

lemma processRequest_done:
  assumes "cleared (sess p s)" and "ss_state (sess p s) \<noteq> RecvValue"
  shows "wp other_panic (processRequest p line) (request_done p s) s"
proof -
  have go: "wp other_panic (case Fields rest of
       [] \<Rightarrow> go_seq (Replay p e) (go_ret True)
     | t # tokens \<Rightarrow> go_seq (upd_session p (\<lambda>x. x\<lparr>ss_command := string_of t\<rparr>)) (dispatch p (string_of t) tokens))
     (request_done p s) t" if "calm p s t" for rest e t
  proof (cases "Fields rest")
    case Nil
    then show ?thesis
      using calm_done [OF calm_ops(1) that assms(2)] by (simp del: wp_seq)
  next
    case (Cons tok tokens)
    then show ?thesis
      using that assms(2) by (simp, intro dispatch_done) (simp_all add: calm_def inb_def fun_eq_iff)
  qed
  show ?thesis
    unfolding processRequest_def Let_def using assms(1)
    by (simp add: cleared_def go calm_def inb_def fun_eq_iff)
qed

section \<open>The loop\<close>

text \<open>Reading and changing the inbound buffer.\<close>

definition with_inb :: "conn_ptr \<Rightarrow> buffer \<Rightarrow> mcworld \<Rightarrow> mcworld" where
  "with_inb c b s = s\<lparr>mw_world := (mw_world s)\<lparr>conns := (conns (mw_world s))(c := (conns (mw_world s) c)\<lparr>tc_inbound := b\<rparr>)\<rparr>\<rparr>"

lemma with_inb_fields [simp]:
  "inb (with_inb c b s) = (inb s)(c := b)" "mw_sessions (with_inb c b s) = mw_sessions s"
  "mw_items (with_inb c b s) = mw_items s" "mw_memcacheds (with_inb c b s) = mw_memcacheds s"
  "n_items (with_inb c b s) = n_items s" "g_cas (with_inb c b s) = g_cas s"
  by (simp_all add: with_inb_def inb_def fun_eq_iff)

lemma with_inb_same: "with_inb c (inb s c) s = s"
  by (simp add: with_inb_def inb_def)

lemma inbound_wp: "wp E (lib (on_inbound c m)) Q s = wp E m (\<lambda>a b. Q a (with_inb c b s)) (inb s c)"
  by (simp add: with_inb_def inb_def)

lemma inbound_read: "m (inb s c) = Inr (a, inb s c) \<Longrightarrow> wp E (lib (on_inbound c m)) Q s = Q a s"
  unfolding inbound_wp by (simp add: wp_eq with_inb_same)

lemma inbound_get: "wp E (lib (GetInboundBuffer c)) Q s = Q (inb s c) s"
  by (simp add: GetInboundBuffer_def inb_def)

lemma inbound_Advance:
  "wp E (lib (on_inbound c (Advance n))) Q s = Q () (with_inb c ((inb s c)\<lparr>readIndex := readIndex (inb s c) + n\<rparr>) s)"
  unfolding inbound_wp by (simp add: Advance_def)

lemma ReadableBytes_Advance: "ReadableBytes (b\<lparr>readIndex := readIndex b + n\<rparr>) = ReadableBytes b - n"
  by (simp add: ReadableBytes_def)

text \<open>
  The measure: every iteration that goes on takes bytes from the buffer, or leaves one of the
  two states in which a data block is awaited.
\<close>

definition work_left :: "session_ptr \<Rightarrow> conn_ptr \<Rightarrow> mcworld \<Rightarrow> int" where
  "work_left p c s = 2 * ReadableBytes (inb s c) + (if ss_state (sess p s) = NewCommand then 0 else 1)"

definition advanced :: "session_ptr \<Rightarrow> conn_ptr \<Rightarrow> mcworld \<Rightarrow> bool \<Rightarrow> mcworld \<Rightarrow> bool" where
  "advanced p c s brk t \<longleftrightarrow> session_ok (sess p t) \<and> buffer_inv (inb t c) \<and> (brk \<or> work_left p c t < work_left p c s)"

lemma resetRequest_wp:
  "wp E (resetRequest p) Q s = Q () (s\<lparr>mw_sessions := (mw_sessions s)(p := (sess p s)\<lparr>ss_command := [], ss_noreply := False,
     ss_policy := Invalid, ss_currItem := None, ss_bytesToDiscard := 0\<rparr>)\<rparr>)"
  by (simp add: resetRequest_def)

lemma readCommand_advanced:
  assumes "session_ok (sess p s)" and "ss_state (sess p s) = NewCommand" and "buffer_inv (inb s c)"
  shows "wp other_panic (readCommand p c) (advanced p c s) s"
proof -
  let ?b = "inb s c" and ?k = "bytes_Index (contents (inb s c)) CRLF"
  have ok: "ss_protocol (sess p s) = Ascii" "cleared (sess p s)"
    using assms(1,2) by (auto simp: session_ok_def)
  have search: "Search CRLF ?b = Inr (?k, ?b)" "Peek ?b = Inr (contents ?b, ?b)"
    using assms(3) by (simp_all add: Search_result Peek_result CRLF_def)
  have len: "int (length (contents ?b)) = ReadableBytes ?b"
    using assms(3) by (rule length_contents)
  have stop: "wp other_panic (lib (ShutdownWrite c)) (\<lambda>_. wp other_panic (go_ret True) (advanced p c s)) s"
    by (rule st.keepsD [OF steady_lib [OF ShutdownWrite_inbound]]) (use assms in \<open>simp add: advanced_def steady_def\<close>)
  have line: "wp other_panic (processRequest p l) (\<lambda>over. wp other_panic (go_seq (go_when over (resetRequest p))
      (go_seq (lib (on_inbound c (Advance (?k + int (length CRLF))))) (go_ret False))) (advanced p c s)) s" if k: "0 < ?k" for l
  proof (rule wp_mono [OF processRequest_done])
    fix over t
    assume t: "request_done p s over t"
    have "?k + 2 \<le> ReadableBytes ?b"
      using bytes_Index_le [of "contents ?b" CRLF] k len by (simp add: CRLF_def)
    then have b: "buffer_inv (?b\<lparr>readIndex := readIndex ?b + (?k + 2)\<rparr>)"
      using assms(3) k by (intro contents_Advance) auto
    show "wp other_panic (go_seq (go_when over (resetRequest p))
      (go_seq (lib (on_inbound c (Advance (?k + int (length CRLF))))) (go_ret False))) (advanced p c s) t"
      using t b k ok(1) assms(2)
      by (auto simp: resetRequest_wp inbound_Advance advanced_def request_done_def session_ok_def cleared_def work_left_def
          ReadableBytes_Advance CRLF_def inb_def fun_eq_iff simp del: wp_lib)
  qed (use ok assms(2) in auto)
  show ?thesis
    unfolding readCommand_def using ok(1) assms stop line len
    by (auto simp: inbound_read [where m = "Search CRLF" and s = s and c = c, OF search(1)]
        inbound_read [where m = Peek and s = s and c = c, OF search(2)] inbound_get advanced_def
       simp del: wp_lib)
qed

lemma finishValue_done:
  assumes "ss_protocol (sess p s) = Ascii" and "ss_policy (sess p s) \<noteq> Invalid"
  shows "wp other_panic (finishValue p q) (\<lambda>_ t. inb t = inb s \<and> session_ok (sess p t) \<and> ss_state (sess p t) = NewCommand) s"
proof -
  let ?Q = "\<lambda>_ t. inb t = inb s \<and> session_ok (sess p t) \<and> ss_state (sess p t) = NewCommand"
  have reset: "wp other_panic (go_seq (resetRequest p) (upd_session p (\<lambda>x. x\<lparr>ss_state := NewCommand\<rparr>))) ?Q t" if "steady s t" for t
    using that assms(1) by (auto simp: resetRequest_wp steady_def session_ok_def cleared_def inb_def fun_eq_iff)
  have reply: "wp other_panic (Replay p r) (\<lambda>_. wp other_panic (go_seq (resetRequest p)
      (upd_session p (\<lambda>x. x\<lparr>ss_state := NewCommand\<rparr>))) ?Q) t" if "steady s t" for r t
    by (rule st.keepsD [OF steady_Replay], rule reset) (use that in \<open>simp add: steady_def\<close>)
  have "wp other_panic (Store m q (ss_policy (sess p s))) (\<lambda>a. wp other_panic (case a of (succ, exists) \<Rightarrow> Replay p (r succ exists))
      (\<lambda>_. wp other_panic (go_seq (resetRequest p) (upd_session p (\<lambda>x. x\<lparr>ss_state := NewCommand\<rparr>))) ?Q)) s" for m r
    by (rule st.keepsD [OF steady_Store [OF assms(2)]]) (auto intro: reply)
  then show ?thesis
    unfolding finishValue_def EndWithCRLF_def by (simp add: reply steady_def)
qed

text \<open>The state after \<open>n\<close> bytes have been moved from the buffer to item \<open>q\<close>.\<close>

definition took :: "conn_ptr \<Rightarrow> item_ptr \<Rightarrow> int \<Rightarrow> mcworld \<Rightarrow> mcworld" where
  "took c q n s = with_inb c ((inb s c)\<lparr>readIndex := readIndex (inb s c) + n\<rparr>)
     (s\<lparr>mw_items := (mw_items s)(q := (mw_items s q)\<lparr>
        it_data := copy_at (nat (it_recvBytes (mw_items s q))) (take (nat n) (contents (inb s c))) (it_data (mw_items s q)),
        it_recvBytes := it_recvBytes (mw_items s q) + n\<rparr>)\<rparr>)"

lemma inb_fields [simp]:
  "inb (s\<lparr>mw_items := f\<rparr>) = inb s" "inb (s\<lparr>mw_sessions := g\<rparr>) = inb s"
  by (simp_all add: inb_def fun_eq_iff)

lemma NeedBytes_append: "NeedBytes (it\<lparr>it_data := d, it_recvBytes := it_recvBytes it + n\<rparr>) = NeedBytes it - n"
  by (simp add: NeedBytes_def)

lemma took_fields [simp]:
  "inb (took c q n s) = (inb s)(c := (inb s c)\<lparr>readIndex := readIndex (inb s c) + n\<rparr>)"
  "mw_sessions (took c q n s) = mw_sessions s" "NeedBytes (mw_items (took c q n s) q) = NeedBytes (mw_items s q) - n"
  by (simp_all add: took_def NeedBytes_def)

lemma recvValue_wp:
  assumes "ss_state (sess p s) = RecvValue" and "ss_currItem (sess p s) = Some q" and "buffer_inv (inb s c)"
    and "n = min (NeedBytes (mw_items s q)) (ReadableBytes (inb s c))"
  shows "wp E (recvValue p c) Q s =
    (if 0 \<le> n \<and> 0 \<le> it_recvBytes (mw_items s q) \<and> it_recvBytes (mw_items s q) \<le> int (length (it_data (mw_items s q)))
     then if NeedBytes (mw_items s q) = n then wp E (finishValue p q) Q (took c q n s) else Q () (took c q n s)
     else E SliceBounds)"
proof -
  let ?b = "inb s c"
  have peek: "Peek ?b = Inr (contents ?b, ?b)" and len: "int (length (contents ?b)) = ReadableBytes ?b"
    using assms(3) by (simp_all add: Peek_result length_contents)
  have avail: "(if NeedBytes (mw_items s q) \<le> ReadableBytes ?b then NeedBytes (mw_items s q) else ReadableBytes ?b) = n"
    using assms(4) by (simp add: min_def)
  have n: "0 \<le> n \<Longrightarrow> int (length (take (nat n) (contents ?b))) = n" "n \<le> ReadableBytes ?b"
    using assms(4) len by simp_all
  show ?thesis
    using assms(1,2) n unfolding recvValue_def
    by (simp add: inbound_get inbound_read [where m = Peek and s = s and c = c, OF peek] item_Append_wp inbound_Advance
        Let_def avail len NeedBytes_append del: wp_lib)
      (simp add: took_def [symmetric])
qed

lemma recvValue_advanced:
  assumes "session_ok (sess p s)" and "ss_state (sess p s) = RecvValue" and "buffer_inv (inb s c)"
    and "0 < ReadableBytes (inb s c)"
  shows "wp other_panic (recvValue p c) (\<lambda>_. advanced p c s False) s"
proof -
  let ?b = "inb s c"
  obtain q where q: "ss_currItem (sess p s) = Some q" and ok: "ss_protocol (sess p s) = Ascii" "ss_policy (sess p s) \<noteq> Invalid"
    using assms(1,2) by (auto simp: session_ok_def)
  define n where "n = min (NeedBytes (mw_items s q)) (ReadableBytes ?b)"
  have b: "buffer_inv (?b\<lparr>readIndex := readIndex ?b + n\<rparr>)" if "0 \<le> n"
    using that by (intro contents_Advance(2) [OF assms(3)]) (auto simp: n_def)
  have finish: "wp other_panic (finishValue p q) (\<lambda>_. advanced p c s False) (took c q n s)" if "0 \<le> n"
    by (rule wp_mono [OF finishValue_done]) (use that b ok assms(2) in
        \<open>auto simp: advanced_def work_left_def ReadableBytes_Advance\<close>)
  have more: "advanced p c s False (took c q n s)" if "0 \<le> n" "NeedBytes (mw_items s q) \<noteq> n"
    using that b assms n_def by (auto simp: advanced_def work_left_def ReadableBytes_Advance)
  show ?thesis
    using finish more by (simp add: recvValue_wp [OF assms(2) q assms(3) n_def])
qed

lemma discardValue_advanced:
  assumes "session_ok (sess p s)" and "ss_state (sess p s) = DiscardValue" and "buffer_inv (inb s c)"
    and "0 < ReadableBytes (inb s c)"
  shows "wp other_panic (discardValue p c) (\<lambda>_. advanced p c s False) s"
  using assms by (simp add: discardValue_def session_ok_def cleared_def inbound_get inbound_Advance resetRequest_wp
      advanced_def work_left_def del: wp_lib)

lemma OnMsg_step_advanced:
  assumes "session_ok (sess p s)" and "buffer_inv (inb s c)" and "0 < ReadableBytes (inb s c)"
  shows "wp other_panic (OnMsg_step p c) (advanced p c s) s"
  using assms readCommand_advanced [where p = p and s = s and c = c]
    wp_mono [OF recvValue_advanced [where p = p and s = s and c = c]]
    wp_mono [OF discardValue_advanced [where p = p and s = s and c = c]]
  by (cases "ss_state (sess p s)") (simp_all add: OnMsg_step_def)

lemma OnMsg_loop_runs:
  assumes "session_ok (sess p s)" and "buffer_inv (inb s c)"
  shows "wp other_panic (OnMsg_loop n p c) (\<lambda>over t. session_ok (sess p t) \<and> buffer_inv (inb t c) \<and>
    (work_left p c s < int n \<longrightarrow> over)) s"
  using assms
proof (induction n arbitrary: s)
  case 0
  then show ?case
    using length_contents [of "inb s c"] by (auto simp: work_left_def)
next
  case (Suc n)
  show ?case
  proof (cases "0 < ReadableBytes (inb s c)")
    case True
    have "wp other_panic (OnMsg_step p c) (\<lambda>brk. wp other_panic (if brk then go_ret True else OnMsg_loop n p c)
        (\<lambda>over t. session_ok (sess p t) \<and> buffer_inv (inb t c) \<and> (work_left p c s < int (Suc n) \<longrightarrow> over))) s"
    proof (rule wp_mono [OF OnMsg_step_advanced [OF Suc.prems True]])
      fix brk t
      assume t: "advanced p c s brk t"
      then show "wp other_panic (if brk then go_ret True else OnMsg_loop n p c)
          (\<lambda>over t. session_ok (sess p t) \<and> buffer_inv (inb t c) \<and> (work_left p c s < int (Suc n) \<longrightarrow> over)) t"
        by (auto simp: advanced_def intro!: wp_mono [OF Suc.IH])
    qed
    then show ?thesis
      using True by (simp add: inbound_get del: wp_lib)
  next
    case False
    then show ?thesis
      using Suc.prems by (simp add: inbound_get del: wp_lib)
  qed
qed

lemma OnMsg_runs:
  assumes "session_ok (sess p s)" and "buffer_inv (inb s c)"
  shows "wp other_panic (OnMsg n p c ts) (\<lambda>over t. session_ok (sess p t) \<and> buffer_inv (inb t c) \<and>
    (work_left p c s < int n \<longrightarrow> over)) s"
  unfolding OnMsg_def
  by (simp add: inbound_get del: wp_lib, rule wp_mono [OF OnMsg_loop_runs [OF assms]])
    (auto simp: inbound_get session_ok_def cleared_def simp del: wp_lib)

lemma NewSession_ok: "wp E (NewSession m c) (\<lambda>p t. session_ok (sess p t) \<and> inb t = inb s) s"
  by (simp add: NewSession_def NewItem_wp session_ok_def cleared_def inb_def fun_eq_iff)

section \<open>Storing a value\<close>

definition conn_loop :: "conn_ptr \<Rightarrow> mcworld \<Rightarrow> eventloop" where
  "conn_loop c s = loops (mw_world s) (tc_el (conns (mw_world s) c))"

text \<open>
  A reply is submitted to the loop of the connection, unless the client asked for none or the
  connection is not open; nothing else of the example changes.
\<close>

definition answer_task :: "session_ptr \<Rightarrow> byte list \<Rightarrow> mcworld \<Rightarrow> task list" where
  "answer_task p msg s =
     (if ss_noreply (sess p s) \<or> tc_state (conns (mw_world s) (ss_conn (sess p s))) \<noteq> Connected then []
      else [TkAsyncWrite (ss_conn (sess p s)) msg None])"

lemma Replay_correct:
  "wp E (Replay p msg) (\<lambda>_ t. t = s\<lparr>mw_world := mw_world t\<rparr> \<and> inb t = inb s \<and>
    el_pendingTasks (conn_loop (ss_conn (sess p s)) t) =
      el_pendingTasks (conn_loop (ss_conn (sess p s)) s) @ answer_task p msg s) s"
  by (simp add: Replay_def AsyncWrite_def AsyncExecute_def Wakeup_def conn_loop_def inb_def fun_eq_iff answer_task_def)

lemma cache_cong:
  "mw_items t = mw_items s \<Longrightarrow> mw_memcacheds t = mw_memcacheds s \<Longrightarrow> cache m t = cache m s"
  "mw_items t = mw_items s \<Longrightarrow> mw_memcacheds t = mw_memcacheds s \<Longrightarrow> n_items t = n_items s \<Longrightarrow> slots_ok m t = slots_ok m s"
  by (simp_all add: cache_def filed_def slots_ok_def fun_eq_iff)

text \<open>A complete item that ends with CRLF is stored as its policy says, and answered.\<close>

definition update_done :: "memcached_ptr \<Rightarrow> session_ptr \<Rightarrow> byte list \<Rightarrow> entry \<Rightarrow> mcworld \<Rightarrow> mcworld \<Rightarrow> bool" where
  "update_done m p key e s t \<longleftrightarrow>
     (let policy = ss_policy (sess p s); c = ss_conn (sess p s); ok = accepts policy e (cache m s key) in
      slots_ok m t \<and> cache m t = (if ok then (cache m s)(key \<mapsto> stamp_entry (g_cas s) e) else cache m s) \<and>
      ss_state (sess p t) = NewCommand \<and>
      el_pendingTasks (conn_loop c t) = el_pendingTasks (conn_loop c s) @
        answer_task p (bytes_of (reply_stored policy ok (cache m s key \<noteq> None)) @ CRLF) s)"

lemma finishValue_stores:
  assumes "slots_ok m s" and "ss_m (sess p s) = m" and "plain_policy (ss_policy (sess p s))"
    and "q < n_items s" and "q \<notin> ran (filed m s)" and "well_filed key (mw_items s q)"
    and "drop (length (it_data (mw_items s q)) - 2) (it_data (mw_items s q)) = CRLF"
  shows "wp E (finishValue p q) (\<lambda>_ t. update_done m p key (entry_of (mw_items s q)) s t \<and> inb t = inb s) s"
proof -
  let ?d = "it_data (mw_items s q)" and ?e = "entry_of (mw_items s q)" and ?x = "sess p s"
  let ?ok = "accepts (ss_policy ?x) ?e (cache m s key)"
  let ?Q = "\<lambda>_ t. update_done m p key ?e s t \<and> inb t = inb s"
  have len: "2 \<le> length ?d"
    using assms(7) by (cases "2 \<le> length ?d") (auto simp: CRLF_def dest: arg_cong [where f = length])
  have crlf: "?d ! (length ?d - 2) = 13" "?d ! (length ?d - 1) = 10"
    using len arg_cong [OF assms(7), of "\<lambda>xs. xs ! 0"] arg_cong [OF assms(7), of "\<lambda>xs. xs ! 1"] Suc_diff_Suc [of 1 "length ?d"]
    by (simp_all add: CRLF_def numeral_2_eq_2)
  have recv: "it_recvBytes (mw_items s q) = int (length ?d)"
    using assms(6) by (auto simp: well_filed_def item_ok_def NeedBytes_def)
  have "EndWithCRLF (mw_items s q) = (go_ret True :: (mcworld, bool) go)"
    using len crlf by (auto simp: EndWithCRLF_def recv go_index_def nat_diff_distrib)
  moreover have reply: "wp E (Replay p msg) (\<lambda>_. wp E (go_seq (resetRequest p) (upd_session p (\<lambda>x. x\<lparr>ss_state := NewCommand\<rparr>))) ?Q) t"
    if "slots_ok m t" "mw_world t = mw_world s" "mw_sessions t = mw_sessions s"
      "cache m t = (if ?ok then (cache m s)(key \<mapsto> stamp_entry (g_cas s) ?e) else cache m s)"
      "msg = bytes_of (reply_stored (ss_policy ?x) ?ok (cache m s key \<noteq> None)) @ CRLF" for t msg
  proof -
    have inb: "inb t = inb s" "conn_loop c t = conn_loop c s" for c
      using that(2) by (simp_all add: inb_def conn_loop_def fun_eq_iff)
    show ?thesis
    proof (rule wp_mono [OF Replay_correct])
      fix a u
      assume u: "u = t\<lparr>mw_world := mw_world u\<rparr> \<and> inb u = inb t \<and> el_pendingTasks (conn_loop (ss_conn (sess p t)) u) =
        el_pendingTasks (conn_loop (ss_conn (sess p t)) t) @ answer_task p msg t"
      have same: "cache m (u\<lparr>mw_sessions := f\<rparr>) = cache m t" "slots_ok m (u\<lparr>mw_sessions := f\<rparr>) = slots_ok m t"
        "conn_loop c (u\<lparr>mw_sessions := f\<rparr>) = conn_loop c u" for f c
        by (rule cache_cong, (subst conjunct1 [OF u], simp)+)+ (simp add: conn_loop_def)
      show "wp E (go_seq (resetRequest p) (upd_session p (\<lambda>x. x\<lparr>ss_state := NewCommand\<rparr>))) ?Q u"
        using u that inb by (simp add: resetRequest_wp update_done_def same Let_def answer_task_def)
    qed auto
  qed
  moreover have "wp E (Store m q (ss_policy ?x)) (\<lambda>a. wp E (case a of (succ, exists) \<Rightarrow>
      Replay p (bytes_of (reply_stored (ss_policy ?x) succ exists) @ CRLF)) (\<lambda>_. wp E (go_seq (resetRequest p)
        (upd_session p (\<lambda>x. x\<lparr>ss_state := NewCommand\<rparr>))) ?Q)) s"
    using assms(3) by (intro wp_mono [OF Store_correct [OF assms(1,4,6,5)]])
      (auto simp: plain_policy_def stamp_entry_def simp del: wp_seq intro!: reply)
  ultimately show ?thesis
    unfolding finishValue_def by (simp add: assms(2))
qed

lemma took_item:
  assumes "item_ok (mw_items s q)" and "it_keylen (mw_items s q) = int (length key)"
    and "0 \<le> n" and "n = NeedBytes (mw_items s q)" and "nat n \<le> length (contents (inb s c))"
    and "filled (mw_items s q) @ take (nat n) (contents (inb s c)) = key @ v" and "it_hash (mw_items s q) = hash key"
  shows "well_filed key (mw_items (took c q n s) q)"
    and "it_data (mw_items (took c q n s) q) = key @ v"
    and "entry_of (mw_items (took c q n s) q) = (entry_of (mw_items s q))\<lparr>en_value := v\<rparr>"
proof -
  let ?it = "mw_items s q" and ?it' = "mw_items (took c q n s) q" and ?d = "take (nat n) (contents (inb s c))"
  have d: "int (length ?d) = n"
    using assms(3,5) by simp
  have it': "?it' = ?it\<lparr>it_data := copy_at (nat (it_recvBytes ?it)) ?d (it_data ?it), it_recvBytes := it_recvBytes ?it + int (length ?d)\<rparr>"
    unfolding d by (simp add: took_def)
  have ok: "item_ok ?it'" "filled ?it' = key @ v" "NeedBytes ?it' = 0"
    using item_Append_ok [OF assms(1) _ it'] assms(4,6) d by simp_all
  then show data: "it_data ?it' = key @ v"
    by (simp add: filled_complete)
  have keep: "it_keylen ?it' = int (length key)" "it_hash ?it' = hash key" "it_flags ?it' = it_flags ?it"
    "it_exptime ?it' = it_exptime ?it" "it_cas ?it' = it_cas ?it"
    using assms(2,7) by (simp_all add: it')
  show "well_filed key ?it'"
    using ok(1,3) keep(1,2) data by (auto simp: well_filed_def item_key_def item_ok_def)
  show "entry_of ?it' = (entry_of ?it)\<lparr>en_value := v\<rparr>"
    using keep data by (simp add: entry_of_def)
qed

lemma recvValue_stores_correct:
  assumes "slots_ok m s" and "ss_m (sess p s) = m" and "plain_policy (ss_policy (sess p s))"
    and "ss_state (sess p s) = RecvValue" and "ss_currItem (sess p s) = Some q" and "q < n_items s" and "q \<notin> ran (filed m s)"
    and "item_ok (mw_items s q)" and "it_keylen (mw_items s q) = int (length key)" and "it_hash (mw_items s q) = hash key"
    and "buffer_inv (inb s c)" and "n = nat (NeedBytes (mw_items s q))" and "n \<le> length (contents (inb s c))"
    and "filled (mw_items s q) @ take n (contents (inb s c)) = key @ v @ CRLF"
  shows "wp E (recvValue p c) (\<lambda>_ t. update_done m p key ((entry_of (mw_items s q))\<lparr>en_value := v @ CRLF\<rparr>) s t \<and>
    contents (inb t c) = drop n (contents (inb s c))) s"
proof -
  let ?t = "took c q (int n) s"
  have n: "int n = NeedBytes (mw_items s q)" "int n \<le> ReadableBytes (inb s c)"
    using assms(8,11-13) length_contents [OF assms(11)] by (auto simp: item_ok_def)
  have b: "contents ((inb s c)\<lparr>readIndex := readIndex (inb s c) + int n\<rparr>) = drop n (contents (inb s c))"
    using contents_Advance(1) [OF assms(11) _ n(2)] by simp
  note it = took_item [OF assms(8,9) _ n(1) _ _ assms(10), where v = "v @ CRLF" and c = c, simplified, OF assms(13,14)]
  have keep: "slots_ok m ?t" "cache m ?t = cache m s" "filed m ?t = filed m s"
    by (rule slots_ok_items [OF assms(1)]; use assms(7) in \<open>auto simp: took_def\<close>)+
  have loops: "conn_loop x ?t = conn_loop x s" "g_cas ?t = g_cas s" "n_items ?t = n_items s" for x
    by (simp_all add: took_def with_inb_def conn_loop_def)
  have conn: "tc_state (conns (mw_world ?t) x) = tc_state (conns (mw_world s) x)" for x
    by (simp add: took_def with_inb_def)
  have "wp E (finishValue p q) (\<lambda>_ t. update_done m p key (entry_of (mw_items ?t q)) ?t t \<and> inb t = inb ?t) ?t"
    using assms keep it loops conn by (intro finishValue_stores) (simp_all add: CRLF_def)
  then have "wp E (finishValue p q) (\<lambda>_ t. update_done m p key ((entry_of (mw_items s q))\<lparr>en_value := v @ CRLF\<rparr>) s t \<and>
      contents (inb t c) = drop n (contents (inb s c))) ?t"
    by (rule wp_mono) (simp_all add: update_done_def Let_def it keep loops b answer_task_def conn)
  moreover have m: "int n = min (NeedBytes (mw_items s q)) (ReadableBytes (inb s c))"
    using n by simp
  moreover have "0 \<le> it_recvBytes (mw_items s q) \<and> it_recvBytes (mw_items s q) \<le> int (length (it_data (mw_items s q)))"
    using assms(8) by (auto simp: item_ok_def NeedBytes_def)
  ultimately show ?thesis
    unfolding recvValue_wp [OF assms(4,5,11) m] n(1) [symmetric] by simp
qed

section \<open>What a session promises\<close>

text \<open>
  C8: none of the session's own assertions can fail, whatever bytes arrive in whatever chunks: from
  a session in a consistent state every call of \<open>OnMsg\<close> panics at most for another reason, and
  leaves the session consistent and the buffer well-formed.
\<close>

theorem session_asserts_hold:
  assumes "session_ok (sess p s)" and "buffer_inv (inb s c)"
  shows "wp other_panic (OnMsg n p c ts) (\<lambda>_ t. session_ok (sess p t) \<and> buffer_inv (inb t c)) s"
  by (rule wp_mono [OF OnMsg_runs [OF assms]]) auto

text \<open>
  C14: the loop of \<open>OnMsg\<close> ends: for a session of the ASCII protocol, twice the number of readable
  bytes plus two iterations are enough.
\<close>

theorem OnMsg_terminates:
  assumes "session_ok (sess p s)" and "buffer_inv (inb s c)" and "2 * ReadableBytes (inb s c) + 2 \<le> int n"
  shows "wp any_panic (OnMsg n p c ts) (\<lambda>over _. over) s"
  by (rule wp_mono [OF OnMsg_runs [OF assms(1,2), of n]]) (use assms(3) in \<open>auto simp: work_left_def\<close>)

text \<open>A session of the binary protocol never leaves the loop once bytes have arrived.\<close>

lemma OnMsg_binary_loops:
  assumes "ss_protocol (sess p s) = Binary" and "ss_state (sess p s) = NewCommand" and "0 < ReadableBytes (inb s c)"
  shows "OnMsg_loop n p c s = Inr (False, s)"
proof (induction n)
  case (Suc n)
  have "wp (\<lambda>_. False) (OnMsg_loop (Suc n) p c) (\<lambda>a t. a = False \<and> t = s) s"
    using assms by (simp add: inbound_get OnMsg_step_def readCommand_def wp_eq [where m = "OnMsg_loop n p c", OF Suc] del: wp_lib)
  then show ?case
    unfolding wp_returns by auto
qed (simp add: go_ret_def)

text \<open>
  C16: a value that arrives with its key in front of it is stored. When the command was \<open>set\<close>,
  \<open>add\<close>, \<open>replace\<close> or \<open>cas\<close>, and the bytes received before and the first bytes of the buffer make
  up the key and a data block that ends with CRLF, the cache is updated as the policy says, the
  session waits for the next command, exactly these bytes have been taken from the buffer, and the
  answer (\<open>STORED\<close> or the reason why not) is submitted if the client did not ask for \<open>noreply\<close> and
  the connection is open, and no answer otherwise.
\<close>

theorem recvValue_stores:
  assumes "slots_ok m s" and "ss_m (sess p s) = m" and "plain_policy (ss_policy (sess p s))"
    and "ss_state (sess p s) = RecvValue" and "ss_currItem (sess p s) = Some q" and "q < n_items s" and "q \<notin> ran (filed m s)"
    and "item_ok (mw_items s q)" and "it_keylen (mw_items s q) = int (length key)" and "it_hash (mw_items s q) = hash key"
    and "buffer_inv (inb s c)" and "n = nat (NeedBytes (mw_items s q))" and "n \<le> length (contents (inb s c))"
    and "filled (mw_items s q) @ take n (contents (inb s c)) = key @ v @ CRLF"
  shows "wp no_panic (recvValue p c) (\<lambda>_ t. update_done m p key ((entry_of (mw_items s q))\<lparr>en_value := v @ CRLF\<rparr>) s t \<and>
    contents (inb t c) = drop n (contents (inb s c))) s"
  using assms by (rule recvValue_stores_correct)

text \<open>
  C31: but the protocol sends no key in the data block. After the command line of a \<open>set\<close> and its
  data block of \<open>b\<close> bytes and CRLF the session has taken all of the block, has stored and
  answered nothing, and waits for as many bytes again as the key has: \<open>NewItem\<close> never puts the key
  into the item.
\<close>

theorem set_waits_for_key:
  assumes "ss_command (sess p s) = ''set''" and "length key \<le> 250" and "key \<noteq> []"
    and "ParseUint (string_of f) 32 = (flags, None)" and "ParseInt (string_of e) 64 = (exptime, None)"
    and "ParseInt (string_of l) 32 = (b, None)" and "0 \<le> b" and "b \<le> 1024 * 1024"
    and "buffer_inv (inb s c)" and "int (length (contents (inb s c))) = b + 2"
  shows "wp no_panic (go_bind (DoUpdate p [key, f, e, l]) (\<lambda>_. recvValue p c))
    (\<lambda>_ t. ss_state (sess p t) = RecvValue \<and> contents (inb t c) = [] \<and> mw_memcacheds t = mw_memcacheds s \<and>
       loops (mw_world t) = loops (mw_world s) \<and>
       (\<exists>q. ss_currItem (sess p t) = Some q \<and> NeedBytes (mw_items t q) = int (length key))) s"
proof -
  let ?n = "int (length (contents (inb s c)))"
  define x where "x = (if exptime > 60 * 60 * 24 * 30
    then (let d = int64 (exptime - UnixMilli (mc_stime (mw_memcacheds s (ss_m (sess p s))))) in if d < 1 then 1 else d) else exptime)"
  define it where "it = \<lparr>it_keylen = int (length key), it_flags = word_of_int flags, it_exptime = x, it_valuelen = b + 2,
    it_recvBytes = 0, it_cas = 0, it_hash = hash key, it_data = replicate (nat (int (length key) + (b + 2))) 0\<rparr>"
  define t where "t = s\<lparr>mw_items := (mw_items s)(n_items s := it), n_items := Suc (n_items s),
    mw_sessions := (mw_sessions s)(p := (sess p s)\<lparr>ss_policy := Set, ss_currItem := Some (n_items s), ss_state := RecvValue\<rparr>)\<rparr>"
  have made: "wp no_panic (DoUpdate p [key, f, e, l]) (\<lambda>_ u. u = t) s"
    using assms unfolding DoUpdate_def
    by (simp add: policy_of_def startTime_def beginUpdate_def NewItem_wp Let_def t_def it_def x_def)
  have t: "ss_state (sess p t) = RecvValue" "ss_currItem (sess p t) = Some (n_items s)" "inb t = inb s"
    "mw_items t (n_items s) = it" "mw_memcacheds t = mw_memcacheds s" "mw_world t = mw_world s"
    by (simp_all add: t_def inb_def fun_eq_iff)
  have len: "ReadableBytes (inb s c) = b + 2"
    using assms(10) length_contents [OF assms(9)] by simp
  have need: "NeedBytes it = int (length key) + (b + 2)" "0 \<le> it_recvBytes it" "it_recvBytes it \<le> int (length (it_data it))"
    using assms(7) by (simp_all add: it_def NeedBytes_def)
  have m: "b + 2 = min (NeedBytes (mw_items t (n_items s))) (ReadableBytes (inb t c))"
    using need len t by simp
  have rest: "contents ((inb s c)\<lparr>readIndex := readIndex (inb s c) + (b + 2)\<rparr>) = []"
    using contents_Advance(1) [OF assms(9), of "b + 2"] assms(7,10) len by simp
  have "wp no_panic (recvValue p c) (\<lambda>_ u. u = took c (n_items s) (b + 2) t) t"
    using t need assms(3,7,9) recvValue_wp [OF t(1,2) _ m, of no_panic "\<lambda>_ u. u = took c (n_items s) (b + 2) t"] by simp
  moreover have "mw_memcacheds (took c q k t) = mw_memcacheds s" "loops (mw_world (took c q k t)) = loops (mw_world s)" for q k
    using t(5,6) by (simp_all add: took_def with_inb_def)
  ultimately have "wp no_panic (recvValue p c) (\<lambda>_ u. ss_state (sess p u) = RecvValue \<and> contents (inb u c) = [] \<and>
      mw_memcacheds u = mw_memcacheds s \<and> loops (mw_world u) = loops (mw_world s) \<and>
      (\<exists>q. ss_currItem (sess p u) = Some q \<and> NeedBytes (mw_items u q) = int (length key))) t"
    by (elim wp_mono) (simp_all add: t need rest)
  then show ?thesis
    unfolding wp_bind by (intro wp_mono [OF made]) auto
qed

text \<open>
  A value that is too large is not skipped. \<open>DoUpdate\<close> notes how many bytes to discard, but
  \<open>OnMsg\<close> then resets the request and with it that number, so \<open>discardValue\<close> discards nothing
  and the bytes of the value are read as commands.
\<close>

theorem too_large_not_discarded:
  assumes "policy_of (ss_command (sess p s)) = Some policy" and "policy \<noteq> Cas" and "length key \<le> 250"
    and "ParseUint (string_of f) 32 = (flags, None)" and "ParseInt (string_of e) 64 = (exptime, None)"
    and "ParseInt (string_of l) 32 = (b, None)" and "1024 * 1024 < b" and "buffer_inv (inb s c)"
  shows "wp other_panic (go_bind (DoUpdate p [key, f, e, l]) (\<lambda>over. go_seq (go_when over (resetRequest p)) (discardValue p c)))
    (\<lambda>_ t. ss_state (sess p t) = NewCommand \<and> inb t = inb s) s"
proof -
  have skip: "wp other_panic (discardValue p c) (\<lambda>_ u. ss_state (sess p u) = NewCommand \<and> inb u = inb s) t"
    if "ss_state (sess p t) = DiscardValue" "ss_currItem (sess p t) = None" "ss_bytesToDiscard (sess p t) = 0" "inb t = inb s" for t
    using that assms(8) length_contents [OF assms(8)]
    by (auto simp: discardValue_def inbound_get inbound_Advance resetRequest_wp simp del: wp_lib)
  have "wp other_panic (DoUpdate p [key, f, e, l]) (\<lambda>over t. over \<and> ss_state (sess p t) = DiscardValue \<and> inb t = inb s) s"
  proof -
    have update: "wp other_panic (beginUpdate p key k x b cas True) (\<lambda>over u. over \<and> ss_state (sess p u) = DiscardValue \<and> inb u = inb s) t"
      if "inb t = inb s" for t k x cas
      unfolding beginUpdate_def
      by (simp only: assms(7) not_True_eq_False if_True if_False wp_seq wp_bind, rule st.keepsD [OF steady_Replay],
          unfold wp_seq wp_bind, rule st.keepsD [OF steady_needle], unfold wp_gets wp_bind, rule st.keepsD [OF steady_cache(2)]) (use that in \<open>simp add: steady_def\<close>)
    show ?thesis
      using assms unfolding DoUpdate_def by (simp add: startTime_def Let_def update)
  qed
  then show ?thesis
    unfolding wp_bind by (rule wp_mono) (auto simp: resetRequest_wp intro!: skip)
qed

text \<open>
  \<open>delete\<close> with nothing but a key panics: the test for a second token reads it exactly when it
  is missing.
\<close>

lemma delete_panics: "length key \<le> 250 \<Longrightarrow> DoDelete p [key] s = Inl IndexOutOfRange"
  by (simp add: DoDelete_def go_defs)

text \<open>A command line of an update with too few tokens panics as well.\<close>

lemma short_update_panics: "length tokens < 4 \<Longrightarrow> wp (\<lambda>e. e = IndexOutOfRange \<or> e = AssertFailed ''invalid policy'')
    (DoUpdate p tokens) (\<lambda>_ _. False) s"
  unfolding DoUpdate_def by (simp add: Let_def case_prod_beta split: option.split)

text \<open>
  The answer to a \<open>get\<close>: the items of the keys that are in the cache, in the order of the request.
\<close>

definition found_items :: "memcached_ptr \<Rightarrow> mcworld \<Rightarrow> bool \<Rightarrow> byte list list \<Rightarrow> byte list" where
  "found_items m s needCas keys =
     concat (map (\<lambda>key. case filed m s key of None \<Rightarrow> [] | Some q \<Rightarrow> response key (mw_items s q) needCas) keys)"

lemma found_items_simps:
  "found_items m s cas [] = []"
  "found_items m s cas (key # keys) =
     (case filed m s key of None \<Rightarrow> [] | Some q \<Rightarrow> response key (mw_items s q) cas) @ found_items m s cas keys"
  by (simp_all add: found_items_def)

text \<open>A \<open>get\<close> writes its needle and its output buffer only.\<close>

definition reads :: "session_ptr \<Rightarrow> mcworld \<Rightarrow> mcworld \<Rightarrow> bool" where
  "reads p s t \<longleftrightarrow> mw_world t = mw_world s \<and> mw_memcacheds t = mw_memcacheds s \<and> n_items t = n_items s \<and>
     (\<forall>q. q \<noteq> ss_needle (sess p s) \<longrightarrow> mw_items t q = mw_items s q) \<and>
     (\<exists>b. sess p t = (sess p s)\<lparr>ss_outputBuffer := b\<rparr>)"

lemma reads_refl: "reads p s s"
  by (cases "sess p s") (auto simp: reads_def)

lemma reads_trans: "reads p s t \<Longrightarrow> reads p t u \<Longrightarrow> reads p s u"
  by (auto simp: reads_def)

lemma reads_cache:
  assumes "reads p s t" and "slots_ok m s" and "ss_needle (sess p s) \<notin> ran (filed m s)"
  shows "slots_ok m t" and "cache m t = cache m s" and "filed m t = filed m s" and "found_items m t cas keys = found_items m s cas keys"
proof -
  have "q \<notin> ran (filed m s) \<or> mw_items t q = mw_items s q" for q
    using assms(1,3) unfolding reads_def by metis
  then show f: "slots_ok m t" "cache m t = cache m s" "filed m t = filed m s"
    using assms(1) slots_ok_items [OF assms(2), of t] by (auto simp: reads_def)
  have "mw_items t q = mw_items s q" if "filed m s k = Some q" for k q
    using that assms(1,3) unfolding reads_def by (metis ranI)
  then show "found_items m t cas keys = found_items m s cas keys"
    by (auto simp: found_items_def f(3) intro!: arg_cong [where f = concat] split: option.split)
qed

lemma on_output_wp: "wp E (on_output p m) Q s = wp E m (\<lambda>a b. Q a (s\<lparr>mw_sessions := (mw_sessions s)(p := (sess p s)\<lparr>ss_outputBuffer := b\<rparr>)\<rparr>))
    (ss_outputBuffer (sess p s))"
  by (simp add: on_output_def)

lemma reset_needle_reads: "wp E (reset_needle p key) (\<lambda>_ t. reads p s t \<and> sess p t = sess p s) s"
  using reads_refl [of p s] by (simp add: reset_needle_def ResetKey_def item_Append_wp reads_def)

lemma output_reads: "reads p s (s\<lparr>mw_sessions := (mw_sessions s)(p := (sess p s)\<lparr>ss_outputBuffer := b\<rparr>)\<rparr>)"
  by (auto simp: reads_def)

definition printed :: "session_ptr \<Rightarrow> byte list \<Rightarrow> mcworld \<Rightarrow> mcworld \<Rightarrow> bool" where
  "printed p d s t \<longleftrightarrow> reads p s t \<and> buffer_inv (ss_outputBuffer (sess p t)) \<and>
     contents (ss_outputBuffer (sess p t)) = contents (ss_outputBuffer (sess p s)) @ d \<and>
     WritableBytes (ss_outputBuffer (sess p t)) = WritableBytes (ss_outputBuffer (sess p s)) - int (length d)"

lemma printed_trans: "printed p d s t \<Longrightarrow> printed p e t u \<Longrightarrow> printed p (d @ e) s u"
  by (auto simp: printed_def intro: reads_trans)

lemma found_printed:
  assumes "slots_ok m s" and "buffer_inv (ss_outputBuffer (sess p s))"
    and "d = (case filed m s key of None \<Rightarrow> [] | Some q \<Rightarrow> response key (mw_items s q) cas)"
    and "int (length d) \<le> WritableBytes (ss_outputBuffer (sess p s))"
  shows "wp E (case filed m s key of None \<Rightarrow> go_ret () | Some q \<Rightarrow> go_bind (go_gets (\<lambda>s. mw_items s q)) (\<lambda>it. on_output p (item_Output it cas)))
    (\<lambda>_ t. printed p d s t) s"
proof (cases "filed m s key")
  case None
  then show ?thesis
    using assms by (auto simp: printed_def reads_refl)
next
  case (Some q)
  then have "item_ok (mw_items s q)" "item_key (mw_items s q) = key" "0 \<le> it_valuelen (mw_items s q)"
    using filed_ok [OF assms(1)] by (auto simp: well_filed_def)
  then show ?thesis
    using assms Some by (simp add: on_output_wp) (rule wp_mono [OF item_Output_correct]; auto simp: printed_def output_reads)
qed

lemma get_keys_printed:
  assumes "slots_ok m s" and "ss_m (sess p s) = m" and "ss_needle (sess p s) \<notin> ran (filed m s)"
    and "\<forall>key \<in> set keys. length key \<le> 250" and "buffer_inv (ss_outputBuffer (sess p s))"
    and "int (length (found_items m s cas keys)) \<le> WritableBytes (ss_outputBuffer (sess p s))"
  shows "wp E (get_keys p cas keys) (\<lambda>refused t. \<not> refused \<and> printed p (found_items m s cas keys) s t) s"
  using assms
proof (induction keys arbitrary: s)
  case Nil
  then show ?case
    by (auto simp: found_items_simps printed_def reads_refl)
next
  case (Cons key keys)
  let ?d = "case filed m s key of None \<Rightarrow> [] | Some q \<Rightarrow> response key (mw_items s q) cas"
  have later: "wp E (get_keys p cas keys) (\<lambda>refused u. \<not> refused \<and> printed p (?d @ found_items m s cas keys) s u) t"
    if "printed p ?d s t" for t
  proof -
    have r: "reads p s t"
      using that by (simp add: printed_def)
    then have "ss_m (sess p t) = m" "ss_needle (sess p t) = ss_needle (sess p s)"
      using Cons.prems(2) by (auto simp: reads_def)
    moreover note c = reads_cache [OF r Cons.prems(1,3)]
    ultimately have "wp E (get_keys p cas keys) (\<lambda>refused u. \<not> refused \<and> printed p (found_items m t cas keys) t u) t"
      using Cons.prems that by (intro Cons.IH) (auto simp: found_items_simps printed_def)
    then show ?thesis
      by (rule wp_mono) (auto simp: c(4) intro: printed_trans [OF that])
  qed
  have body: "wp E (go_bind (memcached_Get m key) (\<lambda>found. go_seq (case found of
            None \<Rightarrow> go_ret ()
          | Some q \<Rightarrow> go_bind (go_gets (\<lambda>s. mw_items s q)) (\<lambda>it. on_output p (item_Output it cas)))
          (get_keys p cas keys))) (\<lambda>refused u. \<not> refused \<and> printed p (?d @ found_items m s cas keys) s u) t"
    if t: "reads p s t" "sess p t = sess p s" for t
  proof -
    note c = reads_cache [OF t(1) Cons.prems(1,3)]
    have d: "?d = (case filed m t key of None \<Rightarrow> [] | Some q \<Rightarrow> response key (mw_items t q) cas)"
      using c(4) [of cas "[key]"] by (simp add: found_items_simps)
    have "wp E (case filed m t key of None \<Rightarrow> go_ret () | Some q \<Rightarrow> go_bind (go_gets (\<lambda>s. mw_items s q)) (\<lambda>it. on_output p (item_Output it cas)))
      (\<lambda>_ u. printed p ?d s u) t"
      by (rule wp_mono [OF found_printed [OF c(1) _ d]])
        (use Cons.prems t in \<open>auto simp: found_items_simps printed_def intro: reads_trans\<close>)
    then show ?thesis
      unfolding wp_bind Get_wp [OF c(1)] wp_seq by (rule wp_mono) (rule later)
  qed
  show ?case
    using Cons.prems(4) unfolding get_keys.simps found_items_simps
    by (simp del: wp_bind add: wp_seq) (rule wp_mono [OF reset_needle_reads]; use body Cons.prems(2) in auto)
qed

text \<open>
  The end of a \<open>get\<close>: what the session has printed goes to the connection in one call, when the
  connection is open, has nothing to send, and the kernel takes all of it.
\<close>

definition takes_at_once :: "world \<Rightarrow> conn_ptr \<Rightarrow> byte list \<Rightarrow> bool" where
  "takes_at_once w c d \<longleftrightarrow>
     (let conn = conns w c; ch = chans w (tc_ch conn); r = env w (trace w) (SysWrite (ch_fd ch) d) in
      tc_state conn = Connected \<and> \<not> isWriting ch \<and> ReadableBytes (tc_outbound conn) = 0 \<and>
      tc_onWriteComplete conn = None \<and> ret_err r = None \<and> ret_n r = int (length d))"

definition after_send :: "world \<Rightarrow> conn_ptr \<Rightarrow> byte list \<Rightarrow> world" where
  "after_send w c d = (let call = SysWrite (ch_fd (chans w (tc_ch (conns w c)))) d in
     w\<lparr>trace := trace w @ [(call, env w (trace w) call)]\<rparr>)"

lemma tcp_Write_now:
  "takes_at_once w c d \<Longrightarrow> d \<noteq> [] \<Longrightarrow> wp E (tcp_Write c d) (\<lambda>_ w'. w' = after_send w c d) w"
  by (simp add: tcp_Write_def write_now_def takes_at_once_def after_send_def Let_def)

lemma flush_sends:
  assumes "buffer_inv (ss_outputBuffer (sess p s))" and "contents (ss_outputBuffer (sess p s)) = d" and "d \<noteq> []"
    and "takes_at_once (mw_world s) c d"
  shows "wp E (go_bind (on_output p (Next (-1))) (\<lambda>data. go_bind (lib (tcp_Write c data)) (\<lambda>_. go_ret ())))
    (\<lambda>_ t. reads p (s\<lparr>mw_world := after_send (mw_world s) c d\<rparr>) t \<and> contents (ss_outputBuffer (sess p t)) = []) s"
  unfolding wp_bind on_output_wp wp_lib wp_ret
proof (rule wp_mono [OF Next_wp [OF assms(1)]], goal_cases)
  case (1 data b)
  then have "data = d" "contents b = []"
    using assms(2) by auto
  then show ?case
    by simp (rule wp_mono [OF tcp_Write_now [OF assms(4,3)]]; auto simp: reads_def)
qed simp

lemma DoGet_answers:
  fixes p s
  defines "x \<equiv> sess p s"
  assumes "slots_ok (ss_m x) s" and "ss_needle x \<notin> ran (filed (ss_m x) s)" and "\<forall>key \<in> set keys. length key \<le> 250"
    and "buffer_inv (ss_outputBuffer x)" and "contents (ss_outputBuffer x) = []"
    and "answer = found_items (ss_m x) s cas keys @ bytes_of ''END'' @ CRLF"
    and "int (length answer) \<le> WritableBytes (ss_outputBuffer x)"
    and "takes_at_once (mw_world s) (ss_conn x) answer" and "WritableBytes (tc_outbound (conns (mw_world s) (ss_conn x))) \<le> 65536"
  shows "wp E (DoGet p cas keys) (\<lambda>_ t. reads p (s\<lparr>mw_world := after_send (mw_world s) (ss_conn x) answer\<rparr>) t \<and>
    contents (ss_outputBuffer (sess p t)) = []) s"
proof -
  let ?eol = "bytes_of ''END'' @ CRLF"
  let ?Q = "\<lambda>_ t. reads p (s\<lparr>mw_world := after_send (mw_world s) (ss_conn x) answer\<rparr>) t \<and> contents (ss_outputBuffer (sess p t)) = []"
  have flush: "wp E (go_bind (on_output p (Next (-1))) (\<lambda>data. go_bind (lib (tcp_Write (ss_conn x) data)) (\<lambda>_. go_ret ()))) ?Q t"
    if t: "printed p answer s t" for t
  proof (rule wp_mono [OF flush_sends [where d = answer]])
    show "reads p (s\<lparr>mw_world := after_send (mw_world s) (ss_conn x) answer\<rparr>) u \<and> contents (ss_outputBuffer (sess p u)) = []"
      if "reads p (t\<lparr>mw_world := after_send (mw_world t) (ss_conn x) answer\<rparr>) u \<and> contents (ss_outputBuffer (sess p u)) = []" for u
      using that t by (auto simp: printed_def reads_def)
  qed (use t assms in \<open>auto simp: printed_def reads_def CRLF_def\<close>)
  have fin: "wp E (on_output p (emit ?eol)) (\<lambda>_. printed p answer s) t" if t: "printed p (found_items (ss_m x) s cas keys) s t" for t
    unfolding on_output_wp
    by (rule wp_mono [OF emit_wp]) (use t assms in \<open>auto simp: printed_def output_reads intro: reads_trans\<close>)
  have shrink: "\<not> WritableBytes (tc_outbound (conns (mw_world t) (ss_conn (sess p t)))) > 65536 + ReadableBytes (ss_outputBuffer (sess p t))"
      "ss_conn (sess p t) = ss_conn x" if "printed p d s t" for d t
    using that assms(10) by (auto simp: printed_def reads_def buffer_inv_def ReadableBytes_def x_def)
  have "wp E (get_keys p cas keys) (\<lambda>refused t. \<not> refused \<and> printed p (found_items (ss_m x) s cas keys) s t) s"
    by (rule get_keys_printed) (use assms in auto)
  then show ?thesis
    unfolding DoGet_def wp_bind
  proof (rule wp_mono, goal_cases)
    case (1 refused t)
    then have "wp E (on_output p (emit ?eol)) (\<lambda>_. printed p answer s) t"
      using fin by simp
    then have "wp E (on_output p (emit ?eol)) (\<lambda>_. wp E (go_bind (go_gets (sess p)) (\<lambda>x.
        go_bind (lib (GetOutboundBuffer (ss_conn x))) (\<lambda>outbound.
        go_seq (go_when (WritableBytes outbound > 65536 + ReadableBytes (ss_outputBuffer x))
          (on_output p (Shrink (65536 + ReadableBytes (ss_outputBuffer x))))) (
        go_bind (on_output p (Next (-1))) (\<lambda>data.
        go_bind (lib (tcp_Write (ss_conn x) data)) (\<lambda>_. go_ret ())))))) ?Q) t"
      by (rule wp_mono) (use flush shrink in \<open>simp_all add: GetOutboundBuffer_def\<close>)
    then show ?case
      using 1 by simp
  qed simp
qed

text \<open>A complete command line is cut off the inbound buffer and processed.\<close>

lemma CRLF_index: "13 \<notin> set line \<Longrightarrow> bytes_Index (line @ CRLF @ rest) CRLF = int (length line)"
  by (induction line) (auto simp: CRLF_def Let_def)

lemma command_line_wp:
  assumes "session_ok (sess p s)" and "ss_state (sess p s) = NewCommand" and "buffer_inv (inb s c)"
    and "contents (inb s c) = line @ CRLF @ rest" and "13 \<notin> set line" and "line \<noteq> []"
  shows "wp E (OnMsg_step p c) Q s = wp E (processRequest p line) (\<lambda>over. wp E (go_seq (go_when over (resetRequest p))
    (go_seq (lib (on_inbound c (Advance (int (length line) + 2)))) (go_ret False))) Q) s"
proof -
  let ?b = "inb s c"
  have search: "Search CRLF ?b = Inr (int (length line), ?b)" "Peek ?b = Inr (contents ?b, ?b)"
    using assms(3-5) by (simp_all add: Search_result Peek_result CRLF_index) (simp add: CRLF_def)
  have "ss_protocol (sess p s) = Ascii" "length CRLF = 2"
    using assms(1) by (simp_all add: session_ok_def CRLF_def)
  then show ?thesis
    unfolding OnMsg_step_def readCommand_def using assms(2,4,6)
    by (simp add: inbound_read [where m = "Search CRLF" and s = s and c = c, OF search(1)]
        inbound_read [where m = Peek and s = s and c = c, OF search(2)] del: wp_lib)
qed

text \<open>An empty line is taken for an incomplete one: the loop ends, and whatever follows is never read.\<close>

lemma empty_line_blocks:
  assumes "session_ok (sess p s)" and "ss_state (sess p s) = NewCommand" and "buffer_inv (inb s c)"
    and "contents (inb s c) = CRLF @ rest" and "length rest \<le> 1022"
  shows "OnMsg_step p c s = Inr (True, s)"
proof -
  have search: "Search CRLF (inb s c) = Inr (0, inb s c)"
    using assms(3,4) CRLF_index [of "[]" rest] by (simp add: Search_result) (simp add: CRLF_def)
  have "ss_protocol (sess p s) = Ascii" "\<not> ReadableBytes (inb s c) > 1024"
    using assms(1,4,5) length_contents [OF assms(3)] by (simp_all add: session_ok_def CRLF_def)
  then have "wp no_panic (OnMsg_step p c) (\<lambda>brk t. brk \<and> t = s) s"
    unfolding OnMsg_step_def readCommand_def using assms(2)
    by (simp add: inbound_read [where m = "Search CRLF" and s = s and c = c, OF search] inbound_get del: wp_lib)
  then show ?thesis
    by (auto simp: wp_returns)
qed

definition quiet :: "byte list \<Rightarrow> bool" where
  "quiet line \<longleftrightarrow> length line \<ge> 8 \<and> string_of (drop (length line - 8) line) = '' noreply''"

text \<open>The session while a command is processed.\<close>

definition begun :: "session_ptr \<Rightarrow> string \<Rightarrow> mcworld \<Rightarrow> mcworld" where
  "begun p command s = s\<lparr>mw_sessions := (mw_sessions s)(p := (sess p s)\<lparr>ss_reqProcessed := ss_reqProcessed (sess p s) + 1,
     ss_command := command\<rparr>)\<rparr>"

lemma begun_fields [simp]:
  "mw_world (begun p command s) = mw_world s" "slots_ok m (begun p command s) = slots_ok m s"
  "filed m (begun p command s) = filed m s" "cache m (begun p command s) = cache m s"
  "found_items m (begun p command s) cas keys = found_items m s cas keys"
  "sess p (begun p command s) = (sess p s)\<lparr>ss_reqProcessed := ss_reqProcessed (sess p s) + 1, ss_command := command\<rparr>"
  by (simp_all add: begun_def slots_ok_def filed_def cache_def found_items_def fun_eq_iff cong: option.case_cong)

text \<open>The session after a command line of \<open>k\<close> bytes.\<close>

definition line_taken :: "session_ptr \<Rightarrow> conn_ptr \<Rightarrow> int \<Rightarrow> mcworld \<Rightarrow> mcworld" where
  "line_taken p c k s = with_inb c ((inb s c)\<lparr>readIndex := readIndex (inb s c) + k\<rparr>) (s\<lparr>mw_sessions := (mw_sessions s)(p :=
     (sess p s)\<lparr>ss_command := [], ss_noreply := False, ss_policy := Invalid, ss_currItem := None, ss_bytesToDiscard := 0\<rparr>)\<rparr>)"

lemma line_taken_wp:
  "wp E (go_seq (go_when True (resetRequest p)) (go_seq (lib (on_inbound c (Advance k))) (go_ret False))) Q s = Q False (line_taken p c k s)"
  by (simp add: resetRequest_wp inbound_Advance line_taken_def inb_def del: wp_lib)

lemma line_taken_fields [simp]:
  "trace (mw_world (line_taken p c k s)) = trace (mw_world s)"
  "inb (line_taken p c k s) c = (inb s c)\<lparr>readIndex := readIndex (inb s c) + k\<rparr>"
  "slots_ok m (line_taken p c k s) = slots_ok m s" "cache m (line_taken p c k s) = cache m s"
  "sess p (line_taken p c k s) = (sess p s)\<lparr>ss_command := [], ss_noreply := False, ss_policy := Invalid,
     ss_currItem := None, ss_bytesToDiscard := 0\<rparr>"
proof -
  show "slots_ok m (line_taken p c k s) = slots_ok m s" "cache m (line_taken p c k s) = cache m s"
    by (intro cache_cong; simp add: line_taken_def)+
qed (simp_all add: line_taken_def, simp_all add: with_inb_def inb_def)

lemma processRequest_begun:
  assumes "cleared (sess p s)" and "Fields line = bytes_of command # tokens" and "\<not> quiet line"
  shows "wp E (processRequest p line) Q s = wp E (dispatch p command tokens) Q (begun p command s)"
  using assms unfolding processRequest_def begun_def
  by (auto simp: cleared_def Let_def quiet_def [symmetric] string_of_bytes_of)

text \<open>
  C15: a line \<open>get\<close> or \<open>gets\<close> with keys is answered. The session sends the items of the keys that
  the cache holds, in the order of the request, and \<open>END\<close>, in one \<open>write\<close>; it takes exactly the
  line from the inbound buffer and waits for the next command, and the cache stays as it is. This
  is for a line without \<open>noreply\<close> whose keys are at most 250 bytes long, an open connection with
  nothing to send whose kernel takes the answer at once, and an answer for which the empty output
  buffer has room (\<open>Output\<close> and \<open>DoGet\<close> ignore the counts of \<open>Write\<close>, so a longer answer may lose
  its end); the needle of the session is not an item of the cache.
\<close>

theorem get_answers:
  assumes "session_ok (sess p s)" and "ss_state (sess p s) = NewCommand" and "ss_conn (sess p s) = c" and "ss_m (sess p s) = m"
    and "buffer_inv (inb s c)" and "contents (inb s c) = line @ CRLF @ rest" and "13 \<notin> set line" and "\<not> quiet line"
    and "Fields line = bytes_of command # keys" and "command = ''get'' \<or> command = ''gets''"
    and "\<forall>key \<in> set keys. length key \<le> 250" and "slots_ok m s" and "ss_needle (sess p s) \<notin> ran (filed m s)"
    and "buffer_inv (ss_outputBuffer (sess p s))" and "contents (ss_outputBuffer (sess p s)) = []"
    and "answer = found_items m s (command = ''gets'') keys @ bytes_of ''END'' @ CRLF"
    and "int (length answer) \<le> WritableBytes (ss_outputBuffer (sess p s))"
    and "w = mw_world s" and "takes_at_once w c answer" and "WritableBytes (tc_outbound (conns w c)) \<le> 65536"
    and "call = SysWrite (ch_fd (chans w (tc_ch (conns w c)))) answer"
  shows "wp no_panic (OnMsg_step p c) (\<lambda>brk t. \<not> brk \<and> trace (mw_world t) = trace w @ [(call, env w (trace w) call)] \<and>
    contents (inb t c) = rest \<and> slots_ok m t \<and> cache m t = cache m s \<and>
    session_ok (sess p t) \<and> ss_state (sess p t) = NewCommand \<and> contents (ss_outputBuffer (sess p t)) = []) s"
proof -
  let ?s = "(begun p command s)\<lparr>mw_world := after_send w c answer\<rparr>" and ?b = "inb s c"
  let ?Q = "\<lambda>brk t. \<not> brk \<and> trace (mw_world t) = trace w @ [(call, env w (trace w) call)] \<and> contents (inb t c) = rest \<and>
    slots_ok m t \<and> cache m t = cache m s \<and> session_ok (sess p t) \<and> ss_state (sess p t) = NewCommand \<and>
    contents (ss_outputBuffer (sess p t)) = []"
  have ok: "cleared (sess p s)" "line \<noteq> []"
    using assms(1,2,9) by (auto simp: session_ok_def Fields_def fields_from.simps)
  have same: "slots_ok m ?s" "filed m ?s = filed m s" "cache m ?s = cache m s" "inb ?s = inb s"
    using assms(12,18) by (simp_all add: begun_def slots_ok_def filed_def cache_def fun_eq_iff inb_def after_send_def Let_def)
  have adv: "contents (?b\<lparr>readIndex := readIndex ?b + (int (length line) + 2)\<rparr>) = rest"
    using contents_Advance(1) [OF assms(5), of "int (length line) + 2"] length_contents [OF assms(5)] assms(6)
    by (simp add: CRLF_def nat_add_distrib)
  have "wp no_panic (DoGet p (command = ''gets'') keys) (\<lambda>_ t. reads p ?s t \<and> contents (ss_outputBuffer (sess p t)) = []) (begun p command s)"
    using DoGet_answers [where p = p and s = "begun p command s" and cas = "command = ''gets''" and E = no_panic and answer = answer
        and keys = keys] assms by simp
  then have "wp no_panic (DoGet p (command = ''gets'') keys) (\<lambda>_. wp no_panic (go_seq (go_when True (resetRequest p))
      (go_seq (lib (on_inbound c (Advance (int (length line) + 2)))) (go_ret False))) ?Q) (begun p command s)"
    unfolding line_taken_wp
  proof (rule wp_mono)
    fix u t
    assume t: "reads p ?s t \<and> contents (ss_outputBuffer (sess p t)) = []"
    then obtain b where x: "sess p t = (sess p (begun p command s))\<lparr>ss_outputBuffer := b\<rparr>" and w: "mw_world t = after_send w c answer"
      by (auto simp: reads_def)
    have "slots_ok m t" "cache m t = cache m s" "inb t = inb s"
      using reads_cache [OF conjunct1 [OF t] same(1)] same assms(13) w by (simp_all add: inb_def fun_eq_iff)
    then show "?Q False (line_taken p c (int (length line) + 2) t)"
      using t x w adv assms(1,2,21) by (simp add: after_send_def Let_def session_ok_def cleared_def)
  qed simp
  moreover have "dispatch p command keys = go_seq (DoGet p (command = ''gets'') keys) (go_ret True)"
    using assms(10) by (auto simp: dispatch_def policy_of_def)
  ultimately show ?thesis
    unfolding command_line_wp [OF assms(1,2,5,6,7) ok(2)] processRequest_begun [OF ok(1) assms(9,8)]
    by (simp only: wp_seq) (erule wp_mono; simp only: wp_ret)
qed

section \<open>Witnesses\<close>

text \<open>A session on an open connection that has received the given bytes.\<close>

definition with_bytes :: "byte list \<Rightarrow> (session \<Rightarrow> session) \<Rightarrow> item \<Rightarrow> mcworld" where
  "with_bytes d f it = (let s = one_cache (one_conn takes_all idle (open_conn\<lparr>tc_inbound :=
       \<lparr>buf = d, readIndex = 0, writeIndex = int (length d)\<rparr>\<rparr>)) in
     s\<lparr>mw_sessions := (\<lambda>p. f (sess p s)), mw_items := (\<lambda>_. it)\<rparr>)"

lemma with_bytes_fields [simp]:
  "inb (with_bytes d f it) c = \<lparr>buf = d, readIndex = 0, writeIndex = int (length d)\<rparr>"
  "mw_items (with_bytes d f it) = (\<lambda>_. it)" "n_items (with_bytes d f it) = 1" "g_cas (with_bytes d f it) = 0"
  "tc_state (conns (mw_world (with_bytes d f it)) c) = Connected"
  by (simp_all add: with_bytes_def Let_def one_cache_def one_conn_def inb_def)

lemma with_bytes_sess: "sess p (with_bytes d f it) = f \<lparr>ss_m = 0, ss_conn = 0, ss_state = NewCommand, ss_protocol = Ascii,
    ss_command = [], ss_noreply = False, ss_policy = Invalid, ss_currItem = None, ss_bytesToDiscard = 0,
    ss_needle = 0, ss_outputBuffer = NewBuffer, ss_bytesRead = 0, ss_reqProcessed = 0\<rparr>"
  by (simp add: with_bytes_def Let_def one_cache_def)

lemma with_bytes_cache: "slots_ok m (with_bytes d f it)" "cache m (with_bytes d f it) = Map.empty"
    "filed m (with_bytes d f it) = Map.empty"
  by (auto simp: with_bytes_def Let_def slots_ok_def cache_def filed_def one_cache_def fun_eq_iff)

theorem session_asserts_hold_witness:
  "wp other_panic (OnMsg 9 0 0 0) (\<lambda>_ t. session_ok (sess 0 t) \<and> buffer_inv (inb t 0))
     (with_bytes (bytes_of ''version'' @ CRLF) (\<lambda>x. x) blank_item)"
  by (rule session_asserts_hold) (simp_all add: with_bytes_sess session_ok_def cleared_def buffer_defs)

theorem OnMsg_terminates_witness:
  "wp any_panic (OnMsg 20 0 0 0) (\<lambda>over _. over) (with_bytes (bytes_of ''version'' @ CRLF) (\<lambda>x. x) blank_item)"
  by (rule OnMsg_terminates) (simp_all add: with_bytes_sess session_ok_def cleared_def CRLF_def buffer_defs)

text \<open>An item that waits for a key of one byte and a value of one byte.\<close>

definition awaited :: item where
  "awaited = \<lparr>it_keylen = 1, it_flags = 7, it_exptime = 0, it_valuelen = 3, it_recvBytes = 0, it_cas = 0,
     it_hash = hash [97], it_data = [0, 0, 0, 0]\<rparr>"

theorem recvValue_stores_witness:
  "wp no_panic (recvValue 0 0) (\<lambda>_ t. cache 0 t [97] = Some \<lparr>en_flags = 7, en_exptime = 0, en_value = [120, 13, 10], en_cas = 1\<rparr> \<and>
      ss_state (sess 0 t) = NewCommand \<and> contents (inb t 0) = [5])
     (with_bytes [97, 120, 13, 10, 5] (\<lambda>x. x\<lparr>ss_state := RecvValue, ss_policy := Set, ss_currItem := Some 0\<rparr>) awaited)"
  by (rule wp_mono [OF recvValue_stores [where m = 0 and q = 0 and key = "[97]" and v = "[120]" and n = 4]])
    (simp_all add: with_bytes_sess with_bytes_cache awaited_def item_ok_def NeedBytes_def filled_def CRLF_def plain_policy_def
      update_done_def Let_def entry_of_def stamp_entry_def buffer_defs)

theorem set_waits_for_key_witness:
  "wp no_panic (go_bind (DoUpdate 0 [[97], bytes_of ''7'', bytes_of ''0'', bytes_of ''1'']) (\<lambda>_. recvValue 0 0))
     (\<lambda>_ t. \<exists>q. ss_currItem (sess 0 t) = Some q \<and> NeedBytes (mw_items t q) = 1)
     (with_bytes [120, 13, 10] (\<lambda>x. x\<lparr>ss_command := ''set''\<rparr>) blank_item)"
  by (rule wp_mono [OF set_waits_for_key [where flags = 7 and exptime = 0 and b = 1]])
    (simp_all add: with_bytes_sess ParseUint_def ParseInt_def buffer_defs)

theorem too_large_not_discarded_witness:
  "wp other_panic (go_bind (DoUpdate 0 [[97], bytes_of ''7'', bytes_of ''0'', bytes_of ''2000000''])
      (\<lambda>over. go_seq (go_when over (resetRequest 0)) (discardValue 0 0)))
     (\<lambda>_ t. ss_state (sess 0 t) = NewCommand) (with_bytes [120, 13, 10] (\<lambda>x. x\<lparr>ss_command := ''set''\<rparr>) blank_item)"
  by (rule wp_mono [OF too_large_not_discarded [where flags = 7 and exptime = 0 and b = 2000000 and policy = Set]])
    (simp_all add: with_bytes_sess ParseUint_def ParseInt_def policy_of_def buffer_defs)

text \<open>A session whose cache holds the letter item, whose needle is another one, and which has received a request.\<close>

definition letter_conn :: tcpConn where
  "letter_conn = open_conn\<lparr>tc_inbound := \<lparr>buf = bytes_of ''get a b'' @ CRLF @ [5], readIndex = 0, writeIndex = 10\<rparr>\<rparr>"

definition letter_session :: mcworld where
  "letter_session = (let s = letter_cache (one_conn takes_all idle letter_conn) in
     s\<lparr>mw_sessions := (\<lambda>p. (sess p s)\<lparr>ss_needle := 1\<rparr>)\<rparr>)"

lemma letter_session_sel:
  "slots_ok 0 letter_session" "filed 0 letter_session = [[97] \<mapsto> 0]"
  "mw_world letter_session = one_conn takes_all idle letter_conn" "mw_items letter_session = (\<lambda>_. letter)"
  "ss_m (sess p letter_session) = 0" "ss_conn (sess p letter_session) = 0" "ss_needle (sess p letter_session) = 1"
  "ss_outputBuffer (sess p letter_session) = NewBuffer" "session_ok (sess p letter_session)"
  "ss_state (sess p letter_session) = NewCommand"
  "inb letter_session 0 = \<lparr>buf = bytes_of ''get a b'' @ CRLF @ [5], readIndex = 0, writeIndex = 10\<rparr>"
  using letter_cache_ok [of "one_conn takes_all idle letter_conn"]
  by (simp_all add: letter_session_def Let_def slots_ok_def filed_def fun_eq_iff)
    (simp_all add: letter_cache_def one_cache_def session_ok_def cleared_def inb_def letter_conn_def)

lemma letter_found: "found_items 0 letter_session False [[97], [98]] = bytes_of ''VALUE a 0 1'' @ CRLF @ [120, 13, 10]"
  by (simp add: found_items_simps letter_session_sel response_def letter_def Itoa_def decimal.simps digit_def bytes_of_def CRLF_def)

theorem get_answers_witness:
  "\<exists>answer. answer = bytes_of ''VALUE a 0 1'' @ CRLF @ [120, 13, 10] @ bytes_of ''END'' @ CRLF \<and>
     wp no_panic (OnMsg_step 0 0) (\<lambda>_ t. trace (mw_world t) = [(SysWrite 7 answer, takes_all answer)] \<and> contents (inb t 0) = [5])
       letter_session"
proof (intro exI conjI, rule refl)
  let ?answer = "bytes_of ''VALUE a 0 1'' @ CRLF @ [120, 13, 10] @ bytes_of ''END'' @ CRLF"
  have takes: "takes_at_once (one_conn takes_all idle letter_conn) 0 ?answer"
    by (simp add: takes_at_once_def write_kernel_def takes_all_def CRLF_def letter_conn_def)
      (simp add: one_conn_def open_conn_def blank_conn_def idle_def blank_channel_def isWriting_def)
  have room: "int (length ?answer) \<le> WritableBytes NewBuffer" "WritableBytes (tc_outbound letter_conn) \<le> 65536"
    by (simp_all add: CRLF_def bytes_of_def letter_conn_def open_conn_def blank_conn_def WritableBytes_def NewBuffer_def)
  have line: "Fields (bytes_of ''get a b'') = [bytes_of ''get'', [97], [98]]" "\<not> quiet (bytes_of ''get a b'')" "13 \<notin> set (bytes_of ''get a b'')"
    by code_simp+
  show "wp no_panic (OnMsg_step 0 0) (\<lambda>_ t. trace (mw_world t) = [(SysWrite 7 ?answer, takes_all ?answer)] \<and> contents (inb t 0) = [5])
      letter_session"
    by (rule wp_mono [OF get_answers [where p = 0 and c = 0 and m = 0 and line = "bytes_of ''get a b''" and rest = "[5]" and command = "''get''"
          and keys = "[[97], [98]]", OF _ _ _ _ _ _ line(3,2,1) _ _ _ _ _ _ refl _ refl _ _ refl]];
        use takes room in \<open>simp add: letter_session_sel letter_found buffer_defs NewBuffer_def write_kernel_def CRLF_def\<close>)
qed

end
